(* ===== verification/Prelude.thy ===== *)
theory Prelude
  imports Main "HOL-Library.AList" "HOL-Library.Word" "HOL-Library.Multiset"
begin

text \<open>
  What every component shares: Rust's control flow as values, the helpers of Rust's \<open>Option\<close>
  and \<open>Result\<close> that the sources call, the \<open>HashMap\<close> of the standard library, and the
  collections of facts the component proofs draw on.

  A piece of effectful Rust is a function \<open>'w \<Rightarrow> 'a outcome \<times> 'w\<close>: it reads and updates the
  world it runs in (the channels, the registry, \<dots>) and either returns a value or unwinds with a
  panic. What was done to the world before a panic stays done, as in Rust.
\<close>

section \<open>Effects and panics\<close>

named_theorems io_defs
named_theorems model_defs

datatype 'a outcome = Ret 'a | Panic string

type_synonym ('w, 'a) io = "'w \<Rightarrow> 'a outcome \<times> 'w"

definition ret_io :: "'a \<Rightarrow> ('w, 'a) io" where
  "ret_io a w = (Ret a, w)"

definition panic_io :: "string \<Rightarrow> ('w, 'a) io" where
  "panic_io msg w = (Panic msg, w)"

definition bind_io :: "('w, 'a) io \<Rightarrow> ('a \<Rightarrow> ('w, 'b) io) \<Rightarrow> ('w, 'b) io" where
  "bind_io m f w = (case m w of (Ret a, w') \<Rightarrow> f a w' | (Panic msg, w') \<Rightarrow> (Panic msg, w'))"

definition then_io :: "('w, 'a) io \<Rightarrow> ('w, 'b) io \<Rightarrow> ('w, 'b) io" where
  "then_io m n = bind_io m (\<lambda>_. n)"

declare ret_io_def [io_defs] panic_io_def [io_defs] bind_io_def [io_defs] then_io_def [io_defs]

lemma ret_io_apply [simp]: "ret_io a w = (Ret a, w)"
  by (simp add: ret_io_def)

lemma panic_io_apply [simp]: "panic_io msg w = (Panic msg, w)"
  by (simp add: panic_io_def)

lemma bind_io_ret [simp]: "bind_io (ret_io a) f = f a"
  by (rule ext) (simp add: bind_io_def)

lemma bind_io_panic [simp]: "bind_io (panic_io msg) f = panic_io msg"
  by (rule ext) (simp add: bind_io_def)

lemma bind_io_ret_right [simp]: "bind_io m ret_io = m"
  by (rule ext) (simp add: bind_io_def split: prod.split outcome.split)

lemma bind_io_assoc: "bind_io (bind_io m f) g = bind_io m (\<lambda>a. bind_io (f a) g)"
  by (rule ext) (simp add: bind_io_def split: prod.split outcome.split)

lemma bind_io_Ret: "m w = (Ret a, w') \<Longrightarrow> bind_io m f w = f a w'"
  by (simp add: bind_io_def)

lemma bind_io_Panic: "m w = (Panic msg, w') \<Longrightarrow> bind_io m f w = (Panic msg, w')"
  by (simp add: bind_io_def)

lemma bind_io_eq_Ret_iff:
  "bind_io m f w = (Ret b, w2) \<longleftrightarrow> (\<exists>a w1. m w = (Ret a, w1) \<and> f a w1 = (Ret b, w2))"
  by (auto simp: bind_io_def split: prod.splits outcome.splits)

text \<open>
  \<open>returns m w\<close>: in the world \<open>w\<close> the computation does not panic.
\<close>

definition returns :: "('w, 'a) io \<Rightarrow> 'w \<Rightarrow> bool" where
  "returns m w \<longleftrightarrow> (case fst (m w) of Ret _ \<Rightarrow> True | Panic _ \<Rightarrow> False)"

lemma returns_iff: "returns m w \<longleftrightarrow> (\<exists>a w'. m w = (Ret a, w'))"
  by (cases "m w") (auto simp: returns_def split: outcome.splits)

lemma returns_ret_io [simp]: "returns (ret_io a) w"
  by (simp add: returns_def)

lemma returns_panic_io [simp]: "\<not> returns (panic_io msg) w"
  by (simp add: returns_def)

lemma returns_bind_io:
  "returns (bind_io m f) w \<longleftrightarrow> (\<exists>a w'. m w = (Ret a, w') \<and> returns (f a) w')"
  by (cases "m w") (auto simp: returns_def bind_io_def split: outcome.splits)

lemma returns_bind_ret_io [simp]: "returns (bind_io m (\<lambda>a. ret_io (f a))) w = returns m w"
  by (simp add: returns_bind_io) (auto simp: returns_iff)

lemma returns_then_ret_io [simp]: "returns (then_io m (ret_io b)) w = returns m w"
  by (simp add: then_io_def)

lemma returns_then_io:
  "returns (then_io m n) w \<longleftrightarrow> (\<exists>a w'. m w = (Ret a, w') \<and> returns n w')"
  by (simp add: then_io_def returns_bind_io)

text \<open>\<open>assert!\<close>, for the tests.\<close>

definition assert_io :: "bool \<Rightarrow> ('w, unit) io" where
  "assert_io b = (if b then ret_io () else panic_io ''assertion failed'')"

lemma assert_io_simps [simp]: "assert_io True = ret_io ()" "assert_io False = panic_io ''assertion failed''"
  by (simp_all add: assert_io_def)


section \<open>Option and Result\<close>

text \<open>\<open>Result<T, E>\<close> is \<open>'e + 'a\<close>: \<open>Inl\<close> is \<open>Err\<close>, \<open>Inr\<close> is \<open>Ok\<close>.\<close>

definition is_ok :: "'e + 'a \<Rightarrow> bool" where
  "is_ok r = (case r of Inl _ \<Rightarrow> False | Inr _ \<Rightarrow> True)"

abbreviation is_err :: "'e + 'a \<Rightarrow> bool" where
  "is_err r \<equiv> \<not> is_ok r"

lemma is_ok_simps [simp]: "is_ok (Inr a)" "is_err (Inl e)"
  by (simp_all add: is_ok_def)

lemma is_ok_iff: "is_ok r \<longleftrightarrow> (\<exists>a. r = Inr a)"
  by (cases r) simp_all

lemma not_Inl_unit [simp]: "(\<forall>e. (r :: 'e + unit) \<noteq> Inl e) \<longleftrightarrow> r = Inr ()"
  by (cases r) auto

text \<open>\<open>Result::map\<close>, \<open>Result::map_err\<close>, and the two \<open>transpose\<close> methods.\<close>

definition map_ok :: "('a \<Rightarrow> 'b) \<Rightarrow> 'e + 'a \<Rightarrow> 'e + 'b" where
  "map_ok f r = (case r of Inl e \<Rightarrow> Inl e | Inr a \<Rightarrow> Inr (f a))"

definition map_err :: "('e \<Rightarrow> 'f) \<Rightarrow> 'e + 'a \<Rightarrow> 'f + 'a" where
  "map_err f r = (case r of Inl e \<Rightarrow> Inl (f e) | Inr a \<Rightarrow> Inr a)"

fun transpose_option :: "('e + 'a) option \<Rightarrow> 'e + 'a option" where
  "transpose_option None = Inr None"
| "transpose_option (Some (Inr a)) = Inr (Some a)"
| "transpose_option (Some (Inl e)) = Inl e"

fun transpose_result :: "'e + 'a option \<Rightarrow> ('e + 'a) option" where
  "transpose_result (Inr None) = None"
| "transpose_result (Inr (Some a)) = Some (Inr a)"
| "transpose_result (Inl e) = Some (Inl e)"

lemma map_ok_simps [simp]: "map_ok f (Inl e) = Inl e" "map_ok f (Inr a) = Inr (f a)"
  by (simp_all add: map_ok_def)

lemma map_err_simps [simp]: "map_err f (Inl e) = Inl (f e)" "map_err f (Inr a) = Inr a"
  by (simp_all add: map_err_def)

lemma is_ok_map_err [simp]: "is_ok (map_err f r) = is_ok r"
  by (cases r) simp_all

lemma transpose_inverse [simp]:
  "transpose_result (transpose_option x) = x" "transpose_option (transpose_result r) = r"
  by (cases x rule: transpose_option.cases; simp) (cases r rule: transpose_result.cases; simp)


section \<open>HashMap\<close>

text \<open>
  \<open>std::collections::HashMap\<close> is an association list with distinct keys. \<open>insert\<close>, \<open>remove\<close>
  and \<open>get\<close> are \<open>AList.update\<close>, \<open>AList.delete\<close> and \<open>map_of\<close>. The order in which a
  \<open>HashMap\<close> is iterated is unspecified, so each definition that iterates one takes the order as
  an argument, of which the proofs use only that it is a permutation (\<open>hash_order\<close>).
\<close>

type_synonym ('k, 'v) hash_map = "('k \<times> 'v) list"

definition distinct_keys :: "('k, 'v) hash_map \<Rightarrow> bool" where
  "distinct_keys m \<longleftrightarrow> distinct (map fst m)"

definition hash_order :: "('a list \<Rightarrow> 'a list) \<Rightarrow> bool" where
  "hash_order iter \<longleftrightarrow> (\<forall>xs. mset (iter xs) = mset xs)"

lemma hash_order_id: "hash_order id" "hash_order (\<lambda>xs. xs)" "hash_order rev"
  by (simp_all add: hash_order_def)

lemma hash_order_mset: "hash_order iter \<Longrightarrow> mset (iter xs) = mset xs"
  by (simp add: hash_order_def)

lemma hash_order_set: "hash_order iter \<Longrightarrow> set (iter xs) = set xs"
  by (metis hash_order_mset set_mset_mset)

lemma distinct_keys_Nil [simp]: "distinct_keys []"
  by (simp add: distinct_keys_def)

lemma distinct_keys_update [simp]: "distinct_keys m \<Longrightarrow> distinct_keys (AList.update k v m)"
  by (simp add: distinct_keys_def distinct_update)

lemma distinct_keys_filter [simp]: "distinct_keys m \<Longrightarrow> distinct_keys (filter P m)"
  by (simp add: distinct_keys_def distinct_map_filter)

lemma delete_eq_filter: "AList.delete k m = filter (\<lambda>(k', v). k' \<noteq> k) m"
  by (simp add: AList.delete_eq) (rule filter_cong; auto)

lemma distinct_keys_delete [simp]: "distinct_keys m \<Longrightarrow> distinct_keys (AList.delete k m)"
  by (simp add: delete_eq_filter)

lemma map_of_eq_Some_iff: "distinct_keys m \<Longrightarrow> map_of m k = Some v \<longleftrightarrow> (k, v) \<in> set m"
  by (simp add: distinct_keys_def)

lemma update_fresh: "map_of m k = None \<Longrightarrow> AList.update k v m = m @ [(k, v)]"
  by (induction m) (auto split: if_splits)

text \<open>Removing a list of keys one after the other, as the clean-up loops do.\<close>

definition remove_keys :: "'k list \<Rightarrow> ('k, 'v) hash_map \<Rightarrow> ('k, 'v) hash_map" where
  "remove_keys ks m = fold AList.delete ks m"

lemma remove_keys_eq_filter: "remove_keys ks m = filter (\<lambda>(k, v). k \<notin> set ks) m"
proof (induction ks arbitrary: m)
  case Nil
  show ?case by (simp add: remove_keys_def)
next
  case (Cons k ks)
  have "remove_keys (k # ks) m = remove_keys ks (AList.delete k m)"
    by (simp add: remove_keys_def)
  also have "\<dots> = filter (\<lambda>(k', v). k' \<notin> set (k # ks)) m"
    by (simp add: Cons.IH delete_eq_filter) (rule filter_cong; auto)
  finally show ?case .
qed

lemma map_of_filter_key:
  "map_of (filter (\<lambda>(k, v). P k) m) k = (if P k then map_of m k else None)"
  by (induction m) auto

lemma map_of_remove_keys: "map_of (remove_keys ks m) k = (if k \<in> set ks then None else map_of m k)"
  using map_of_filter_key [of "\<lambda>k. k \<notin> set ks" m k]
  by (simp add: remove_keys_eq_filter)

lemma distinct_keys_remove_keys [simp]: "distinct_keys m \<Longrightarrow> distinct_keys (remove_keys ks m)"
  by (simp add: remove_keys_eq_filter)


section \<open>Lists\<close>

lemma map_filter_append [simp]:
  "List.map_filter f (xs @ ys) = List.map_filter f xs @ List.map_filter f ys"
  by (simp add: List.map_filter_def)

lemma map_filter_Cons:
  "List.map_filter f (x # xs) =
     (case f x of None \<Rightarrow> List.map_filter f xs | Some y \<Rightarrow> y # List.map_filter f xs)"
  by (simp add: List.map_filter_def split: option.split)

lemma in_set_map_filter: "x \<in> set (List.map_filter f xs) \<longleftrightarrow> (\<exists>y \<in> set xs. f y = Some x)"
  by (induction xs) (auto simp: map_filter_Cons split: option.split)


section \<open>Sums over a system\<close>

text \<open>
  The sum of a measure over all tasks or channels, of which finitely many count: what the
  termination proofs of the composed systems decrease.
\<close>

definition total :: "('t \<Rightarrow> nat) \<Rightarrow> nat" where
  "total f = sum f {t. f t \<noteq> 0}"

definition finitely_many :: "('t \<Rightarrow> nat) \<Rightarrow> bool" where
  "finitely_many f \<longleftrightarrow> finite {t. f t \<noteq> 0}"

lemma finitely_many_upd [simp]: "finitely_many f \<Longrightarrow> finitely_many (f(t := n))"
  unfolding finitely_many_def by (rule finite_subset [of _ "insert t {t. f t \<noteq> 0}"]) auto

lemma total_upd:
  assumes "finitely_many f"
  shows "total (f(t := n)) + f t = total f + n"
proof -
  let ?D = "{u. f u \<noteq> 0}"
  have fin: "finite ?D" using assms by (simp add: finitely_many_def)
  have f: "total g = sum g (insert t ?D)" if "\<And>u. u \<noteq> t \<Longrightarrow> g u = f u" for g
    unfolding total_def using fin that by (intro sum.mono_neutral_left) auto
  have "total g = g t + sum f (?D - {t})" if "\<And>u. u \<noteq> t \<Longrightarrow> g u = f u" for g
    using f [OF that] fin that by (simp add: sum.insert_remove)
  from this [of f] this [of "f(t := n)"] show ?thesis by simp
qed

lemma total_mono_upd: "finitely_many f \<Longrightarrow> n \<le> f t \<Longrightarrow> total (f(t := n)) \<le> total f"
  using total_upd [of f t n] by simp

lemma total_less_upd: "finitely_many f \<Longrightarrow> n < f t \<Longrightarrow> total (f(t := n)) < total f"
  using total_upd [of f t n] by simp

end
