(* ===== verification/Messages.thy ===== *)
theory Messages
  imports Prelude "HOL-Library.Char_ord" "HOL-Library.List_Lexorder"
begin

text \<open>
  The vocabulary of the crate: the three string identifiers of \<open>src/destinations.rs\<close> (made by
  the macro of \<open>src/macros/mod.rs\<close>), the messages, the error type of \<open>src/error/mod.rs\<close> and
  the four traits \<open>Subscriber\<close>, \<open>Sender\<close>, \<open>Destination\<close> and \<open>Destinations\<close>.

  A trait is a record of its methods, so a function that is generic in Rust takes the record as
  an argument, as the compiler passes the implementation of the trait. \<open>'p\<close> is the type of
  the subscriber pointer, \<open>'k\<close> that of the sender pointer, \<open>'c\<close> the client metadata and
  \<open>'w\<close> the world the methods act on.
\<close>

section \<open>Identifiers\<close>

datatype SubscriptionId = SubscriptionId (sub_id_str: string)
datatype DestinationId = DestinationId (dest_id_str: string)
datatype MessageId = MessageId (msg_id_str: string)

text \<open>
  Identifiers are ordered by their text, so that the library's sorting gives a canonical
  iteration order to instantiate \<open>hash_order\<close> with.
\<close>

instantiation SubscriptionId :: linorder
begin

definition less_eq_SubscriptionId :: "SubscriptionId \<Rightarrow> SubscriptionId \<Rightarrow> bool" where
  "less_eq_SubscriptionId a b \<longleftrightarrow> sub_id_str a \<le> sub_id_str b"

definition less_SubscriptionId :: "SubscriptionId \<Rightarrow> SubscriptionId \<Rightarrow> bool" where
  "less_SubscriptionId a b \<longleftrightarrow> sub_id_str a < sub_id_str b"

instance
  by standard (auto simp: less_eq_SubscriptionId_def less_SubscriptionId_def
      intro: SubscriptionId.expand)

end

definition key_order :: "(SubscriptionId, 'v) hash_map \<Rightarrow> (SubscriptionId, 'v) hash_map" where
  "key_order m = sort_key fst m"

lemma hash_order_key_order: "hash_order key_order"
  by (simp add: hash_order_def key_order_def)


section \<open>Messages and errors\<close>

type_synonym bytes = "8 word list"

text \<open>\<open>str::as_bytes\<close>, for an ASCII text.\<close>

definition as_bytes :: "string \<Rightarrow> bytes" where
  "as_bytes s = map of_char s"

record InboundMessage =
  sender_message_id :: "MessageId option"
  in_body :: bytes

record OutboundMessage =
  out_destination :: DestinationId
  out_message_id :: MessageId
  out_body :: bytes

record StomperError =
  message :: string

definition StomperError_new :: "string \<Rightarrow> StomperError" where
  "StomperError_new msg = \<lparr>message = msg\<rparr>"

lemma message_StomperError_new [simp]: "message (StomperError_new msg) = msg"
  by (simp add: StomperError_new_def)

text \<open>
  \<open>From<StompParseError>\<close>: the parser's error type is not part of the repository; the code
  reads its \<open>message()\<close> only, which is the argument here.
\<close>

definition StomperError_from_parse_error :: "string \<Rightarrow> StomperError" where
  "StomperError_from_parse_error parse_message = \<lparr>message = parse_message\<rparr>"

text \<open>\<open>From<SinkError>\<close>: the argument is the \<open>Debug\<close> text of the sink's error.\<close>

definition StomperError_from_sink_error :: "string \<Rightarrow> StomperError" where
  "StomperError_from_sink_error debug_text =
     \<lparr>message = ''Error sending to Sink: '' @ debug_text\<rparr>"

definition StomperError_display :: "StomperError \<Rightarrow> string" where
  "StomperError_display e = message e"


text \<open>
  \<open>From<Infallible>\<close>: an \<open>Infallible\<close> has no value, so the conversion, here without its argument,
  is never called.
\<close>

definition StomperError_from_infallible :: StomperError where
  "StomperError_from_infallible = \<lparr>message = ''Should have been Infallible!''\<rparr>"

text \<open>
  \<open>ErrorWrapper\<close> and \<open>UnknownCommandError\<close>, which the library declares and does not use. A boxed
  error is a value of any type \<open>'e\<close>; its derived \<open>Debug\<close> text, and that of a string, are arguments.
\<close>

record 'e ErrorWrapper =
  boxed_error :: 'e

definition ErrorWrapper_new :: "'e \<Rightarrow> 'e ErrorWrapper" where
  "ErrorWrapper_new err = \<lparr>boxed_error = err\<rparr>"

definition ErrorWrapper_from :: "'e \<Rightarrow> 'e ErrorWrapper" where
  "ErrorWrapper_from err = ErrorWrapper_new err"

definition ErrorWrapper_display :: "('e \<Rightarrow> string) \<Rightarrow> 'e ErrorWrapper \<Rightarrow> string" where
  "ErrorWrapper_display debug self = debug (boxed_error self) @ '',''"

record UnknownCommandError =
  unknown_text :: string

definition UnknownCommandError_display :: "(string \<Rightarrow> string) \<Rightarrow> UnknownCommandError \<Rightarrow> string" where
  "UnknownCommandError_display debug_str self = ''Unknown command '' @ debug_str (unknown_text self)"


section \<open>Traits\<close>

record ('p, 'w) Subscriber =
  subscribe_callback ::
    "'p \<Rightarrow> DestinationId \<Rightarrow> SubscriptionId option \<Rightarrow> StomperError + SubscriptionId \<Rightarrow> ('w, unit) io"
  unsubscribe_callback ::
    "'p \<Rightarrow> SubscriptionId option \<Rightarrow> StomperError + SubscriptionId \<Rightarrow> ('w, unit) io"
  subscriber_send ::
    "'p \<Rightarrow> SubscriptionId \<Rightarrow> SubscriptionId option \<Rightarrow> OutboundMessage \<Rightarrow>
      ('w, StomperError + unit) io"

record ('k, 'w) Sender =
  send_callback :: "'k \<Rightarrow> MessageId option \<Rightarrow> StomperError + MessageId \<Rightarrow> ('w, unit) io"

record ('d, 'p, 'k, 'c, 'w) Destination =
  destination_subscribe :: "'d \<Rightarrow> SubscriptionId option \<Rightarrow> 'p \<Rightarrow> 'c \<Rightarrow> ('w, unit) io"
  destination_unsubscribe :: "'d \<Rightarrow> SubscriptionId \<Rightarrow> 'p \<Rightarrow> 'c \<Rightarrow> ('w, unit) io"
  destination_send :: "'d \<Rightarrow> InboundMessage \<Rightarrow> 'k \<Rightarrow> 'c \<Rightarrow> ('w, unit) io"
  destination_close :: "'d \<Rightarrow> ('w, unit) io"

record ('ds, 'p, 'k, 'c, 'w) Destinations =
  destinations_subscribe ::
    "'ds \<Rightarrow> DestinationId \<Rightarrow> SubscriptionId option \<Rightarrow> 'p \<Rightarrow> 'c \<Rightarrow> ('w, unit) io"
  destinations_unsubscribe ::
    "'ds \<Rightarrow> DestinationId \<Rightarrow> SubscriptionId \<Rightarrow> 'p \<Rightarrow> 'c \<Rightarrow> ('w, unit) io"
  destinations_send ::
    "'ds \<Rightarrow> DestinationId \<Rightarrow> InboundMessage \<Rightarrow> 'k \<Rightarrow> 'c \<Rightarrow> ('w, unit) io"


section \<open>The contract of a subscriber\<close>

text \<open>
  What a destination relies on. A subscriber has an inbox of notices and is live or not; no
  call changes who is live. A call on a subscription that carries the subscriber's own
  identifier (\<open>Some c\<close>) appends one notice to the inbox of a live subscriber, and leaves a dead
  one alone: \<open>send\<close> then reports an error, the callbacks drop the notice.
\<close>

datatype notice =
    Notice_Subscribed DestinationId SubscriptionId "StomperError + SubscriptionId"
  | Notice_Unsubscribed SubscriptionId "StomperError + SubscriptionId"
  | Notice_Message SubscriptionId OutboundMessage

locale subscriber_contract =
  fixes S :: "('p, 'w) Subscriber"
    and live :: "'p \<Rightarrow> 'w \<Rightarrow> bool"
    and inbox :: "'p \<Rightarrow> 'w \<Rightarrow> notice list"
  assumes subscribe_returns: "fst (subscribe_callback S p d (Some c) r w) = Ret ()"
    and subscribe_inbox: "inbox q (snd (subscribe_callback S p d (Some c) r w)) =
      inbox q w @ (if q = p \<and> live p w then [Notice_Subscribed d c r] else [])"
    and subscribe_live: "live q (snd (subscribe_callback S p d (Some c) r w)) = live q w"
    and unsubscribe_returns: "fst (unsubscribe_callback S p (Some c) r w) = Ret ()"
    and unsubscribe_inbox: "inbox q (snd (unsubscribe_callback S p (Some c) r w)) =
      inbox q w @ (if q = p \<and> live p w then [Notice_Unsubscribed c r] else [])"
    and unsubscribe_live: "live q (snd (unsubscribe_callback S p (Some c) r w)) = live q w"
    and send_returns: "\<exists>r. fst (subscriber_send S p i (Some c) m w) = Ret r \<and> is_ok r = live p w"
    and send_inbox: "inbox q (snd (subscriber_send S p i (Some c) m w)) =
      inbox q w @ (if q = p \<and> live p w then [Notice_Message c m] else [])"
    and send_live: "live q (snd (subscriber_send S p i (Some c) m w)) = live q w"
begin

lemmas contract_simps =
  subscribe_returns subscribe_inbox subscribe_live unsubscribe_returns unsubscribe_inbox
  unsubscribe_live send_inbox send_live

text \<open>The two callbacks, and \<open>send\<close>, inside a longer computation.\<close>

lemma bind_subscribe_callback:
  "bind_io (subscribe_callback S p d (Some c) r) f w =
     f () (snd (subscribe_callback S p d (Some c) r w))"
  by (cases "subscribe_callback S p d (Some c) r w")
    (use subscribe_returns [of p d c r w] in \<open>simp add: bind_io_def\<close>)

lemma bind_unsubscribe_callback:
  "bind_io (unsubscribe_callback S p (Some c) r) f w =
     f () (snd (unsubscribe_callback S p (Some c) r w))"
  by (cases "unsubscribe_callback S p (Some c) r w")
    (use unsubscribe_returns [of p c r w] in \<open>simp add: bind_io_def\<close>)

lemma send_cases:
  obtains r w' where "subscriber_send S p i (Some c) m w = (Ret r, w')" "is_ok r = live p w"
    "\<And>q. inbox q w' = inbox q w @ (if q = p \<and> live p w then [Notice_Message c m] else [])"
    "\<And>q. live q w' = live q w"
proof -
  obtain r where "fst (subscriber_send S p i (Some c) m w) = Ret r" "is_ok r = live p w"
    using send_returns by blast
  then show thesis
    by (intro that [of r "snd (subscriber_send S p i (Some c) m w)"])
      (auto simp: contract_simps intro: prod_eqI)
qed

end

end
