(* ===== verification/Channels.thy ===== *)
theory Channels
  imports Prelude
begin

text \<open>
  The crate's tasks talk over \<open>tokio::sync::mpsc::unbounded_channel\<close>. The channel is not part
  of the repository, so its sending operation is an argument of every definition that sends,
  and what the code relies on is the locale \<open>unbounded_sender\<close>: a channel has a queue and
  its receiver is open or closed; \<open>send\<close> on an open channel appends to the queue and
  returns \<open>Ok(())\<close>; on a closed one it changes nothing and hands the value back
  (\<open>Err(SendError(v))\<close>); it neither opens nor closes a channel, nor touches another one.
\<close>

type_synonym ('tx, 'a, 'w) channel_send = "'tx \<Rightarrow> 'a \<Rightarrow> ('w, 'a + unit) io"

locale unbounded_sender =
  fixes tx_send :: "('tx, 'a, 'w) channel_send"
    and rx_open :: "'tx \<Rightarrow> 'w \<Rightarrow> bool"
    and rx_queue :: "'tx \<Rightarrow> 'w \<Rightarrow> 'a list"
  assumes send_open: "rx_open t w \<Longrightarrow> fst (tx_send t v w) = Ret (Inr ())"
    and send_closed: "\<not> rx_open t w \<Longrightarrow> tx_send t v w = (Ret (Inl v), w)"
    and queue_send: "rx_queue u (snd (tx_send t v w)) =
      rx_queue u w @ (if u = t \<and> rx_open t w then [v] else [])"
    and open_send: "rx_open u (snd (tx_send t v w)) = rx_open u w"
begin

text \<open>The result of a send decides on the state before it, and nothing else.\<close>

lemma send_result: "fst (tx_send t v w) = Ret (if rx_open t w then Inr () else Inl v)"
  by (simp add: send_open send_closed)

lemma send_cases:
  obtains (sent) w' where "rx_open t w" "tx_send t v w = (Ret (Inr ()), w')"
      "rx_queue t w' = rx_queue t w @ [v]"
  | (closed) "\<not> rx_open t w" "tx_send t v w = (Ret (Inl v), w)"
proof (cases "rx_open t w")
  case True
  then have "tx_send t v w = (Ret (Inr ()), snd (tx_send t v w))"
    by (metis prod.collapse send_open)
  with True show ?thesis
    by (intro sent) (auto simp: queue_send)
next
  case False
  then show ?thesis by (intro closed) (simp_all add: send_closed)
qed

lemma last_after_send:
  "rx_open t (snd (tx_send t v w)) \<Longrightarrow> rx_queue t (snd (tx_send t v w)) = rx_queue t w @ [v]"
  by (simp add: queue_send open_send)

lemma bind_send:
  "bind_io (tx_send t v) f w =
     f (if rx_open t w then Inr () else Inl v) (snd (tx_send t v w))"
  by (cases "tx_send t v w") (use send_result [of t v w] in \<open>simp add: bind_io_def\<close>)

end

end
