(* ===== verification/Clients.thy ===== *)
theory Clients
  imports Messages
begin

text \<open>
  \<open>src/client.rs\<close>: the metadata of a connected client and the factory that creates it from the
  credentials of the CONNECT frame. A factory yields a future; the model gives the result the
  future resolves to, and the world it leaves.
\<close>

definition DEFAULT_SERVER :: "string \<Rightarrow> string \<Rightarrow> string" where
  "DEFAULT_SERVER pkg_name pkg_version = pkg_name @ ''/'' @ pkg_version"

text \<open>
  The trait \<open>Client\<close>; its default methods are the fields of \<open>default_client_methods\<close>. The
  package's name and version come from Cargo's environment.
\<close>

record 'c Client =
  client_server :: "'c \<Rightarrow> string option"
  client_session :: "'c \<Rightarrow> string option"

definition default_client_methods :: "string \<Rightarrow> string \<Rightarrow> 'c Client" where
  "default_client_methods pkg_name pkg_version =
     \<lparr>client_server = (\<lambda>_. Some (DEFAULT_SERVER pkg_name pkg_version)),
      client_session = (\<lambda>_. None)\<rparr>"

text \<open>The trait \<open>ClientFactory\<close>: it consumes the login and the passcode.\<close>

record ('f, 'c, 'w) ClientFactory =
  factory_create :: "'f \<Rightarrow> string option \<Rightarrow> string option \<Rightarrow> ('w, StomperError + 'c) io"

text \<open>Any function of the right signature is a factory (the blanket implementation).\<close>

definition closure_factory ::
  "(string option \<Rightarrow> string option \<Rightarrow> ('w, StomperError + 'c) io, 'c, 'w) ClientFactory" where
  "closure_factory = \<lparr>factory_create = (\<lambda>f login passcode. f login passcode)\<rparr>"

datatype DefaultClient = DefaultClient

datatype DefaultClientFactory = DefaultClientFactory

definition default_client_factory :: "(DefaultClientFactory, DefaultClient, 'w) ClientFactory" where
  "default_client_factory =
     \<lparr>factory_create = (\<lambda>_ login passcode. ret_io (Inr DefaultClient))\<rparr>"

lemma default_client_simps [simp]:
  "client_server (default_client_methods n v) c = Some (n @ ''/'' @ v)"
  "client_session (default_client_methods n v) c = None"
  by (simp_all add: default_client_methods_def DEFAULT_SERVER_def)

lemma default_factory_create [simp]:
  "factory_create default_client_factory f login passcode = ret_io (Inr DefaultClient)"
  by (simp add: default_client_factory_def)

end
