(* ===== verification/Inmemory.thy ===== *)
theory Inmemory
  imports Messages Channels Clients
begin

text \<open>
  \<open>src/asynchronous/inmemory.rs\<close>: a destination is a handle (\<open>InMemDestination\<close>) with the
  sending end of a channel, and a backend task (\<open>InMemDestinationBackend\<close>) that receives
  actions from it and keeps the subscriptions.

  A boxed closure of the source captures the subscriber or sender and nothing else, so it is a
  constructor around the captured value, and calling it is a \<open>call_\<close> function. The UUID that a
  handler draws from \<open>Uuid::new_v4()\<close> is an argument, as is the iteration order of the
  \<open>HashMap\<close>.
\<close>

section \<open>Closures and actions\<close>

datatype 'p SubscribeCallback = SubscribeCallback 'p
datatype 'p UnsubscribeCallback = UnsubscribeCallback 'p
datatype 'p SendFn = SendFn 'p
datatype 'k SendCallback = SendCallback 'k

definition to_subscribe_callback :: "'p \<Rightarrow> 'p SubscribeCallback" where
  "to_subscribe_callback subscriber = SubscribeCallback subscriber"

definition to_send_fn :: "'p \<Rightarrow> 'p SendFn" where
  "to_send_fn subscriber = SendFn subscriber"

definition to_unsubscribe_callback :: "'p \<Rightarrow> 'p UnsubscribeCallback" where
  "to_unsubscribe_callback subscriber = UnsubscribeCallback subscriber"

definition to_send_callback :: "'k \<Rightarrow> 'k SendCallback" where
  "to_send_callback sender = SendCallback sender"

fun call_subscribe_callback ::
  "('p, 'w) Subscriber \<Rightarrow> 'p SubscribeCallback \<Rightarrow> DestinationId \<Rightarrow> SubscriptionId option \<Rightarrow>
    StomperError + SubscriptionId \<Rightarrow> ('w, unit) io" where
  "call_subscribe_callback S (SubscribeCallback subscriber) x y z =
     subscribe_callback S subscriber x y z"

fun call_send_fn ::
  "('p, 'w) Subscriber \<Rightarrow> 'p SendFn \<Rightarrow> SubscriptionId \<Rightarrow> SubscriptionId option \<Rightarrow>
    OutboundMessage \<Rightarrow> ('w, StomperError + unit) io" where
  "call_send_fn S (SendFn subscriber) x y z = subscriber_send S subscriber x y z"

fun call_unsubscribe_callback ::
  "('p, 'w) Subscriber \<Rightarrow> 'p UnsubscribeCallback \<Rightarrow> SubscriptionId option \<Rightarrow>
    StomperError + SubscriptionId \<Rightarrow> ('w, unit) io" where
  "call_unsubscribe_callback S (UnsubscribeCallback subscriber) x y =
     unsubscribe_callback S subscriber x y"

fun call_send_callback ::
  "('k, 'w) Sender \<Rightarrow> 'k SendCallback \<Rightarrow> MessageId option \<Rightarrow> StomperError + MessageId \<Rightarrow>
    ('w, unit) io" where
  "call_send_callback K (SendCallback sender) x y = send_callback K sender x y"

datatype ('p, 'k) DestinationAction =
    ActSubscribe "SubscriptionId option" "'p SubscribeCallback" "'p SendFn"
  | ActUnsubscribe SubscriptionId "'p UnsubscribeCallback"
  | ActSend InboundMessage "'k SendCallback"
  | ActClose

record 'p Subscription =
  subscription_id :: SubscriptionId
  subscriber_sub_id :: "SubscriptionId option"
  send_fn :: "'p SendFn"

definition subscription_send ::
  "('p, 'w) Subscriber \<Rightarrow> 'p Subscription \<Rightarrow> OutboundMessage \<Rightarrow> ('w, StomperError + unit) io" where
  "subscription_send S self msg =
     call_send_fn S (send_fn self) (subscription_id self) (subscriber_sub_id self) msg"


section \<open>The handle\<close>

record 'tx InMemDestination =
  imd_id :: DestinationId
  imd_sender :: 'tx

definition perform_action ::
  "('tx, ('p, 'k) DestinationAction, 'w) channel_send \<Rightarrow> 'tx InMemDestination \<Rightarrow>
    ('p, 'k) DestinationAction \<Rightarrow> ('w, ('p, 'k) DestinationAction + unit) io" where
  "perform_action tx_send self action = tx_send (imd_sender self) action"

definition imd_subscribe ::
  "('tx, ('p, 'k) DestinationAction, 'w) channel_send \<Rightarrow> ('p, 'w) Subscriber \<Rightarrow>
    'tx InMemDestination \<Rightarrow> SubscriptionId option \<Rightarrow> 'p \<Rightarrow> 'c \<Rightarrow> ('w, unit) io" where
  "imd_subscribe tx_send S self sender_subscription_id subscriber _ =
     bind_io
       (perform_action tx_send self
         (ActSubscribe sender_subscription_id (to_subscribe_callback subscriber)
           (to_send_fn subscriber)))
       (\<lambda>r. case r of
          Inl (ActSubscribe sender_subscription_id subscribe_cb _) \<Rightarrow>
            call_subscribe_callback S subscribe_cb (imd_id self) sender_subscription_id
              (Inl (StomperError_new ''Subscribe failed''))
        | _ \<Rightarrow> ret_io ())"

definition imd_send ::
  "('tx, ('p, 'k) DestinationAction, 'w) channel_send \<Rightarrow> ('k, 'w) Sender \<Rightarrow>
    'tx InMemDestination \<Rightarrow> InboundMessage \<Rightarrow> 'k \<Rightarrow> 'c \<Rightarrow> ('w, unit) io" where
  "imd_send tx_send K self msg sender _ =
     bind_io (perform_action tx_send self (ActSend msg (to_send_callback sender)))
       (\<lambda>r. case r of
          Inl (ActSend msg send_cb) \<Rightarrow>
            call_send_callback K send_cb (sender_message_id msg)
              (Inl (StomperError_new ''Send failed''))
        | _ \<Rightarrow> ret_io ())"

definition imd_unsubscribe ::
  "('tx, ('p, 'k) DestinationAction, 'w) channel_send \<Rightarrow> ('p, 'w) Subscriber \<Rightarrow>
    'tx InMemDestination \<Rightarrow> SubscriptionId \<Rightarrow> 'p \<Rightarrow> 'c \<Rightarrow> ('w, unit) io" where
  "imd_unsubscribe tx_send S self sub_id subscriber _ =
     bind_io
       (perform_action tx_send self
         (ActUnsubscribe sub_id (to_unsubscribe_callback subscriber)))
       (\<lambda>r. case r of
          Inl (ActUnsubscribe _ unsubscribe_cb) \<Rightarrow>
            call_unsubscribe_callback S unsubscribe_cb None
              (Inl (StomperError_new ''Unsubscribe failed''))
        | _ \<Rightarrow> ret_io ())"

text \<open>A failing \<open>close\<close> is logged only.\<close>

definition imd_close ::
  "('tx, ('p, 'k) DestinationAction, 'w) channel_send \<Rightarrow> 'tx InMemDestination \<Rightarrow> ('w, unit) io" where
  "imd_close tx_send self = bind_io (perform_action tx_send self ActClose) (\<lambda>_. ret_io ())"

text \<open>\<open>impl Destination for InMemDestination\<close>.\<close>

definition in_mem_destination ::
  "('tx, ('p, 'k) DestinationAction, 'w) channel_send \<Rightarrow> ('p, 'w) Subscriber \<Rightarrow> ('k, 'w) Sender \<Rightarrow>
    ('tx InMemDestination, 'p, 'k, 'c, 'w) Destination" where
  "in_mem_destination tx_send S K =
     \<lparr>destination_subscribe = imd_subscribe tx_send S,
      destination_unsubscribe = imd_unsubscribe tx_send S,
      destination_send = imd_send tx_send K,
      destination_close = imd_close tx_send\<rparr>"

end
