(* ===== verification/Backend.thy ===== *)
theory Backend
  imports Inmemory
begin

text \<open>
  The backend task of a destination (\<open>InMemDestinationBackend\<close> in
  \<open>src/asynchronous/inmemory.rs\<close>): its handlers, its receive loop, their behaviour for any
  subscriber that keeps \<open>subscriber_contract\<close>, and their refinement to an abstract topic.
\<close>

section \<open>The task\<close>

record 'p InMemDestinationBackend =
  backend_id :: DestinationId
  subscriptions :: "(SubscriptionId, 'p Subscription) hash_map"

text \<open>The state \<open>start\<close> hands to the spawned task; \<open>create\<close> makes the channel and the handle.\<close>

definition backend_start :: "DestinationId \<Rightarrow> 'p InMemDestinationBackend" where
  "backend_start dest_id = \<lparr>backend_id = dest_id, subscriptions = []\<rparr>"

definition imd_create ::
  "('w, 'tx \<times> 'rx) io \<Rightarrow> ('p InMemDestinationBackend \<Rightarrow> 'rx \<Rightarrow> ('w, unit) io) \<Rightarrow> DestinationId \<Rightarrow>
    ('w, 'tx InMemDestination) io" where
  "imd_create unbounded_channel spawn_listen_on destination_id =
     bind_io unbounded_channel (\<lambda>(sender, receiver).
       then_io (spawn_listen_on (backend_start destination_id) receiver)
         (ret_io \<lparr>imd_id = destination_id, imd_sender = sender\<rparr>))"

definition add_subscription ::
  "('p, 'w) Subscriber \<Rightarrow> string \<Rightarrow> 'p InMemDestinationBackend \<Rightarrow> SubscriptionId option \<Rightarrow>
    'p SubscribeCallback \<Rightarrow> 'p SendFn \<Rightarrow> ('w, 'p InMemDestinationBackend) io" where
  "add_subscription S new_v4 self sub_id subscriber fn =
     (let uid = SubscriptionId new_v4;
          self' = self\<lparr>subscriptions := AList.update uid
            \<lparr>subscription_id = uid, subscriber_sub_id = sub_id, send_fn = fn\<rparr>
            (subscriptions self)\<rparr>
      in case map_of (subscriptions self') uid of
           Some subscription \<Rightarrow>
             then_io (call_subscribe_callback S subscriber (backend_id self')
                 (subscriber_sub_id subscription) (Inr uid))
               (ret_io self')
         | None \<Rightarrow> ret_io self')"

definition remove_subscription ::
  "('p, 'w) Subscriber \<Rightarrow> 'p InMemDestinationBackend \<Rightarrow> SubscriptionId \<Rightarrow>
    'p UnsubscribeCallback \<Rightarrow> ('w, 'p InMemDestinationBackend) io" where
  "remove_subscription S self sub_id unsub_callback =
     (let subscription = map_of (subscriptions self) sub_id;
          self' = self\<lparr>subscriptions := AList.delete sub_id (subscriptions self)\<rparr>
      in then_io (call_unsubscribe_callback S unsub_callback
             (Option.bind subscription subscriber_sub_id) (Inr sub_id))
           (ret_io self'))"

text \<open>The delivery loop of \<open>send\<close>: it collects the subscriptions whose \<open>send\<close> fails.\<close>

fun deliver ::
  "('p, 'w) Subscriber \<Rightarrow> OutboundMessage \<Rightarrow> 'p Subscription list \<Rightarrow> SubscriptionId list \<Rightarrow>
    ('w, SubscriptionId list) io" where
  "deliver S out_message [] dead_subscriptions = ret_io dead_subscriptions"
| "deliver S out_message (subscription # rest) dead_subscriptions =
     bind_io (subscription_send S subscription out_message)
       (\<lambda>r. deliver S out_message rest
         (if is_err r then dead_subscriptions @ [subscription_id subscription]
          else dead_subscriptions))"

definition backend_send ::
  "('p, 'w) Subscriber \<Rightarrow> ('k, 'w) Sender \<Rightarrow>
    ((SubscriptionId \<times> 'p Subscription) list \<Rightarrow> (SubscriptionId \<times> 'p Subscription) list) \<Rightarrow>
    string \<Rightarrow> 'p InMemDestinationBackend \<Rightarrow> InboundMessage \<Rightarrow> 'k SendCallback \<Rightarrow>
    ('w, 'p InMemDestinationBackend) io" where
  "backend_send S K iter new_v4 self msg send_cb =
     (let message_id = MessageId new_v4;
          out_message = \<lparr>out_destination = backend_id self, out_message_id = message_id,
            out_body = in_body msg\<rparr>
      in bind_io (deliver S out_message (map snd (iter (subscriptions self))) [])
           (\<lambda>dead_subscriptions.
             then_io (call_send_callback K send_cb (sender_message_id msg) (Inr message_id))
               (ret_io (self\<lparr>subscriptions :=
                 remove_keys dead_subscriptions (subscriptions self)\<rparr>))))"

text \<open>
  The loop of \<open>listen_on\<close>. The argument is the sequence of actions that \<open>recv\<close> yields, each
  with the UUID its handler would draw; the list ends when \<open>recv\<close> yields \<open>None\<close>. After
  the loop the receiver is closed.
\<close>

datatype 'b flow = Continue 'b | Break 'b

fun handle_action ::
  "('p, 'w) Subscriber \<Rightarrow> ('k, 'w) Sender \<Rightarrow>
    ((SubscriptionId \<times> 'p Subscription) list \<Rightarrow> (SubscriptionId \<times> 'p Subscription) list) \<Rightarrow>
    string \<Rightarrow> 'p InMemDestinationBackend \<Rightarrow> ('p, 'k) DestinationAction \<Rightarrow>
    ('w, 'p InMemDestinationBackend flow) io" where
  "handle_action S K iter new_v4 self (ActSubscribe sub_id subscribe_cb fn) =
     bind_io (add_subscription S new_v4 self sub_id subscribe_cb fn) (\<lambda>self. ret_io (Continue self))"
| "handle_action S K iter new_v4 self (ActUnsubscribe sub_id unsubscribe_cb) =
     bind_io (remove_subscription S self sub_id unsubscribe_cb) (\<lambda>self. ret_io (Continue self))"
| "handle_action S K iter new_v4 self (ActSend msg send_cb) =
     bind_io (backend_send S K iter new_v4 self msg send_cb) (\<lambda>self. ret_io (Continue self))"
| "handle_action S K iter new_v4 self ActClose = ret_io (Break self)"

fun listen_on ::
  "('p, 'w) Subscriber \<Rightarrow> ('k, 'w) Sender \<Rightarrow>
    ((SubscriptionId \<times> 'p Subscription) list \<Rightarrow> (SubscriptionId \<times> 'p Subscription) list) \<Rightarrow>
    ('w, unit) io \<Rightarrow> 'p InMemDestinationBackend \<Rightarrow> (string \<times> ('p, 'k) DestinationAction) list \<Rightarrow>
    ('w, 'p InMemDestinationBackend) io" where
  "listen_on S K iter receiver_close self [] = then_io receiver_close (ret_io self)"
| "listen_on S K iter receiver_close self ((new_v4, action) # received) =
     bind_io (handle_action S K iter new_v4 self action)
       (\<lambda>next_state. case next_state of
          Continue self \<Rightarrow> listen_on S K iter receiver_close self received
        | Break self \<Rightarrow> then_io receiver_close (ret_io self))"


section \<open>Invariant\<close>

text \<open>
  \<open>backend_wf\<close>: the map has one entry per key, and each subscription carries its key as its
  id. \<open>client_ids\<close>: every subscription came with the subscriber's own identifier, as STOMP
  demands.
\<close>

definition backend_wf :: "'p InMemDestinationBackend \<Rightarrow> bool" where
  "backend_wf self \<longleftrightarrow> distinct_keys (subscriptions self) \<and>
     (\<forall>(k, s) \<in> set (subscriptions self). subscription_id s = k)"

definition client_ids :: "'p InMemDestinationBackend \<Rightarrow> bool" where
  "client_ids self \<longleftrightarrow> (\<forall>s \<in> snd ` set (subscriptions self). subscriber_sub_id s \<noteq> None)"

lemma backend_wf_start [simp]: "backend_wf (backend_start d)" "client_ids (backend_start d)"
  by (simp_all add: backend_wf_def client_ids_def backend_start_def)

lemma set_update_subset: "set (AList.update k v m) \<subseteq> insert (k, v) (set m)"
  by (induction m) auto

lemma backend_wf_update:
  "backend_wf self \<Longrightarrow> subscription_id s = k \<Longrightarrow>
   backend_wf (self\<lparr>subscriptions := AList.update k s (subscriptions self)\<rparr>)"
  using set_update_subset [of k s "subscriptions self"] by (auto simp: backend_wf_def)

lemma client_ids_update:
  "client_ids self \<Longrightarrow> subscriber_sub_id s \<noteq> None \<Longrightarrow>
   client_ids (self\<lparr>subscriptions := AList.update k s (subscriptions self)\<rparr>)"
  using set_update_subset [of k s "subscriptions self"] by (fastforce simp: client_ids_def)

lemma backend_wf_filter:
  "backend_wf self \<Longrightarrow> backend_wf (self\<lparr>subscriptions := filter P (subscriptions self)\<rparr>)"
  by (auto simp: backend_wf_def)

lemma client_ids_filter:
  "client_ids self \<Longrightarrow> client_ids (self\<lparr>subscriptions := filter P (subscriptions self)\<rparr>)"
  by (auto simp: client_ids_def)

lemmas backend_wf_intros =
  backend_wf_update backend_wf_filter client_ids_update client_ids_filter

text \<open>Whatever the subscribers do: a handler that returns leaves a well-formed backend.\<close>

lemma add_subscription_state:
  assumes "add_subscription S u self i cb fn w = (Ret self', w')"
  shows "self' = self\<lparr>subscriptions := AList.update (SubscriptionId u)
    \<lparr>subscription_id = SubscriptionId u, subscriber_sub_id = i, send_fn = fn\<rparr> (subscriptions self)\<rparr>"
  using assms
  by (auto simp: add_subscription_def Let_def map_of_eq_Some_iff update_conv' then_io_def
      bind_io_eq_Ret_iff)

lemma remove_subscription_state:
  assumes "remove_subscription S self i cb w = (Ret self', w')"
  shows "self' = self\<lparr>subscriptions := AList.delete i (subscriptions self)\<rparr>"
  using assms by (auto simp: remove_subscription_def Let_def then_io_def bind_io_eq_Ret_iff)

lemma backend_send_state:
  assumes "backend_send S K iter u self msg cb w = (Ret self', w')"
  obtains dead where "self' = self\<lparr>subscriptions := remove_keys dead (subscriptions self)\<rparr>"
  using assms by (auto simp: backend_send_def Let_def then_io_def bind_io_eq_Ret_iff)

lemma handle_action_wf:
  assumes "handle_action S K iter u self a w = (Ret r, w')" "backend_wf self"
  shows "(case r of Continue self' \<Rightarrow> backend_wf self' \<and> backend_id self' = backend_id self
          | Break self' \<Rightarrow> self' = self)"
proof (cases a)
  case (ActSubscribe i cb fn)
  with assms show ?thesis
    by (auto simp: bind_io_eq_Ret_iff dest!: add_subscription_state intro!: backend_wf_intros)
next
  case (ActUnsubscribe i cb)
  with assms show ?thesis
    by (auto simp: bind_io_eq_Ret_iff delete_eq_filter dest!: remove_subscription_state
        intro!: backend_wf_intros)
next
  case (ActSend m cb)
  with assms show ?thesis
    by (auto simp: bind_io_eq_Ret_iff remove_keys_eq_filter elim!: backend_send_state
        intro!: backend_wf_intros)
next
  case ActClose
  with assms show ?thesis by auto
qed


section \<open>Delivery to subscribers that keep the contract\<close>

definition subscriber_of :: "'p Subscription \<Rightarrow> 'p" where
  "subscriber_of s = (case send_fn s of SendFn p \<Rightarrow> p)"

lemma subscriber_of_simps [simp]:
  "send_fn s = SendFn p \<Longrightarrow> subscriber_of s = p"
  "subscriber_of \<lparr>subscription_id = i, subscriber_sub_id = c, send_fn = to_send_fn p\<rparr> = p"
  by (simp_all add: subscriber_of_def to_send_fn_def)

lemma subscription_send_eq:
  "subscription_send S s m =
     subscriber_send S (subscriber_of s) (subscription_id s) (subscriber_sub_id s) m"
  by (cases "send_fn s") (simp add: subscription_send_def)

text \<open>The notices a delivery to the subscriptions \<open>ss\<close> leaves with the subscriber \<open>q\<close>.\<close>

definition delivered :: "OutboundMessage \<Rightarrow> 'p \<Rightarrow> 'p Subscription list \<Rightarrow> notice list" where
  "delivered m q ss =
     map (\<lambda>s. Notice_Message (the (subscriber_sub_id s)) m) (filter (\<lambda>s. subscriber_of s = q) ss)"

lemma delivered_simps [simp]:
  "delivered m q [] = []"
  "delivered m q (s # ss) =
     (if subscriber_of s = q then [Notice_Message (the (subscriber_sub_id s)) m] else []) @
     delivered m q ss"
  by (simp_all add: delivered_def)

lemma delivered_append [simp]: "delivered m q (ss @ ts) = delivered m q ss @ delivered m q ts"
  by (simp add: delivered_def)

text \<open>
  The contract of the two pointers a backend works with: the subscriber's, and a sender whose
  callback returns and disturbs no subscriber.
\<close>

locale messaging_contract = subscriber_contract S live inbox
  for S :: "('p, 'w) Subscriber" and live :: "'p \<Rightarrow> 'w \<Rightarrow> bool" and inbox :: "'p \<Rightarrow> 'w \<Rightarrow> notice list" +
  fixes K :: "('k, 'w) Sender"
  assumes callback_returns: "fst (send_callback K k i r w) = Ret ()"
    and callback_inbox: "inbox q (snd (send_callback K k i r w)) = inbox q w"
    and callback_live: "live q (snd (send_callback K k i r w)) = live q w"
begin

lemma call_send_callback_cases:
  obtains w' where "call_send_callback K cb i r w = (Ret (), w')"
    "\<And>q. inbox q w' = inbox q w" "\<And>q. live q w' = live q w"
proof -
  obtain k where "cb = SendCallback k" by (cases cb)
  then show thesis
    by (intro that [of "snd (send_callback K k i r w)"])
      (auto simp: callback_returns callback_inbox callback_live intro: prod_eqI)
qed

lemma deliver_spec:
  assumes "\<forall>s \<in> set ss. subscriber_sub_id s \<noteq> None"
  obtains w' where
    "deliver S m ss dead w =
       (Ret (dead @ map subscription_id (filter (\<lambda>s. \<not> live (subscriber_of s) w) ss)), w')"
    "\<And>q. inbox q w' = inbox q w @ (if live q w then delivered m q ss else [])"
    "\<And>q. live q w' = live q w"
  using assms
proof (induction ss arbitrary: dead w thesis)
  case Nil
  show ?case by (rule Nil.prems(1) [of w]) simp_all
next
  case (Cons s ss)
  from Cons.prems(2) obtain c where c: "subscriber_sub_id s = Some c" by auto
  obtain r w1 where s1: "subscriber_send S (subscriber_of s) (subscription_id s) (Some c) m w = (Ret r, w1)"
      "is_ok r = live (subscriber_of s) w"
      "\<And>q. inbox q w1 = inbox q w @
         (if q = subscriber_of s \<and> live (subscriber_of s) w then [Notice_Message c m] else [])"
      "\<And>q. live q w1 = live q w"
    by (rule send_cases [of "subscriber_of s" "subscription_id s" c m w]) (rule that)
  let ?dead = "if is_err r then dead @ [subscription_id s] else dead"
  obtain w2 where s2: "deliver S m ss ?dead w1 =
      (Ret (?dead @ map subscription_id (filter (\<lambda>s. \<not> live (subscriber_of s) w1) ss)), w2)"
      "\<And>q. inbox q w2 = inbox q w1 @ (if live q w1 then delivered m q ss else [])"
      "\<And>q. live q w2 = live q w1"
    by (rule Cons.IH [of ?dead w1]) (use Cons.prems(2) in auto)
  have "deliver S m (s # ss) dead w = deliver S m ss ?dead w1"
    by (simp add: subscription_send_eq c bind_io_def s1(1))
  with s1(2) s2(1) have "deliver S m (s # ss) dead w =
      (Ret (dead @ map subscription_id (filter (\<lambda>s. \<not> live (subscriber_of s) w) (s # ss))), w2)"
    by (cases "live (subscriber_of s) w") (simp_all add: s1(4))
  then show ?case
    by (rule Cons.prems(1)) (auto simp: s1(3,4) s2(2,3) c)
qed

text \<open>
  \<open>send\<close> reaches each live subscriber once per subscription it holds, in the iteration order,
  and drops the subscriptions of the dead ones, and no others.
\<close>

lemma dead_keys:
  assumes "backend_wf self" "hash_order iter" "(k, s) \<in> set (subscriptions self)"
  shows "k \<in> set (map subscription_id (filter (\<lambda>s. \<not> P s) (map snd (iter (subscriptions self)))))
    \<longleftrightarrow> \<not> P s"
proof -
  have dist: "distinct_keys (subscriptions self)"
    and ids: "\<And>k s. (k, s) \<in> set (subscriptions self) \<Longrightarrow> subscription_id s = k"
    using assms(1) by (auto simp: backend_wf_def)
  have unique: "s' = s" if "(k, s') \<in> set (subscriptions self)" for s'
    using that assms(3) dist by (metis map_of_eq_Some_iff option.inject)
  have "k \<in> set (map subscription_id (filter (\<lambda>s. \<not> P s) (map snd (iter (subscriptions self))))) \<longleftrightarrow>
      (\<exists>k' s'. (k', s') \<in> set (subscriptions self) \<and> subscription_id s' = k \<and> \<not> P s')"
    by (force simp: hash_order_set [OF assms(2)] image_iff)
  also have "\<dots> \<longleftrightarrow> (\<exists>s'. (k, s') \<in> set (subscriptions self) \<and> \<not> P s')"
    using ids by blast
  also have "\<dots> \<longleftrightarrow> \<not> P s"
    using unique assms(3) by blast
  finally show ?thesis .
qed

lemma backend_send_spec:
  assumes wf: "backend_wf self" and ids: "client_ids self" and iter: "hash_order iter"
  obtains w' where
    "backend_send S K iter u self msg cb w =
       (Ret (self\<lparr>subscriptions :=
          filter (\<lambda>(k, s). live (subscriber_of s) w) (subscriptions self)\<rparr>), w')"
    "\<And>q. inbox q w' = inbox q w @
       (if live q w
        then delivered \<lparr>out_destination = backend_id self, out_message_id = MessageId u,
               out_body = in_body msg\<rparr> q (map snd (iter (subscriptions self)))
        else [])"
    "\<And>q. live q w' = live q w"
proof -
  let ?m = "\<lparr>out_destination = backend_id self, out_message_id = MessageId u, out_body = in_body msg\<rparr>"
  let ?ss = "map snd (iter (subscriptions self))"
  let ?dead = "map subscription_id (filter (\<lambda>s. \<not> live (subscriber_of s) w) ?ss)"
  have "\<forall>s \<in> set ?ss. subscriber_sub_id s \<noteq> None"
    using ids by (auto simp: client_ids_def hash_order_set [OF iter])
  then obtain w1 where w1: "deliver S ?m ?ss [] w = (Ret ([] @ ?dead), w1)"
      "\<And>q. inbox q w1 = inbox q w @ (if live q w then delivered ?m q ?ss else [])"
      "\<And>q. live q w1 = live q w"
    by (rule deliver_spec [of ?ss ?m "[]" w]) (rule that)
  obtain w2 where w2: "call_send_callback K cb (sender_message_id msg) (Inr (MessageId u)) w1 = (Ret (), w2)"
      "\<And>q. inbox q w2 = inbox q w1" "\<And>q. live q w2 = live q w1"
    by (rule call_send_callback_cases) (rule that)
  have "remove_keys ?dead (subscriptions self) =
      filter (\<lambda>(k, s). live (subscriber_of s) w) (subscriptions self)"
    unfolding remove_keys_eq_filter
    using dead_keys [OF wf iter, where P = "\<lambda>s. live (subscriber_of s) w"]
    by (intro filter_cong) auto
  then show thesis
    by (intro that [of w2])
      (simp_all add: backend_send_def Let_def bind_io_def then_io_def w1 w2)
qed

end

end
