(* ===== verification/Topic.thy ===== *)
theory Topic
  imports Backend
begin

text \<open>
  The abstract specification of a destination and the proof that the backend task implements
  it. A topic is a partial map from subscription ids to the subscriber's own id and the
  subscriber; an action changes the map and leaves a multiset of notices with each subscriber.
  Iteration order, message loops and clean-up lists are gone.
\<close>

section \<open>Topics\<close>

type_synonym 'p topic = "SubscriptionId \<rightharpoonup> SubscriptionId option \<times> 'p"

definition topic_of :: "'p InMemDestinationBackend \<Rightarrow> 'p topic" where
  "topic_of self k =
     map_option (\<lambda>s. (subscriber_sub_id s, subscriber_of s)) (map_of (subscriptions self) k)"

fun topic_step :: "('p \<Rightarrow> bool) \<Rightarrow> string \<Rightarrow> ('p, 'k) DestinationAction \<Rightarrow> 'p topic \<Rightarrow> 'p topic" where
  "topic_step alive u (ActSubscribe c cb (SendFn q)) t = t(SubscriptionId u \<mapsto> (c, q))"
| "topic_step alive u (ActUnsubscribe i cb) t = t(i := None)"
| "topic_step alive u (ActSend m cb) t =
     (\<lambda>k. case t k of Some (c, q) \<Rightarrow> if alive q then Some (c, q) else None | None \<Rightarrow> None)"
| "topic_step alive u ActClose t = t"

definition topic_fanout :: "OutboundMessage \<Rightarrow> 'p \<Rightarrow> 'p topic \<Rightarrow> notice multiset" where
  "topic_fanout m q t =
     image_mset (\<lambda>k. Notice_Message (the (fst (the (t k)))) m) (mset_set {k. \<exists>c. t k = Some (c, q)})"

fun topic_notices ::
  "DestinationId \<Rightarrow> string \<Rightarrow> ('p, 'k) DestinationAction \<Rightarrow> 'p topic \<Rightarrow> 'p \<Rightarrow> notice multiset" where
  "topic_notices d u (ActSubscribe c (SubscribeCallback p) fn) t q =
     (if q = p then {#Notice_Subscribed d (the c) (Inr (SubscriptionId u))#} else {#})"
| "topic_notices d u (ActUnsubscribe i (UnsubscribeCallback p)) t q =
     (if q = p then {#Notice_Unsubscribed (the (fst (the (t i)))) (Inr i)#} else {#})"
| "topic_notices d u (ActSend msg cb) t q =
     topic_fanout \<lparr>out_destination = d, out_message_id = MessageId u, out_body = in_body msg\<rparr> q t"
| "topic_notices d u ActClose t q = {#}"

text \<open>
  The actions a topic is specified for: a subscription carries the subscriber's own id, and an
  unsubscription names a subscription the topic has.
\<close>

fun admissible :: "'p topic \<Rightarrow> ('p, 'k) DestinationAction \<Rightarrow> bool" where
  "admissible t (ActSubscribe c cb fn) \<longleftrightarrow> c \<noteq> None"
| "admissible t (ActUnsubscribe i cb) \<longleftrightarrow> t i \<noteq> None"
| "admissible t (ActSend m cb) \<longleftrightarrow> True"
| "admissible t ActClose \<longleftrightarrow> True"

text \<open>A whole run, which stops at the first \<open>Close\<close>.\<close>

fun topic_run ::
  "('p \<Rightarrow> bool) \<Rightarrow> (string \<times> ('p, 'k) DestinationAction) list \<Rightarrow> 'p topic \<Rightarrow> 'p topic" where
  "topic_run alive [] t = t"
| "topic_run alive ((u, a) # received) t =
     (if a = ActClose then t else topic_run alive received (topic_step alive u a t))"

text \<open>Its notices, action by action in the order of the run.\<close>

fun topic_run_notices ::
  "('p \<Rightarrow> bool) \<Rightarrow> DestinationId \<Rightarrow> (string \<times> ('p, 'k) DestinationAction) list \<Rightarrow> 'p topic \<Rightarrow> 'p \<Rightarrow>
    notice multiset list" where
  "topic_run_notices alive d [] t q = []"
| "topic_run_notices alive d ((u, a) # received) t q =
     (if a = ActClose then []
      else topic_notices d u a t q # topic_run_notices alive d received (topic_step alive u a t) q)"

text \<open>\<open>in_blocks bs xs\<close>: the list \<open>xs\<close> is the multisets \<open>bs\<close> one after the other, each in some order.\<close>

fun in_blocks :: "'a multiset list \<Rightarrow> 'a list \<Rightarrow> bool" where
  "in_blocks [] xs \<longleftrightarrow> xs = []"
| "in_blocks (b # bs) xs \<longleftrightarrow> mset (take (size b) xs) = b \<and> in_blocks bs (drop (size b) xs)"

lemma in_blocks_append: "in_blocks (mset xs # bs) (xs @ ys) \<longleftrightarrow> in_blocks bs ys"
  by simp

fun admissible_run ::
  "('p \<Rightarrow> bool) \<Rightarrow> (string \<times> ('p, 'k) DestinationAction) list \<Rightarrow> 'p topic \<Rightarrow> bool" where
  "admissible_run alive [] t \<longleftrightarrow> True"
| "admissible_run alive ((u, a) # received) t \<longleftrightarrow>
     a = ActClose \<or> admissible t a \<and> admissible_run alive received (topic_step alive u a t)"


section \<open>The abstraction of the handlers' states\<close>

lemma topic_of_start [simp]: "topic_of (backend_start d) = Map.empty"
  by (rule ext) (simp add: topic_of_def backend_start_def)

lemma topic_of_update:
  "topic_of (self\<lparr>subscriptions := AList.update k s (subscriptions self)\<rparr>) =
     (topic_of self)(k \<mapsto> (subscriber_sub_id s, subscriber_of s))"
  by (rule ext) (simp add: topic_of_def update_conv')

lemma topic_of_delete:
  "topic_of (self\<lparr>subscriptions := AList.delete i (subscriptions self)\<rparr>) = (topic_of self)(i := None)"
  by (rule ext) (simp add: topic_of_def delete_conv')

lemma map_of_filter_value:
  "distinct (map fst m) \<Longrightarrow>
   map_of (filter (\<lambda>(k, v). P v) m) k = (case map_of m k of Some v \<Rightarrow> if P v then Some v else None | None \<Rightarrow> None)"
  by (induction m) (auto split: option.splits simp: map_of_eq_None_iff image_iff)

lemma topic_of_prune:
  assumes "backend_wf self"
  shows "topic_of (self\<lparr>subscriptions := filter (\<lambda>(k, s). alive (subscriber_of s)) (subscriptions self)\<rparr>) =
    topic_step alive u (ActSend m cb) (topic_of self)"
  using assms
  by (intro ext) (auto simp: topic_of_def backend_wf_def distinct_keys_def map_of_filter_value
      split: option.split)

text \<open>What is delivered in some order is the abstract fan-out.\<close>

lemma topic_of_holders:
  assumes "backend_wf self"
  shows "{k. \<exists>c. topic_of self k = Some (c, q)} =
    fst ` set (filter (\<lambda>(k, s). subscriber_of s = q) (subscriptions self))"
proof -
  have d: "distinct_keys (subscriptions self)" using assms by (simp add: backend_wf_def)
  show ?thesis
    by (auto simp: topic_of_def map_of_eq_Some_iff [OF d] image_iff)
qed

lemma delivered_fanout:
  assumes wf: "backend_wf self" and iter: "hash_order iter"
  shows "mset (delivered m q (map snd (iter (subscriptions self)))) = topic_fanout m q (topic_of self)"
proof -
  let ?held = "filter (\<lambda>(k, s). subscriber_of s = q) (subscriptions self)"
  have d: "distinct (map fst (subscriptions self))"
    using wf by (simp add: backend_wf_def distinct_keys_def)
  then have "distinct (map fst ?held)"
    by (rule distinct_map_filter)
  then have keys: "mset_set (fst ` set ?held) = mset (map fst ?held)"
    using mset_set_set by fastforce
  have "mset (delivered m q (map snd (iter (subscriptions self)))) =
      image_mset (\<lambda>s. Notice_Message (the (subscriber_sub_id s)) m)
        (filter_mset (\<lambda>s. subscriber_of s = q) (image_mset snd (mset (iter (subscriptions self)))))"
    by (simp add: delivered_def)
  also have "\<dots> = image_mset (\<lambda>(k, s). Notice_Message (the (subscriber_sub_id s)) m) (mset ?held)"
    by (simp add: hash_order_mset [OF iter] filter_mset_image_mset case_prod_unfold image_mset.compositionality comp_def)
  also have "\<dots> = image_mset (\<lambda>(k, s). Notice_Message (the (fst (the (topic_of self k)))) m) (mset ?held)"
    by (intro image_mset_cong) (auto simp: topic_of_def map_of_is_SomeI [OF d])
  also have "\<dots> = topic_fanout m q (topic_of self)"
    unfolding topic_fanout_def topic_of_holders [OF wf] keys
    by (simp add: case_prod_unfold image_mset.compositionality comp_def)
  finally show ?thesis .
qed


section \<open>The handlers implement the topic\<close>

context messaging_contract
begin

lemma add_subscription_spec:
  obtains w' where
    "add_subscription S u self (Some c) (SubscribeCallback p) fn w =
       (Ret (self\<lparr>subscriptions := AList.update (SubscriptionId u)
          \<lparr>subscription_id = SubscriptionId u, subscriber_sub_id = Some c, send_fn = fn\<rparr>
          (subscriptions self)\<rparr>), w')"
    "\<And>q. inbox q w' = inbox q w @
       (if q = p \<and> live p w
        then [Notice_Subscribed (backend_id self) c (Inr (SubscriptionId u))] else [])"
    "\<And>q. live q w' = live q w"
  by (rule that [of "snd (subscribe_callback S p (backend_id self) (Some c)
        (Inr (SubscriptionId u)) w)"])
    (simp_all add: add_subscription_def Let_def update_conv' then_io_def bind_subscribe_callback
      contract_simps)

lemma remove_subscription_spec:
  assumes "topic_of self i = Some (Some c, p')"
  obtains w' where
    "remove_subscription S self i (UnsubscribeCallback p) w =
       (Ret (self\<lparr>subscriptions := AList.delete i (subscriptions self)\<rparr>), w')"
    "\<And>q. inbox q w' = inbox q w @
       (if q = p \<and> live p w then [Notice_Unsubscribed c (Inr i)] else [])"
    "\<And>q. live q w' = live q w"
proof -
  obtain s where "map_of (subscriptions self) i = Some s" "subscriber_sub_id s = Some c"
    using assms by (auto simp: topic_of_def)
  then show thesis
    by (intro that [of "snd (unsubscribe_callback S p (Some c) (Inr i) w)"])
      (simp_all add: remove_subscription_def Let_def then_io_def bind_unsubscribe_callback
        contract_simps)
qed

text \<open>
  One action: the handler returns, the new state abstracts to the topic's step, the invariant
  and the liveness of every subscriber stay, and each live subscriber gets the topic's notices.
\<close>

lemma handle_action_refines:
  assumes wf: "backend_wf self" and ids: "client_ids self" and iter: "hash_order iter"
    and adm: "admissible (topic_of self) a"
  obtains self' w' where
    "handle_action S K iter u self a w = (Ret (if a = ActClose then Break self else Continue self'), w')"
    "a \<noteq> ActClose \<Longrightarrow> topic_of self' = topic_step (\<lambda>q. live q w) u a (topic_of self)"
    "backend_wf self'" "client_ids self'" "backend_id self' = backend_id self"
    "\<And>q. \<exists>new. inbox q w' = inbox q w @ new \<and>
       mset new = (if live q w then topic_notices (backend_id self) u a (topic_of self) q else {#})"
    "\<And>q. live q w' = live q w"
proof (cases a)
  case (ActSubscribe ci cb fn)
  obtain p where p: "cb = SubscribeCallback p" by (cases cb)
  obtain q where q: "fn = SendFn q" by (cases fn)
  obtain c where c: "ci = Some c" using adm ActSubscribe by auto
  let ?s = "\<lparr>subscription_id = SubscriptionId u, subscriber_sub_id = Some c, send_fn = SendFn q\<rparr>"
  let ?self = "self\<lparr>subscriptions := AList.update (SubscriptionId u) ?s (subscriptions self)\<rparr>"
  obtain w' where w': "add_subscription S u self (Some c) (SubscribeCallback p) (SendFn q) w = (Ret ?self, w')"
    "\<And>q. inbox q w' = inbox q w @
       (if q = p \<and> live p w
        then [Notice_Subscribed (backend_id self) c (Inr (SubscriptionId u))] else [])"
    "\<And>q. live q w' = live q w"
    by (rule add_subscription_spec) (rule that)
  show thesis
    by (rule that [of ?self w'])
      (use wf ids in \<open>simp_all add: ActSubscribe p q c w' bind_io_def topic_of_update
         backend_wf_update client_ids_update subscriber_of_def\<close>)
next
  case (ActUnsubscribe i cb)
  obtain p where p: "cb = UnsubscribeCallback p" by (cases cb)
  obtain ci p' where "topic_of self i = Some (ci, p')" using adm ActUnsubscribe by auto
  moreover then have "ci \<noteq> None"
    using ids by (fastforce simp: topic_of_def client_ids_def dest: map_of_SomeD)
  ultimately obtain c where c: "topic_of self i = Some (Some c, p')" by auto
  let ?self = "self\<lparr>subscriptions := AList.delete i (subscriptions self)\<rparr>"
  obtain w' where w': "remove_subscription S self i (UnsubscribeCallback p) w = (Ret ?self, w')"
    "\<And>q. inbox q w' = inbox q w @
       (if q = p \<and> live p w then [Notice_Unsubscribed c (Inr i)] else [])"
    "\<And>q. live q w' = live q w"
    by (rule remove_subscription_spec [OF c]) (rule that)
  show thesis
    by (rule that [of ?self w'])
      (use wf ids in \<open>simp_all add: ActUnsubscribe p c w' bind_io_def topic_of_delete\<close>,
       simp_all add: delete_eq_filter backend_wf_filter client_ids_filter)
next
  case (ActSend m cb)
  let ?self = "self\<lparr>subscriptions := filter (\<lambda>(k, s). live (subscriber_of s) w) (subscriptions self)\<rparr>"
  obtain w' where w': "backend_send S K iter u self m cb w = (Ret ?self, w')"
    "\<And>q. inbox q w' = inbox q w @
       (if live q w
        then delivered \<lparr>out_destination = backend_id self, out_message_id = MessageId u,
               out_body = in_body m\<rparr> q (map snd (iter (subscriptions self)))
        else [])"
    "\<And>q. live q w' = live q w"
    by (rule backend_send_spec [OF wf ids iter]) (rule that)
  show thesis
    by (rule that [of ?self w'])
      (use wf ids in \<open>simp_all add: ActSend w' bind_io_def topic_of_prune [OF wf, of "\<lambda>q. live q w" u m cb]
         delivered_fanout [OF wf iter] backend_wf_filter client_ids_filter\<close>)
next
  case ActClose
  show thesis
    by (rule that [of self w]) (use wf ids in \<open>simp_all add: ActClose\<close>)
qed

text \<open>
  The whole task: on any sequence of admissible actions \<open>listen_on\<close> runs to its end without a
  panic, its last state abstracts to the topic's run, and the live subscribers have got the
  notices of the topic's run.
\<close>

lemma listen_on_refines:
  assumes wf: "backend_wf self" and ids: "client_ids self" and iter: "hash_order iter"
    and adm: "admissible_run (\<lambda>q. live q w) received (topic_of self)"
    and close: "\<And>w. fst (receiver_close w) = Ret ()" "\<And>q w. inbox q (snd (receiver_close w)) = inbox q w"
  shows "\<exists>self' w'. listen_on S K iter receiver_close self received w = (Ret self', w') \<and>
    topic_of self' = topic_run (\<lambda>q. live q w) received (topic_of self) \<and>
    backend_wf self' \<and> client_ids self' \<and>
    (\<forall>q. \<exists>new. inbox q w' = inbox q w @ new \<and>
      (if live q w
       then in_blocks (topic_run_notices (\<lambda>q. live q w) (backend_id self) received (topic_of self) q) new
       else new = []))"
  using wf ids adm
proof (induction received arbitrary: self w)
  case Nil
  then show ?case
    using close(1) [of w] close(2) [of _ w] by (cases "receiver_close w") (auto simp: then_io_def bind_io_def)
next
  case (Cons ua received)
  obtain u a where ua: "ua = (u, a)" by (cases ua)
  show ?case
  proof (cases "a = ActClose")
    case True
    with Cons.prems show ?thesis
      using close(1) [of w] close(2) [of _ w] by (cases "receiver_close w") (auto simp: ua then_io_def bind_io_def)
  next
    case False
    with Cons.prems(3) have adm: "admissible (topic_of self) a"
      and rest: "admissible_run (\<lambda>q. live q w) received (topic_step (\<lambda>q. live q w) u a (topic_of self))"
      by (auto simp: ua)
    obtain self1 w1 where s1: "handle_action S K iter u self a w =
          (Ret (if a = ActClose then Break self else Continue self1), w1)"
        "a \<noteq> ActClose \<Longrightarrow> topic_of self1 = topic_step (\<lambda>q. live q w) u a (topic_of self)"
        "backend_wf self1" "client_ids self1" "backend_id self1 = backend_id self"
        "\<And>q. \<exists>new. inbox q w1 = inbox q w @ new \<and>
           mset new = (if live q w then topic_notices (backend_id self) u a (topic_of self) q else {#})"
        "\<And>q. live q w1 = live q w"
      by (rule handle_action_refines [OF Cons.prems(1,2) iter adm, of u w]) (rule that)
    with rest False obtain self2 w2 where s2:
        "listen_on S K iter receiver_close self1 received w1 = (Ret self2, w2)"
        "topic_of self2 = topic_run (\<lambda>q. live q w) received (topic_of self1)"
        "backend_wf self2" "client_ids self2"
        "\<And>q. \<exists>new. inbox q w2 = inbox q w1 @ new \<and> (if live q w
          then in_blocks (topic_run_notices (\<lambda>q. live q w) (backend_id self) received (topic_of self1) q) new
          else new = [])"
      using Cons.IH [of self1 w1, unfolded s1(5,7)] s1(2-4) by auto
    have "\<exists>new. inbox q w2 = inbox q w @ new \<and> (if live q w
        then in_blocks (topic_run_notices (\<lambda>q. live q w) (backend_id self) ((u, a) # received) (topic_of self) q) new
        else new = [])" for q
    proof -
      obtain new1 new2 where new: "inbox q w1 = inbox q w @ new1" "inbox q w2 = inbox q w1 @ new2"
        "mset new1 = (if live q w then topic_notices (backend_id self) u a (topic_of self) q else {#})"
        "if live q w
          then in_blocks (topic_run_notices (\<lambda>q. live q w) (backend_id self) received (topic_of self1) q) new2
          else new2 = []"
        using s1(6) [of q] s2(5) [of q] by blast
      then show ?thesis
        using False s1(2) in_blocks_append [of new1 _ new2]
        by (intro exI [of _ "new1 @ new2"]) (auto simp del: in_blocks.simps(2) split: if_splits)
    qed
    moreover have "listen_on S K iter receiver_close self ((u, a) # received) w = (Ret self2, w2)"
      "topic_of self2 = topic_run (\<lambda>q. live q w) ((u, a) # received) (topic_of self)"
      using s1(1,2) s2(1,2) False by (simp_all add: bind_io_def)
    ultimately show ?thesis using s2(3,4) unfolding ua by blast
  qed
qed

end

end
