(* ===== verification/Registry.thy ===== *)
theory Registry
  imports Inmemory
begin

text \<open>
  \<open>src/asynchronous/destinations.rs\<close>: \<open>AsyncDestinations\<close> finds or creates the destination
  behind a name and passes the call on. It keeps its destinations in the \<open>VersionedMap\<close> of the
  crate \<open>async_map\<close>, which is not part of the repository: its two operations are arguments, and
  \<open>get_or_create_map\<close> says what the code relies on.
\<close>

record ('m, 'key, 'v, 'f, 'w) VersionedMap =
  vm_get_if_present :: "'m \<Rightarrow> 'key \<Rightarrow> ('w, 'v option) io"
  vm_get :: "'m \<Rightarrow> 'key \<Rightarrow> 'f \<Rightarrow> ('w, 'v) io"

record ('m, 'f) AsyncDestinations =
  ad_destinations :: 'm
  ad_factory :: 'f

definition AsyncDestinations_start :: "'m \<Rightarrow> 'f \<Rightarrow> ('m, 'f) AsyncDestinations" where
  "AsyncDestinations_start new_map destination_factory =
     \<lparr>ad_destinations = new_map, ad_factory = destination_factory\<rparr>"

text \<open>
  \<open>subscribe\<close> spawns a task that waits for the destination and then subscribes. The spawned
  future is a record of what it captured; \<open>run_subscribe_task\<close> is its body.
\<close>

record ('p, 'c) SubscribeTask =
  task_destination :: DestinationId
  task_subscriber_sub_id :: "SubscriptionId option"
  task_subscriber :: 'p
  task_client :: 'c

definition ad_subscribe ::
  "(('p, 'c) SubscribeTask \<Rightarrow> ('w, unit) io) \<Rightarrow> ('m, 'f) AsyncDestinations \<Rightarrow> DestinationId \<Rightarrow>
    SubscriptionId option \<Rightarrow> 'p \<Rightarrow> 'c \<Rightarrow> ('w, unit) io" where
  "ad_subscribe spawn self destination sub_id subscriber client =
     spawn \<lparr>task_destination = destination, task_subscriber_sub_id = sub_id,
       task_subscriber = subscriber, task_client = client\<rparr>"

definition run_subscribe_task ::
  "('m, DestinationId, 'd, 'f, 'w) VersionedMap \<Rightarrow> ('d, 'p, 'k, 'c, 'w) Destination \<Rightarrow>
    ('m, 'f) AsyncDestinations \<Rightarrow> ('p, 'c) SubscribeTask \<Rightarrow> ('w, unit) io" where
  "run_subscribe_task vm D self task =
     bind_io (vm_get vm (ad_destinations self) (task_destination task) (ad_factory self))
       (\<lambda>destination. destination_subscribe D destination (task_subscriber_sub_id task)
         (task_subscriber task) (task_client task))"

definition ad_send ::
  "('m, DestinationId, 'd, 'f, 'w) VersionedMap \<Rightarrow> ('d, 'p, 'k, 'c, 'w) Destination \<Rightarrow>
    ('k, 'w) Sender \<Rightarrow> ('m, 'f) AsyncDestinations \<Rightarrow> DestinationId \<Rightarrow> InboundMessage \<Rightarrow> 'k \<Rightarrow> 'c \<Rightarrow>
    ('w, unit) io" where
  "ad_send vm D K self destination msg sender client =
     bind_io (vm_get_if_present vm (ad_destinations self) destination)
       (\<lambda>present. case present of
          Some d \<Rightarrow> destination_send D d msg sender client
        | None \<Rightarrow> send_callback K sender (sender_message_id msg)
            (Inl (StomperError_new
              (''Unknown destination '' @ [CHR 0x27] @ dest_id_str destination @ [CHR 0x27]))))"

definition ad_unsubscribe ::
  "('m, DestinationId, 'd, 'f, 'w) VersionedMap \<Rightarrow> ('d, 'p, 'k, 'c, 'w) Destination \<Rightarrow>
    ('m, 'f) AsyncDestinations \<Rightarrow> DestinationId \<Rightarrow> SubscriptionId \<Rightarrow> 'p \<Rightarrow> 'c \<Rightarrow> ('w, unit) io" where
  "ad_unsubscribe vm D self destination subscription subscriber client =
     bind_io (vm_get_if_present vm (ad_destinations self) destination)
       (\<lambda>present. case present of
          Some d \<Rightarrow> destination_unsubscribe D d subscription subscriber client
        | None \<Rightarrow> ret_io ())"

text \<open>\<open>impl Destinations for AsyncDestinations\<close>.\<close>

definition async_destinations ::
  "('m, DestinationId, 'd, 'f, 'w) VersionedMap \<Rightarrow> (('p, 'c) SubscribeTask \<Rightarrow> ('w, unit) io) \<Rightarrow>
    ('d, 'p, 'k, 'c, 'w) Destination \<Rightarrow> ('k, 'w) Sender \<Rightarrow>
    (('m, 'f) AsyncDestinations, 'p, 'k, 'c, 'w) Destinations" where
  "async_destinations vm spawn D K =
     \<lparr>destinations_subscribe = ad_subscribe spawn,
      destinations_unsubscribe = ad_unsubscribe vm D,
      destinations_send = ad_send vm D K\<rparr>"


section \<open>The contract of the map\<close>

text \<open>
  \<open>contents\<close> is what the map holds in a world that satisfies \<open>invar\<close>. Looking up changes
  nothing. \<open>get\<close> returns the value that is there, and else lets the factory create one, stores
  it and returns it; either way the entries that were there stay.
\<close>

locale get_or_create_map =
  fixes vm :: "('m, 'key, 'v, 'f, 'w) VersionedMap"
    and contents :: "'m \<Rightarrow> 'w \<Rightarrow> 'key \<rightharpoonup> 'v"
    and invar :: "'m \<Rightarrow> 'w \<Rightarrow> bool"
  assumes get_if_present: "invar m w \<Longrightarrow> vm_get_if_present vm m k w = (Ret (contents m w k), w)"
    and get_present: "invar m w \<Longrightarrow> contents m w k = Some v \<Longrightarrow> vm_get vm m k f w = (Ret v, w)"
    and get_absent: "invar m w \<Longrightarrow> contents m w k = None \<Longrightarrow>
      \<exists>v w'. vm_get vm m k f w = (Ret v, w') \<and> contents m w' = (contents m w)(k \<mapsto> v) \<and> invar m w'"
begin

lemma get_returns:
  assumes "invar m w"
  obtains v w' where "vm_get vm m k f w = (Ret v, w')" "contents m w' k = Some v" "invar m w'"
    "contents m w \<subseteq>\<^sub>m contents m w'"
proof (cases "contents m w k")
  case None
  with assms obtain v w' where "vm_get vm m k f w = (Ret v, w')" "invar m w'"
    "contents m w' = (contents m w)(k \<mapsto> v)"
    using get_absent by blast
  with None show thesis by (intro that) (auto simp: map_le_def dom_def)
next
  case (Some v)
  then show thesis by (intro that [of v w]) (auto simp: get_present assms)
qed

text \<open>A name is created once: asking again, with any factory, yields the same value.\<close>

lemma get_twice:
  assumes "invar m w" "vm_get vm m k f w = (Ret v, w')"
  shows "vm_get vm m k g w' = (Ret v, w') \<and> invar m w'"
  by (rule get_returns [OF assms(1), of k f]) (use get_present assms(2) in auto)

end

end
