(* ===== verification/Nonlocking_Map.thy ===== *)
theory Nonlocking_Map
  imports Registry
begin

text \<open>
  \<open>src/asynchronous/nonlockingmap.rs\<close>, the crate's own get-or-create map (its module is no
  longer listed in \<open>src/asynchronous/mod.rs\<close>; \<open>VersionedMap\<close> took its place). Readers follow
  an atomic pointer to an immutable map; one updater task owns the map, replaces it by an
  extended copy, redirects the pointer and drops the old copy. The heap is explicit, so that
  following a pointer to a dropped map is visible.
\<close>

section \<open>State and operations\<close>

datatype ('k, 'v) MapAction = GetOrCreate 'k "'k \<Rightarrow> 'v" nat | Quit

record ('k, 'v) nlm_world =
  nlm_heap :: "nat \<rightharpoonup> ('k, 'v) hash_map"
  nlm_next :: nat
  nlm_map_ptr :: nat
  nlm_moved_map :: nat
  nlm_queue :: "('k, 'v) MapAction list"
  nlm_woken :: "nat list"

definition NonLockingMap_new :: "('k, 'v) nlm_world" where
  "NonLockingMap_new =
     \<lparr>nlm_heap = [0 \<mapsto> []], nlm_next = 1, nlm_map_ptr = 0, nlm_moved_map = 0, nlm_queue = [],
      nlm_woken = []\<rparr>"

text \<open>\<open>get_sync\<close>: undefined behaviour, a read of freed memory, is shown as a panic.\<close>

definition nlm_get_sync :: "nat \<Rightarrow> 'k \<Rightarrow> (('k, 'v) nlm_world, 'v option) io" where
  "nlm_get_sync ptr key w =
     (case nlm_heap w ptr of
        Some m \<Rightarrow> (Ret (map_of m key), w)
      | None \<Rightarrow> (Panic ''use after free'', w))"

definition nlm_get_if_present :: "'k \<Rightarrow> (('k, 'v) nlm_world, 'v option) io" where
  "nlm_get_if_present key w = nlm_get_sync (nlm_map_ptr w) key w"

text \<open>The future of \<open>get\<close> and its \<open>poll\<close>; \<open>waker\<close> names the task that polls.\<close>

record ('k, 'v) MapReturnFuture =
  future_key :: 'k
  future_factory :: "('k \<Rightarrow> 'v) option"

datatype 'a MapPoll = MapPending | MapReady 'a

definition nlm_get :: "'k \<Rightarrow> ('k \<Rightarrow> 'v) \<Rightarrow> ('k, 'v) MapReturnFuture" where
  "nlm_get key factory = \<lparr>future_key = key, future_factory = Some factory\<rparr>"

definition nlm_poll ::
  "nat \<Rightarrow> ('k, 'v) MapReturnFuture \<Rightarrow>
    (('k, 'v) nlm_world, 'v MapPoll \<times> ('k, 'v) MapReturnFuture) io" where
  "nlm_poll waker self =
     bind_io (nlm_get_if_present (future_key self))
       (\<lambda>found. case found of
          Some v \<Rightarrow> ret_io (MapReady v, self)
        | None \<Rightarrow>
            (case future_factory self of
               None \<Rightarrow> panic_io ''called `Option::unwrap()` on a `None` value''
             | Some factory \<Rightarrow>
                 (\<lambda>w. (Ret (MapPending, self\<lparr>future_factory := None\<rparr>),
                   w\<lparr>nlm_queue := nlm_queue w @ [GetOrCreate (future_key self) factory waker]\<rparr>))))"

text \<open>The updater: a new map is allocated and published, then the old one is dropped.\<close>

definition nlm_create_if_necessary ::
  "'k \<Rightarrow> ('k \<Rightarrow> 'v) \<Rightarrow> (('k, 'v) nlm_world, nat option) io" where
  "nlm_create_if_necessary key factory =
     bind_io (nlm_get_if_present key)
       (\<lambda>found w. case found of
          Some _ \<Rightarrow> (Ret None, w)
        | None \<Rightarrow>
            (case nlm_heap w (nlm_moved_map w) of
               None \<Rightarrow> (Panic ''use after free'', w)
             | Some m \<Rightarrow>
                 let a = nlm_next w
                 in (Ret (Some a),
                     w\<lparr>nlm_heap := (nlm_heap w)(a \<mapsto> AList.update key (factory key) m),
                       nlm_next := Suc a, nlm_map_ptr := a\<rparr>)))"

definition nlm_handle :: "('k, 'v) MapAction \<Rightarrow> (('k, 'v) nlm_world, bool) io" where
  "nlm_handle action =
     (case action of
        Quit \<Rightarrow> ret_io False
      | GetOrCreate key factory waker \<Rightarrow>
          bind_io (nlm_create_if_necessary key factory)
            (\<lambda>new_map w. (Ret True,
              (case new_map of
                 None \<Rightarrow> w
               | Some a \<Rightarrow> w\<lparr>nlm_heap := (nlm_heap w)(nlm_moved_map w := None), nlm_moved_map := a\<rparr>)
              \<lparr>nlm_woken := nlm_woken w @ [waker]\<rparr>)))"

text \<open>When \<open>Quit\<close> ends the loop, the task drops the map it owns. Nothing sends \<open>Quit\<close>.\<close>

definition nlm_drop_map :: "(('k, 'v) nlm_world, unit) io" where
  "nlm_drop_map w = (Ret (), w\<lparr>nlm_heap := (nlm_heap w)(nlm_moved_map w := None)\<rparr>)"

fun nlm_updater :: "('k, 'v) MapAction list \<Rightarrow> (('k, 'v) nlm_world, unit) io" where
  "nlm_updater [] = ret_io ()"
| "nlm_updater (action # rest) =
     bind_io (nlm_handle action) (\<lambda>continue. if continue then nlm_updater rest else nlm_drop_map)"

definition nlm_run_updater :: "(('k, 'v) nlm_world, unit) io" where
  "nlm_run_updater w = nlm_updater (nlm_queue w) (w\<lparr>nlm_queue := []\<rparr>)"

text \<open>
  Awaiting \<open>get\<close>: poll, and once the updater has woken the task, poll again.
\<close>

definition nlm_get_await :: "nat \<Rightarrow> 'k \<Rightarrow> ('k \<Rightarrow> 'v) \<Rightarrow> (('k, 'v) nlm_world, 'v) io" where
  "nlm_get_await waker key factory =
     bind_io (nlm_poll waker (nlm_get key factory))
       (\<lambda>(r, fut). case r of
          MapReady v \<Rightarrow> ret_io v
        | MapPending \<Rightarrow>
            then_io nlm_run_updater
              (bind_io (nlm_poll waker fut)
                (\<lambda>(r, fut). case r of
                   MapReady v \<Rightarrow> ret_io v
                 | MapPending \<Rightarrow> panic_io ''still pending'')))"

definition nlm_ops :: "nat \<Rightarrow> (unit, 'k, 'v, 'k \<Rightarrow> 'v, ('k, 'v) nlm_world) VersionedMap" where
  "nlm_ops waker =
     \<lparr>vm_get_if_present = (\<lambda>_ key. nlm_get_if_present key),
      vm_get = (\<lambda>_ key factory. nlm_get_await waker key factory)\<rparr>"


section \<open>Invariant and contract\<close>

definition nlm_contents :: "('k, 'v) nlm_world \<Rightarrow> 'k \<rightharpoonup> 'v" where
  "nlm_contents w = (case nlm_heap w (nlm_map_ptr w) of Some m \<Rightarrow> map_of m | None \<Rightarrow> Map.empty)"

definition nlm_inv :: "('k, 'v) nlm_world \<Rightarrow> bool" where
  "nlm_inv w \<longleftrightarrow> nlm_map_ptr w = nlm_moved_map w \<and> nlm_heap w (nlm_moved_map w) \<noteq> None \<and>
     nlm_moved_map w < nlm_next w"

lemma nlm_new_inv: "nlm_inv NonLockingMap_new \<and> nlm_contents NonLockingMap_new = Map.empty"
  by (simp add: nlm_inv_def nlm_contents_def NonLockingMap_new_def)

lemma nlm_get_if_present_eq:
  "nlm_inv w \<Longrightarrow> nlm_get_if_present k w = (Ret (nlm_contents w k), w)"
  by (auto simp: nlm_inv_def nlm_get_if_present_def nlm_get_sync_def nlm_contents_def)

lemma nlm_handle_present:
  "nlm_inv w \<Longrightarrow> nlm_contents w k = Some v \<Longrightarrow>
   nlm_handle (GetOrCreate k f wk) w = (Ret True, w\<lparr>nlm_woken := nlm_woken w @ [wk]\<rparr>)"
  by (simp add: nlm_handle_def nlm_create_if_necessary_def bind_io_def nlm_get_if_present_eq)

lemma nlm_handle_absent:
  assumes "nlm_inv w" "nlm_contents w k = None"
  obtains w' where "nlm_handle (GetOrCreate k f wk) w = (Ret True, w')" "nlm_inv w'"
    "nlm_contents w' = (nlm_contents w)(k \<mapsto> f k)" "nlm_queue w' = nlm_queue w"
    "nlm_woken w' = nlm_woken w @ [wk]"
proof -
  obtain m where m: "nlm_heap w (nlm_moved_map w) = Some m" "nlm_map_ptr w = nlm_moved_map w"
    "nlm_moved_map w < nlm_next w"
    using assms(1) by (auto simp: nlm_inv_def)
  let ?w = "w\<lparr>nlm_heap := (nlm_heap w)(nlm_next w \<mapsto> AList.update k (f k) m, nlm_moved_map w := None),
    nlm_next := Suc (nlm_next w), nlm_map_ptr := nlm_next w, nlm_moved_map := nlm_next w,
    nlm_woken := nlm_woken w @ [wk]\<rparr>"
  show thesis
  proof (rule that [of ?w])
    show "nlm_handle (GetOrCreate k f wk) w = (Ret True, ?w)"
      using m assms by (simp add: nlm_handle_def nlm_create_if_necessary_def bind_io_def
          nlm_get_if_present_eq Let_def)
  qed (use m assms in \<open>auto simp: nlm_inv_def nlm_contents_def update_conv'\<close>)
qed

lemma nlm_get_await_absent:
  assumes "nlm_inv w" "nlm_contents w k = None" "nlm_queue w = []"
  obtains w' where "nlm_get_await wk k f w = (Ret (f k), w')" "nlm_inv w'"
    "nlm_contents w' = (nlm_contents w)(k \<mapsto> f k)" "nlm_queue w' = []"
proof -
  have inv: "nlm_inv (w\<lparr>nlm_queue := []\<rparr>)" "nlm_contents (w\<lparr>nlm_queue := []\<rparr>) k = None"
    using assms by (simp_all add: nlm_inv_def nlm_contents_def)
  obtain w' where w': "nlm_handle (GetOrCreate k f wk) (w\<lparr>nlm_queue := []\<rparr>) = (Ret True, w')" "nlm_inv w'"
    "nlm_contents w' = (nlm_contents (w\<lparr>nlm_queue := []\<rparr>))(k \<mapsto> f k)" "nlm_queue w' = nlm_queue (w\<lparr>nlm_queue := []\<rparr>)"
    by (rule nlm_handle_absent [OF inv, of f wk]) (rule that)
  have "nlm_get_await wk k f w = (Ret (f k), w')"
    using w' assms
    by (simp add: nlm_get_await_def nlm_poll_def nlm_get_def bind_io_def then_io_def
        nlm_get_if_present_eq nlm_run_updater_def)
  then show thesis
    using w' by (intro that) (simp_all add: nlm_contents_def)
qed

interpretation nlm: get_or_create_map "nlm_ops wk" "\<lambda>_. nlm_contents"
  "\<lambda>_ w. nlm_inv w \<and> nlm_queue w = []"
proof (unfold_locales, goal_cases)
  case 1
  then show ?case by (simp add: nlm_ops_def nlm_get_if_present_eq)
next
  case 2
  then show ?case
    by (simp add: nlm_ops_def nlm_get_await_def nlm_poll_def nlm_get_def bind_io_def
        nlm_get_if_present_eq)
next
  case (3 m w k f)
  then show ?case
    by (auto simp: nlm_ops_def intro: nlm_get_await_absent [of w k wk f])
qed


section \<open>Behaviour\<close>

lemma nlm_inv_woken [simp]:
  "nlm_inv (w\<lparr>nlm_woken := ws\<rparr>) = nlm_inv w"
  "nlm_contents (w\<lparr>nlm_woken := ws\<rparr>) = nlm_contents w"
  by (simp_all add: nlm_inv_def nlm_contents_def)

lemma nlm_updater_present:
  "nlm_inv w \<Longrightarrow> nlm_contents w k = Some v \<Longrightarrow>
   nlm_updater (map (\<lambda>(f, wk). GetOrCreate k f wk) reqs) w =
     (Ret (), w\<lparr>nlm_woken := nlm_woken w @ map snd reqs\<rparr>)"
proof (induction reqs arbitrary: w)
  case (Cons r reqs)
  obtain f wk where r: "r = (f, wk)" by (cases r)
  have "nlm_updater (map (\<lambda>(f, wk). GetOrCreate k f wk) (r # reqs)) w =
      nlm_updater (map (\<lambda>(f, wk). GetOrCreate k f wk) reqs) (w\<lparr>nlm_woken := nlm_woken w @ [wk]\<rparr>)"
    using Cons.prems by (simp add: r bind_io_def nlm_handle_present)
  with Cons show ?case by (simp add: r)
qed simp

text \<open>
  When several tasks ask for the same missing key at once, the updater calls the first
  request's factory only, every other key keeps its value, and every asker is woken.
\<close>

theorem nlm_creates_once:
  assumes "nlm_inv w" "nlm_contents w k = None"
  shows "\<exists>w'. nlm_updater (map (\<lambda>(f, wk). GetOrCreate k f wk) ((f, wk) # reqs)) w = (Ret (), w') \<and>
    nlm_inv w' \<and> nlm_contents w' = (nlm_contents w)(k \<mapsto> f k) \<and>
    nlm_woken w' = nlm_woken w @ wk # map snd reqs"
proof -
  obtain w1 where w1: "nlm_handle (GetOrCreate k f wk) w = (Ret True, w1)" "nlm_inv w1"
      "nlm_contents w1 = (nlm_contents w)(k \<mapsto> f k)" "nlm_woken w1 = nlm_woken w @ [wk]"
    by (rule nlm_handle_absent [OF assms, of f wk]) (rule that)
  then show ?thesis
    using nlm_updater_present [of w1 k "f k" reqs] by (simp add: bind_io_def)
qed

theorem nlm_creates_once_witness:
  "\<exists>w'. nlm_updater [GetOrCreate ''d'' (\<lambda>k. 1 :: nat) 0, GetOrCreate ''d'' (\<lambda>k. 2) 1] NonLockingMap_new = (Ret (), w') \<and>
     nlm_contents w' = [''d'' \<mapsto> 1] \<and> nlm_woken w' = [0, 1]"
proof -
  have new: "nlm_inv NonLockingMap_new" "nlm_contents NonLockingMap_new ''d'' = None"
    "nlm_contents NonLockingMap_new = Map.empty" "nlm_woken NonLockingMap_new = []"
    by (simp_all add: nlm_new_inv NonLockingMap_new_def [THEN arg_cong [where f = nlm_woken]])
  show ?thesis
    using nlm_creates_once [OF new(1,2), of "\<lambda>k. 1 :: nat" 0 "[(\<lambda>k. 2, 1)]"]
    by (auto simp: new(3,4) simp del: nlm_updater.simps)
qed

text \<open>
  A future that is polled a second time before the updater has run, which the contract of
  \<open>Future\<close> allows, panics on the factory it has given away.
\<close>

theorem nlm_spurious_poll_panics:
  assumes "nlm_inv w" "nlm_contents w k = None"
  shows "\<exists>fut w'. nlm_poll wk (nlm_get k f) w = (Ret (MapPending, fut), w') \<and>
    \<not> returns (nlm_poll wk' fut) w'"
proof -
  let ?w = "w\<lparr>nlm_queue := nlm_queue w @ [GetOrCreate k f wk]\<rparr>"
  have "nlm_inv ?w" "nlm_contents ?w = nlm_contents w"
    using assms by (simp_all add: nlm_inv_def nlm_contents_def)
  with assms show ?thesis
    by (simp add: nlm_poll_def nlm_get_def bind_io_def returns_def nlm_get_if_present_eq)
qed

theorem nlm_spurious_poll_panics_witness:
  "\<exists>fut w'. nlm_poll 0 (nlm_get ''d'' (\<lambda>k. 1 :: nat)) NonLockingMap_new = (Ret (MapPending, fut), w') \<and>
     \<not> returns (nlm_poll 0 fut) w'"
  by (rule nlm_spurious_poll_panics) (simp_all add: nlm_new_inv)

text \<open>
  C40: a reader that has loaded the pointer and is overtaken by an update before it follows it
  reads freed memory, whatever key it looks for; a reader that loads the pointer afterwards is
  safe.
\<close>

theorem nlm_overtaken_reader:
  assumes "nlm_inv w" "nlm_contents w k = None"
    and "nlm_handle (GetOrCreate k f wk) w = (r, w')"
  shows "nlm_get_sync (nlm_map_ptr w) key w' = (Panic ''use after free'', w') \<and>
    nlm_get_if_present key w' = (Ret (((nlm_contents w)(k \<mapsto> f k)) key), w')"
proof -
  obtain w1 where w1: "nlm_handle (GetOrCreate k f wk) w = (Ret True, w1)" "nlm_inv w1"
      "nlm_contents w1 = (nlm_contents w)(k \<mapsto> f k)" "nlm_queue w1 = nlm_queue w"
    by (rule nlm_handle_absent [OF assms(1,2), of f wk]) (rule that)
  then have "w1 = w'" using assms(3) by simp
  moreover have "nlm_heap w1 (nlm_map_ptr w) = None"
    using w1(1) assms(1,2)
    by (auto simp: nlm_handle_def nlm_create_if_necessary_def bind_io_def nlm_get_if_present_eq
        nlm_inv_def Let_def split: option.splits prod.splits outcome.splits)
  ultimately show ?thesis
    using w1 by (simp add: nlm_get_if_present_eq nlm_get_sync_def)
qed

theorem nlm_overtaken_reader_witness:
  "\<exists>w'. nlm_get_sync (nlm_map_ptr (NonLockingMap_new :: (string, nat) nlm_world)) ''e'' w' =
       (Panic ''use after free'', w') \<and>
     nlm_get_if_present ''d'' w' = (Ret (Some (1 :: nat)), w')"
proof -
  have new: "nlm_inv (NonLockingMap_new :: (string, nat) nlm_world)"
    "nlm_contents (NonLockingMap_new :: (string, nat) nlm_world) ''d'' = None"
    by (simp_all add: nlm_new_inv)
  obtain r w' where "nlm_handle (GetOrCreate ''d'' (\<lambda>k. 1 :: nat) 0) NonLockingMap_new = (r, w')"
    by (cases "nlm_handle (GetOrCreate ''d'' (\<lambda>k. 1 :: nat) 0) NonLockingMap_new")
  from nlm_overtaken_reader [OF new this, of "''e''"] nlm_overtaken_reader [OF new this, of "''d''"]
  show ?thesis by auto
qed

end
