(* ===== verification/Nonlocking_Tasks.thy ===== *)
theory Nonlocking_Tasks
  imports Nonlocking_Map
begin

text \<open>
  The tasks around the map of \<open>src/asynchronous/nonlockingmap.rs\<close>: any number of them await
  \<open>get\<close>, for any keys, while the updater works its queue. A step is a poll, a wake-up, or one
  action of the updater; the executor may choose any. A poll follows the pointer at once (the
  race between loading and following it is a property of \<open>Nonlocking_Map\<close>).
\<close>

section \<open>The system\<close>

datatype ('k, 'v) asker =
    Polling "('k, 'v) MapReturnFuture"
  | Sleeping "('k, 'v) MapReturnFuture"
  | Got 'k 'v

record ('k, 'v) nlm_system =
  nlm_shared :: "('k, 'v) nlm_world"
  nlm_askers :: "nat \<rightharpoonup> ('k, 'v) asker"

definition nlm_system_start :: "('k, 'v) nlm_system" where
  "nlm_system_start = \<lparr>nlm_shared = NonLockingMap_new, nlm_askers = Map.empty\<rparr>"

inductive nlm_turn :: "('k, 'v) nlm_system \<Rightarrow> ('k, 'v) nlm_system \<Rightarrow> bool" where
  poll_ready:
    "nlm_askers s i = Some (Polling fut) \<Longrightarrow> nlm_poll i fut (nlm_shared s) = (Ret (MapReady v, fut'), w) \<Longrightarrow>
     nlm_turn s (s\<lparr>nlm_shared := w, nlm_askers := (nlm_askers s)(i \<mapsto> Got (future_key fut) v)\<rparr>)"
| poll_pending:
    "nlm_askers s i = Some (Polling fut) \<Longrightarrow> nlm_poll i fut (nlm_shared s) = (Ret (MapPending, fut'), w) \<Longrightarrow>
     nlm_turn s (s\<lparr>nlm_shared := w, nlm_askers := (nlm_askers s)(i \<mapsto> Sleeping fut')\<rparr>)"
| wake:
    "nlm_askers s i = Some (Sleeping fut) \<Longrightarrow> i \<in> set (nlm_woken (nlm_shared s)) \<Longrightarrow>
     nlm_turn s (s\<lparr>nlm_shared := (nlm_shared s)\<lparr>nlm_woken := removeAll i (nlm_woken (nlm_shared s))\<rparr>,
       nlm_askers := (nlm_askers s)(i \<mapsto> Polling fut)\<rparr>)"
| update:
    "nlm_queue (nlm_shared s) = action # rest \<Longrightarrow>
     nlm_handle action ((nlm_shared s)\<lparr>nlm_queue := rest\<rparr>) = (Ret True, w) \<Longrightarrow>
     nlm_turn s (s\<lparr>nlm_shared := w\<rparr>)"

inductive nlm_reachable :: "('k, 'v) nlm_system \<Rightarrow> bool" where
  start: "nlm_reachable nlm_system_start"
| ask: "nlm_reachable s \<Longrightarrow> nlm_askers s i = None \<Longrightarrow>
     nlm_reachable (s\<lparr>nlm_askers := (nlm_askers s)(i \<mapsto> Polling (nlm_get key factory))\<rparr>)"
| turn: "nlm_reachable s \<Longrightarrow> nlm_turn s s' \<Longrightarrow> nlm_reachable s'"


section \<open>Invariant\<close>

fun waker_of :: "('k, 'v) MapAction \<Rightarrow> nat" where
  "waker_of (GetOrCreate key factory waker) = waker"
| "waker_of Quit = 0"

text \<open>
  A sleeping task has either a request of its own in the queue, or a wake-up and then its key is
  in the map; nobody has two. A task that polls still has its factory or finds its key.
\<close>

definition asker_ok :: "('k, 'v) nlm_world \<Rightarrow> nat \<Rightarrow> ('k, 'v) asker \<Rightarrow> bool" where
  "asker_ok w i a \<longleftrightarrow> (case a of
     Polling fut \<Rightarrow> i \<notin> waker_of ` set (nlm_queue w) \<union> set (nlm_woken w) \<and>
       (future_factory fut = None \<longrightarrow> nlm_contents w (future_key fut) \<noteq> None)
   | Sleeping fut \<Rightarrow> future_factory fut = None \<and>
       (i \<in> set (nlm_woken w) \<and> nlm_contents w (future_key fut) \<noteq> None \<or>
        (\<exists>f. GetOrCreate (future_key fut) f i \<in> set (nlm_queue w)))
   | Got key v \<Rightarrow> i \<notin> waker_of ` set (nlm_queue w) \<union> set (nlm_woken w) \<and> nlm_contents w key = Some v)"

definition nlm_system_ok :: "('k, 'v) nlm_system \<Rightarrow> bool" where
  "nlm_system_ok s \<longleftrightarrow> nlm_inv (nlm_shared s) \<and> finite (dom (nlm_askers s)) \<and>
     Quit \<notin> set (nlm_queue (nlm_shared s)) \<and>
     distinct (map waker_of (nlm_queue (nlm_shared s)) @ nlm_woken (nlm_shared s)) \<and>
     (\<forall>i. i \<in> waker_of ` set (nlm_queue (nlm_shared s)) \<union> set (nlm_woken (nlm_shared s)) \<longrightarrow> nlm_askers s i \<noteq> None) \<and>
     (\<forall>i a. nlm_askers s i = Some a \<longrightarrow> asker_ok (nlm_shared s) i a)"

lemma nlm_poll_ready:
  "nlm_inv w \<Longrightarrow> nlm_contents w (future_key fut) = Some v \<Longrightarrow> nlm_poll i fut w = (Ret (MapReady v, fut), w)"
  by (simp add: nlm_poll_def bind_io_def nlm_get_if_present_eq)

lemma nlm_poll_pending:
  "nlm_inv w \<Longrightarrow> nlm_contents w (future_key fut) = None \<Longrightarrow> future_factory fut = Some f \<Longrightarrow>
   nlm_poll i fut w = (Ret (MapPending, fut\<lparr>future_factory := None\<rparr>),
     w\<lparr>nlm_queue := nlm_queue w @ [GetOrCreate (future_key fut) f i]\<rparr>)"
  by (simp add: nlm_poll_def bind_io_def nlm_get_if_present_eq)

lemma nlm_world_queue [simp]:
  "nlm_inv (w\<lparr>nlm_queue := q\<rparr>) = nlm_inv w" "nlm_contents (w\<lparr>nlm_queue := q\<rparr>) = nlm_contents w"
  by (simp_all add: nlm_inv_def nlm_contents_def)

text \<open>One action of the updater: it never loses an entry, and the asker's key is there afterwards.\<close>

lemma nlm_handle_cases:
  assumes "nlm_inv w" "nlm_handle (GetOrCreate k f i) w = (Ret b, w')"
  shows "b" "nlm_inv w'" "nlm_contents w \<subseteq>\<^sub>m nlm_contents w'" "nlm_contents w' k \<noteq> None"
    "nlm_queue w' = nlm_queue w" "nlm_woken w' = nlm_woken w @ [i]"
proof -
  have "b \<and> nlm_inv w' \<and> nlm_contents w \<subseteq>\<^sub>m nlm_contents w' \<and> nlm_contents w' k \<noteq> None \<and>
      nlm_queue w' = nlm_queue w \<and> nlm_woken w' = nlm_woken w @ [i]"
  proof (cases "nlm_contents w k")
    case (Some v)
    then show ?thesis using assms nlm_handle_present [OF assms(1) Some, of f i] by auto
  next
    case None
    obtain w1 where w1: "nlm_handle (GetOrCreate k f i) w = (Ret True, w1)" "nlm_inv w1"
        "nlm_contents w1 = (nlm_contents w)(k \<mapsto> f k)" "nlm_queue w1 = nlm_queue w"
        "nlm_woken w1 = nlm_woken w @ [i]"
      by (rule nlm_handle_absent [OF assms(1) None, of f i]) (rule that)
    from w1(1) assms(2) have "b" "w' = w1" by simp_all
    with w1(2-) None show ?thesis by (auto simp: map_le_def)
  qed
  then show "b" "nlm_inv w'" "nlm_contents w \<subseteq>\<^sub>m nlm_contents w'" "nlm_contents w' k \<noteq> None"
    "nlm_queue w' = nlm_queue w" "nlm_woken w' = nlm_woken w @ [i]"
    by auto
qed

lemma asker_ok_cong:
  "nlm_queue w' = nlm_queue w \<Longrightarrow> nlm_woken w' = nlm_woken w \<Longrightarrow> nlm_contents w' = nlm_contents w \<Longrightarrow>
   asker_ok w' i a = asker_ok w i a"
  by (simp add: asker_ok_def cong: asker.case_cong)

lemma nlm_system_okD:
  assumes "nlm_system_ok s"
  shows "nlm_inv (nlm_shared s)" "finite (dom (nlm_askers s))" "Quit \<notin> set (nlm_queue (nlm_shared s))"
    "distinct (map waker_of (nlm_queue (nlm_shared s)) @ nlm_woken (nlm_shared s))"
    "i \<in> waker_of ` set (nlm_queue (nlm_shared s)) \<union> set (nlm_woken (nlm_shared s)) \<Longrightarrow> nlm_askers s i \<noteq> None"
    "nlm_askers s i = Some a \<Longrightarrow> asker_ok (nlm_shared s) i a"
  using assms by (auto simp: nlm_system_ok_def)

lemma nlm_system_ok_start: "nlm_system_ok nlm_system_start"
  by (simp add: nlm_system_ok_def nlm_system_start_def nlm_new_inv)
    (simp add: NonLockingMap_new_def)

lemma nlm_system_ok_ask:
  assumes "nlm_system_ok s" "nlm_askers s i = None"
  shows "nlm_system_ok (s\<lparr>nlm_askers := (nlm_askers s)(i \<mapsto> Polling (nlm_get key factory))\<rparr>)"
proof -
  have "asker_ok (nlm_shared s) i (Polling (nlm_get key factory))"
    using nlm_system_okD(5) [OF assms(1), of i] assms(2) by (auto simp: asker_ok_def nlm_get_def)
  with assms show ?thesis by (simp add: nlm_system_ok_def)
qed

text \<open>What a poll of a task in a well-formed system does: it never panics.\<close>

lemma nlm_poll_cases:
  assumes "nlm_system_ok s" "nlm_askers s i = Some (Polling fut)"
  obtains (ready) v where "nlm_contents (nlm_shared s) (future_key fut) = Some v"
      "nlm_poll i fut (nlm_shared s) = (Ret (MapReady v, fut), nlm_shared s)"
  | (pending) f where "nlm_contents (nlm_shared s) (future_key fut) = None" "future_factory fut = Some f"
      "nlm_poll i fut (nlm_shared s) = (Ret (MapPending, fut\<lparr>future_factory := None\<rparr>),
        (nlm_shared s)\<lparr>nlm_queue := nlm_queue (nlm_shared s) @ [GetOrCreate (future_key fut) f i]\<rparr>)"
proof -
  note inv = nlm_system_okD(1) [OF assms(1)] and ok = nlm_system_okD(6) [OF assms]
  show thesis
  proof (cases "nlm_contents (nlm_shared s) (future_key fut)")
    case None
    with ok obtain f where "future_factory fut = Some f" by (auto simp: asker_ok_def)
    with None show thesis using nlm_poll_pending [OF inv] by (intro pending) auto
  qed (use nlm_poll_ready [OF inv] ready in auto)
qed

lemma nlm_system_ok_poll:
  assumes ok: "nlm_system_ok s" and i: "nlm_askers s i = Some (Polling fut)"
  shows "nlm_contents (nlm_shared s) (future_key fut) = Some v \<Longrightarrow>
      nlm_system_ok (s\<lparr>nlm_askers := (nlm_askers s)(i \<mapsto> Got (future_key fut) v)\<rparr>)"
    "nlm_system_ok (s\<lparr>nlm_shared := (nlm_shared s)\<lparr>nlm_queue := nlm_queue (nlm_shared s) @ [GetOrCreate (future_key fut) f i]\<rparr>,
      nlm_askers := (nlm_askers s)(i \<mapsto> Sleeping (fut\<lparr>future_factory := None\<rparr>))\<rparr>)"
proof -
  have asleep: "i \<notin> waker_of ` set (nlm_queue (nlm_shared s)) \<union> set (nlm_woken (nlm_shared s))"
    using nlm_system_okD(6) [OF ok i] by (auto simp: asker_ok_def)
  then show "nlm_contents (nlm_shared s) (future_key fut) = Some v \<Longrightarrow>
      nlm_system_ok (s\<lparr>nlm_askers := (nlm_askers s)(i \<mapsto> Got (future_key fut) v)\<rparr>)"
    using ok by (auto simp: nlm_system_ok_def asker_ok_def)
  let ?w = "(nlm_shared s)\<lparr>nlm_queue := nlm_queue (nlm_shared s) @ [GetOrCreate (future_key fut) f i]\<rparr>"
  have "asker_ok ?w j a" if "nlm_askers s j = Some a" "j \<noteq> i" for j a
    using nlm_system_okD(6) [OF ok that(1)] that(2) by (auto simp: asker_ok_def split: asker.splits)
  moreover have "asker_ok ?w i (Sleeping (fut\<lparr>future_factory := None\<rparr>))"
    by (auto simp: asker_ok_def)
  ultimately show "nlm_system_ok (s\<lparr>nlm_shared := ?w,
      nlm_askers := (nlm_askers s)(i \<mapsto> Sleeping (fut\<lparr>future_factory := None\<rparr>))\<rparr>)"
    using ok i asleep by (auto simp: nlm_system_ok_def)
qed

lemma nlm_system_ok_wake:
  assumes ok: "nlm_system_ok s" and i: "nlm_askers s i = Some (Sleeping fut)"
    and woken: "i \<in> set (nlm_woken (nlm_shared s))"
  shows "nlm_system_ok (s\<lparr>nlm_shared := (nlm_shared s)\<lparr>nlm_woken := removeAll i (nlm_woken (nlm_shared s))\<rparr>,
    nlm_askers := (nlm_askers s)(i \<mapsto> Polling fut)\<rparr>)"
proof -
  let ?w = "(nlm_shared s)\<lparr>nlm_woken := removeAll i (nlm_woken (nlm_shared s))\<rparr>"
  have out: "i \<notin> waker_of ` set (nlm_queue (nlm_shared s))"
    using nlm_system_okD(4) [OF ok] woken by auto
  have "asker_ok ?w j a" if "nlm_askers s j = Some a" "j \<noteq> i" for j a
    using nlm_system_okD(6) [OF ok that(1)] that(2) by (auto simp: asker_ok_def split: asker.splits)
  moreover have "asker_ok ?w i (Polling fut)"
    using nlm_system_okD(6) [OF ok i] out by (force simp: asker_ok_def)
  ultimately show ?thesis
    using ok by (auto simp: nlm_system_ok_def distinct_removeAll)
qed

lemma nlm_system_ok_update:
  assumes ok: "nlm_system_ok s" and q: "nlm_queue (nlm_shared s) = GetOrCreate k f i # rest"
    and run: "nlm_handle (GetOrCreate k f i) ((nlm_shared s)\<lparr>nlm_queue := rest\<rparr>) = (Ret b, w)"
  shows "nlm_system_ok (s\<lparr>nlm_shared := w\<rparr>)"
proof -
  have inv: "nlm_inv ((nlm_shared s)\<lparr>nlm_queue := rest\<rparr>)" using nlm_system_okD(1) [OF ok] by simp
  note w = nlm_handle_cases [OF inv run]
  have grows: "nlm_contents w key = Some v" if "nlm_contents (nlm_shared s) key = Some v" for key v
    using w(3) that by (auto simp: map_le_def dom_def)
  note dist = nlm_system_okD(4) [OF ok, unfolded q]
  have "asker_ok w j a" if a: "nlm_askers s j = Some a" for j a
  proof (cases "j = i")
    case True
    obtain fut where fut: "a = Sleeping fut"
      using nlm_system_okD(6) [OF ok a] q True by (auto simp: asker_ok_def split: asker.splits)
    then have "future_factory fut = None" "future_key fut = k"
      using nlm_system_okD(6) [OF ok a] dist q True by (force simp: asker_ok_def)+
    then show ?thesis using w(4-6) True fut by (auto simp: asker_ok_def)
  next
    case False
    then show ?thesis
      using nlm_system_okD(6) [OF ok a] w(5,6) q grows by (auto simp: asker_ok_def split: asker.splits)
  qed
  then show ?thesis using ok w q by (auto simp: nlm_system_ok_def)
qed

lemma nlm_turn_ok: "nlm_turn s s' \<Longrightarrow> nlm_system_ok s \<Longrightarrow> nlm_system_ok s'"
proof (induction rule: nlm_turn.induct)
  case (poll_ready s i fut v fut' w)
  from poll_ready(3,1) show ?case
    by (cases rule: nlm_poll_cases) (use poll_ready nlm_system_ok_poll(1) in auto)
next
  case (poll_pending s i fut fut' w)
  from poll_pending(3,1) show ?case
    by (cases rule: nlm_poll_cases) (use poll_pending nlm_system_ok_poll(2) in auto)
next
  case (wake s i fut)
  then show ?case by (intro nlm_system_ok_wake)
next
  case (update s action rest w)
  then show ?case
    using nlm_system_ok_update nlm_system_okD(3) [OF update(3)] by (cases action) auto
qed

lemma nlm_reachable_ok: "nlm_reachable s \<Longrightarrow> nlm_system_ok s"
  by (induction rule: nlm_reachable.induct)
    (simp_all add: nlm_system_ok_start nlm_system_ok_ask nlm_turn_ok)


section \<open>Progress\<close>

fun asker_work :: "('k, 'v) asker option \<Rightarrow> nat" where
  "asker_work (Some (Polling fut)) = (if future_factory fut = None then 1 else 3)"
| "asker_work (Some (Sleeping fut)) = 2"
| "asker_work _ = 0"

definition nlm_work :: "('k, 'v) nlm_system \<Rightarrow> nat \<times> nat" where
  "nlm_work s = (total (\<lambda>i. asker_work (nlm_askers s i)), length (nlm_queue (nlm_shared s)))"

definition less_work :: "((nat \<times> nat) \<times> (nat \<times> nat)) set" where
  "less_work = less_than <*lex*> less_than"

lemma wf_less_work: "wf less_work"
  by (simp add: less_work_def wf_lex_prod)

lemma finitely_many_askers:
  assumes "nlm_system_ok s"
  shows "finitely_many (\<lambda>i. asker_work (nlm_askers s i))"
  unfolding finitely_many_def
proof (rule finite_subset [OF _ nlm_system_okD(2) [OF assms]])
  show "{i. asker_work (nlm_askers s i) \<noteq> 0} \<subseteq> dom (nlm_askers s)"
  proof
    fix i
    assume "i \<in> {i. asker_work (nlm_askers s i) \<noteq> 0}"
    then show "i \<in> dom (nlm_askers s)" by (cases "nlm_askers s i") auto
  qed
qed

lemma asker_turn_work:
  assumes "nlm_system_ok s" "nlm_askers s i = Some a" "asker_work (Some a') < asker_work (Some a)"
  shows "(nlm_work (s\<lparr>nlm_shared := w, nlm_askers := (nlm_askers s)(i \<mapsto> a')\<rparr>), nlm_work s) \<in> less_work"
proof -
  let ?f = "\<lambda>j. asker_work (nlm_askers s j)"
  have "(\<lambda>j. asker_work (((nlm_askers s)(i \<mapsto> a')) j)) = ?f(i := asker_work (Some a'))"
    by (simp add: fun_eq_iff)
  with total_less_upd [OF finitely_many_askers [OF assms(1)], of "asker_work (Some a')" i] assms(2,3)
  show ?thesis by (simp add: nlm_work_def less_work_def)
qed

lemma nlm_turn_work: "nlm_turn s s' \<Longrightarrow> nlm_system_ok s \<Longrightarrow> (nlm_work s', nlm_work s) \<in> less_work"
proof (induction rule: nlm_turn.induct)
  case (poll_ready s i fut v fut' w)
  then show ?case by (intro asker_turn_work) auto
next
  case (poll_pending s i fut fut' w)
  from poll_pending(3,1) show ?case
    by (cases rule: nlm_poll_cases) (use poll_pending in \<open>auto intro!: asker_turn_work\<close>)
next
  case (wake s i fut)
  from nlm_system_okD(6) [OF wake(3,1)] have "future_factory fut = None" by (simp add: asker_ok_def)
  with wake show ?case by (intro asker_turn_work) auto
next
  case (update s action rest w)
  then obtain k f i where a: "action = GetOrCreate k f i"
    using nlm_system_okD(3) [OF update(3)] by (cases action) auto
  have "nlm_inv ((nlm_shared s)\<lparr>nlm_queue := rest\<rparr>)" using nlm_system_okD(1) [OF update(3)] by simp
  from nlm_handle_cases(5) [OF this update(2) [unfolded a]] update(1) show ?case
    by (simp add: nlm_work_def less_work_def)
qed

lemma nlm_run_reachable: "nlm_turn\<^sup>*\<^sup>* s s' \<Longrightarrow> nlm_reachable s \<Longrightarrow> nlm_reachable s'"
  by (induction rule: rtranclp_induct) (auto intro: nlm_reachable.turn)

lemma nlm_update_enabled:
  assumes ok: "nlm_system_ok s" and q: "nlm_queue (nlm_shared s) = action # rest"
  obtains w where "nlm_handle action ((nlm_shared s)\<lparr>nlm_queue := rest\<rparr>) = (Ret True, w)" "nlm_queue w = rest"
proof -
  obtain k f i where a: "action = GetOrCreate k f i"
    using nlm_system_okD(3) [OF ok] q by (cases action) auto
  let ?w = "(nlm_shared s)\<lparr>nlm_queue := rest\<rparr>"
  have inv: "nlm_inv ?w" using nlm_system_okD(1) [OF ok] by simp
  show thesis
  proof (cases "nlm_contents ?w k")
    case None
    show ?thesis
      by (rule nlm_handle_absent [OF inv None, of f i]) (use that a in simp)
  next
    case (Some v)
    show ?thesis using nlm_handle_present [OF inv Some, of f i] that a by simp
  qed
qed

text \<open>As long as a task has not got its value, there is something to do.\<close>

lemma nlm_turn_enabled:
  assumes ok: "nlm_system_ok s" and i: "nlm_askers s i = Some a" "\<nexists>k v. a = Got k v"
  shows "\<exists>s'. nlm_turn s s'"
proof (cases a)
  case (Polling fut)
  with i(1) have p: "nlm_askers s i = Some (Polling fut)" by simp
  from ok p show ?thesis
  proof (cases rule: nlm_poll_cases)
    case (ready v)
    show ?thesis using nlm_turn.poll_ready [OF p ready(2)] by (rule exI)
  next
    case (pending f)
    show ?thesis using nlm_turn.poll_pending [OF p pending(3)] by (rule exI)
  qed
next
  case (Sleeping fut)
  with i(1) have p: "nlm_askers s i = Some (Sleeping fut)" by simp
  show ?thesis
  proof (cases "i \<in> set (nlm_woken (nlm_shared s))")
    case True
    show ?thesis using nlm_turn.wake [OF p True] by (rule exI)
  next
    case False
    then obtain action rest where q: "nlm_queue (nlm_shared s) = action # rest"
      using nlm_system_okD(6) [OF ok p]
      by (cases "nlm_queue (nlm_shared s)") (auto simp: asker_ok_def)
    obtain w where "nlm_handle action ((nlm_shared s)\<lparr>nlm_queue := rest\<rparr>) = (Ret True, w)"
      by (rule nlm_update_enabled [OF ok q])
    from nlm_turn.update [OF q this] show ?thesis by (rule exI)
  qed
qed (use i(2) in auto)

lemma nlm_got_stays:
  assumes "nlm_turn\<^sup>*\<^sup>* s s'" "nlm_askers s i = Some (Got k v)"
  shows "nlm_askers s' i = Some (Got k v)"
  using assms(1)
proof (induction rule: rtranclp_induct)
  case (step s1 s2)
  from step(2,3) show ?case by (induction rule: nlm_turn.induct) auto
qed (rule assms(2))

text \<open>One task asks for a key: it polls, sleeps, is woken by the updater, and has its value.\<close>

lemma demo_get:
  obtains s0 s :: "(string, string) nlm_system" where "nlm_reachable s0" "nlm_turn\<^sup>*\<^sup>* s0 s"
    "nlm_askers s0 0 = Some (Polling (nlm_get ''d'' (\<lambda>k. ''v'')))" "nlm_askers s 0 = Some (Got ''d'' ''v'')"
    "\<nexists>s'. nlm_turn s s'"
proof -
  let ?f = "(\<lambda>k. ''v'') :: string \<Rightarrow> string" and ?fut = "\<lparr>future_key = ''d'', future_factory = None\<rparr> :: (string, string) MapReturnFuture"
  let ?new = "NonLockingMap_new :: (string, string) nlm_world"
  let ?s0 = "\<lparr>nlm_shared = ?new, nlm_askers = [0 \<mapsto> Polling (nlm_get ''d'' ?f)]\<rparr>"
  let ?s1 = "\<lparr>nlm_shared = ?new\<lparr>nlm_queue := [GetOrCreate ''d'' ?f 0]\<rparr>, nlm_askers = [0 \<mapsto> Sleeping ?fut]\<rparr>"
  let ?w = "\<lparr>nlm_heap = [1 \<mapsto> [(''d'', ''v'')]], nlm_next = 2, nlm_map_ptr = 1, nlm_moved_map = 1,
    nlm_queue = [], nlm_woken = [0]\<rparr>"
  let ?s2 = "\<lparr>nlm_shared = ?w, nlm_askers = [0 \<mapsto> Sleeping ?fut]\<rparr>"
  let ?s3 = "\<lparr>nlm_shared = ?w\<lparr>nlm_woken := []\<rparr>, nlm_askers = [0 \<mapsto> Polling ?fut]\<rparr>"
  let ?s4 = "\<lparr>nlm_shared = ?w\<lparr>nlm_woken := []\<rparr>, nlm_askers = [0 \<mapsto> Got ''d'' ''v'']\<rparr>"
  note defs = nlm_poll_def nlm_get_if_present_def nlm_get_sync_def nlm_get_def bind_io_def NonLockingMap_new_def
    nlm_handle_def nlm_create_if_necessary_def Let_def
  have start: "nlm_reachable ?s0"
    using nlm_reachable.ask [OF nlm_reachable.start, of 0 "''d''" ?f] by (simp add: nlm_system_start_def)
  have t1: "nlm_turn ?s0 ?s1"
    using nlm_turn.poll_pending [of ?s0 0 "nlm_get ''d'' ?f" ?fut "nlm_shared ?s1"] by (simp add: defs)
  have t2: "nlm_turn ?s1 ?s2"
    using nlm_turn.update [of ?s1 "GetOrCreate ''d'' ?f 0" "[]" ?w]
    by (simp add: defs fun_upd_twist fun_eq_iff)
  have t3: "nlm_turn ?s2 ?s3"
    using nlm_turn.wake [of ?s2 0 ?fut] by simp
  have t4: "nlm_turn ?s3 ?s4"
    using nlm_turn.poll_ready [of ?s3 0 ?fut "''v''" ?fut "nlm_shared ?s3"] by (simp add: defs)
  note run = rtranclp.rtrancl_into_rtrancl [where r = "nlm_turn :: (string, string) nlm_system \<Rightarrow> _"]
  have "nlm_turn\<^sup>*\<^sup>* ?s0 ?s4"
    by (rule run [OF run [OF run [OF r_into_rtranclp [where r = nlm_turn, OF t1] t2] t3] t4])
  moreover have "\<nexists>s'. nlm_turn ?s4 s'"
    by (auto elim!: nlm_turn.cases split: if_splits)
  ultimately show thesis
    by (intro that [of ?s0 ?s4] start) simp_all
qed





end
