(* ===== verification/Timer.thy ===== *)
theory Timer
  imports Messages Channels
begin

text \<open>
  \<open>src/asynchronous/delayable_stream.rs\<close>: the resettable timer behind both heartbeats. The
  asynchronous functions of the source become the states their compiled futures have, and a
  poll of the future becomes the function \<open>poll_task\<close>; the clock, the commands that have
  arrived, whether every resetter has been dropped, and the random choice of \<open>select!\<close> are its
  arguments. Durations and instants are natural numbers of nanoseconds.
\<close>

section \<open>Durations, commands and the resetter\<close>

type_synonym duration = nat
type_synonym instant = nat

definition from_millis :: "nat \<Rightarrow> duration" where
  "from_millis ms = ms * 1000000"

definition as_millis :: "duration \<Rightarrow> nat" where
  "as_millis d = d div 1000000"

lemma as_millis_from_millis [simp]: "as_millis (from_millis ms) = ms"
  by (simp add: as_millis_def from_millis_def)

lemma as_millis_0 [simp]: "as_millis 0 = 0"
  by (simp add: as_millis_def)

lemma as_millis_pos: "as_millis d \<noteq> 0 \<Longrightarrow> 0 < d"
  by (cases d) (simp_all add: as_millis_def)

datatype ResettableTimerCommand = Reset | ChangePeriod duration

record 'cx ResettableTimerResetter =
  resetter_sender :: 'cx

definition resetter_reset ::
  "('cx, ResettableTimerCommand, 'w) channel_send \<Rightarrow> 'cx ResettableTimerResetter \<Rightarrow>
    ('w, StomperError + unit) io" where
  "resetter_reset tx_send self =
     bind_io (tx_send (resetter_sender self) Reset)
       (\<lambda>r. ret_io (map_err (\<lambda>_. StomperError_new ''Error resetting stream'') r))"

definition resetter_change_period ::
  "('cx, ResettableTimerCommand, 'w) channel_send \<Rightarrow> 'cx ResettableTimerResetter \<Rightarrow> duration \<Rightarrow>
    ('w, StomperError + unit) io" where
  "resetter_change_period tx_send self new_period =
     bind_io (tx_send (resetter_sender self) (ChangePeriod new_period))
       (\<lambda>r. ret_io (map_err (\<lambda>_. StomperError_new ''Error updating stream period'') r))"


section \<open>The timer's task\<close>

text \<open>
  \<open>Starting\<close>: \<open>create_task_with_receiver\<close> before its first poll. \<open>AwaitingCommand\<close>: the branch
  for a period of zero milliseconds. \<open>Selecting\<close>: the \<open>select!\<close> between the sleep, with its
  deadline, and the receiver. \<open>NoReceiver\<close>: \<open>create_task_no_receiver\<close>, whose sleep exists from
  the call on. \<open>Stuck\<close>: \<open>pending()\<close>.
\<close>

datatype TimerTask =
    Starting duration
  | AwaitingCommand duration
  | Selecting duration instant
  | NoReceiver duration instant
  | Stuck

fun command_to_new_period :: "duration \<Rightarrow> ResettableTimerCommand \<Rightarrow> duration" where
  "command_to_new_period period (ChangePeriod new_period) = new_period"
| "command_to_new_period period Reset = period"

text \<open>\<open>StreamState::Fired\<close> carries the task that replaces the finished one.\<close>

datatype TaskPoll = TaskPending TimerTask | TaskFired TimerTask

definition create_task_no_receiver :: "instant \<Rightarrow> duration \<Rightarrow> TimerTask" where
  "create_task_no_receiver now period = NoReceiver period (now + period)"

function poll_task ::
  "bool \<Rightarrow> instant \<Rightarrow> TimerTask \<Rightarrow> ResettableTimerCommand list \<Rightarrow> bool \<Rightarrow>
    TaskPoll \<times> ResettableTimerCommand list" where
  "poll_task sleep_first now (Starting period) commands gone =
     (if as_millis period = 0
      then poll_task sleep_first now (AwaitingCommand period) commands gone
      else poll_task sleep_first now (Selecting period (now + period)) commands gone)"
| "poll_task sleep_first now (AwaitingCommand period) commands gone =
     (case commands of
        [] \<Rightarrow> (TaskPending (if gone then Stuck else AwaitingCommand period), [])
      | command # rest \<Rightarrow>
          poll_task sleep_first now (Starting (command_to_new_period period command)) rest gone)"
| "poll_task sleep_first now (Selecting period deadline) commands gone =
     (if deadline \<le> now \<and> (sleep_first \<or> commands = [] \<and> \<not> gone)
      then (TaskFired (Starting period), commands)
      else case commands of
        [] \<Rightarrow>
          if gone
          then poll_task sleep_first now (create_task_no_receiver now period) [] gone
          else (TaskPending (Selecting period deadline), [])
      | command # rest \<Rightarrow>
          poll_task sleep_first now (Starting (command_to_new_period period command)) rest gone)"
| "poll_task sleep_first now (NoReceiver period deadline) commands gone =
     (if deadline \<le> now then (TaskFired (create_task_no_receiver now period), commands)
      else (TaskPending (NoReceiver period deadline), commands))"
| "poll_task sleep_first now Stuck commands gone = (TaskPending Stuck, commands)"
  by pat_completeness auto
termination
  by (relation "measures [\<lambda>(_, _, t, cs, _). length cs,
        \<lambda>(_, _, t, _, _). case t of Starting _ \<Rightarrow> 2 | Selecting _ _ \<Rightarrow> 1 | AwaitingCommand _ \<Rightarrow> 1 | _ \<Rightarrow> 0]")
    (auto simp: create_task_no_receiver_def)

text \<open>
  A task runs on the executor whether or not the stream is polled. The handle of a finished
  task holds the handle of its successor.
\<close>

datatype JoinHandle = Running TimerTask | Completed JoinHandle

fun run_handle ::
  "bool \<Rightarrow> instant \<Rightarrow> JoinHandle \<Rightarrow> ResettableTimerCommand list \<Rightarrow> bool \<Rightarrow>
    JoinHandle \<times> ResettableTimerCommand list" where
  "run_handle sleep_first now (Running task) commands gone =
     (case poll_task sleep_first now task commands gone of
        (TaskPending task', rest) \<Rightarrow> (Running task', rest)
      | (TaskFired task', rest) \<Rightarrow> (Completed (Running task'), rest))"
| "run_handle sleep_first now (Completed next_task) commands gone =
     (case run_handle sleep_first now next_task commands gone of
        (next_task', rest) \<Rightarrow> (Completed next_task', rest))"


section \<open>The stream\<close>

record 'rx ResettableTimer =
  timer_period :: duration
  timer_receiver :: "'rx option"
  timer_task :: "JoinHandle option"

definition ResettableTimer_create ::
  "('w, 'cx \<times> 'rx) io \<Rightarrow> duration \<Rightarrow>
    ('w, 'rx ResettableTimer \<times> 'cx ResettableTimerResetter) io" where
  "ResettableTimer_create unbounded_channel period =
     bind_io unbounded_channel (\<lambda>(sender, receiver). ret_io
       (\<lparr>timer_period = period, timer_receiver = Some receiver, timer_task = None\<rparr>,
        \<lparr>resetter_sender = sender\<rparr>))"

definition ResettableTimer_default ::
  "('w, 'cx \<times> 'rx) io \<Rightarrow> ('w, 'rx ResettableTimer \<times> 'cx ResettableTimerResetter) io" where
  "ResettableTimer_default unbounded_channel = ResettableTimer_create unbounded_channel (from_millis 0)"

datatype 'a Poll = PollPending | PollReady 'a

text \<open>
  The methods act on the timer itself, so the world of these computations is the timer.
  \<open>prompt\<close> in \<open>initialise\<close> is what the executor has done with the task between its spawn and
  the first poll of its handle.
\<close>

definition poll_existing_task :: "('rx ResettableTimer, unit option Poll) io" where
  "poll_existing_task self =
     (case timer_task self of
        None \<Rightarrow> (Panic ''called `Option::unwrap()` on a `None` value'', self)
      | Some (Completed new_task) \<Rightarrow>
          (Ret (PollReady (Some ())), self\<lparr>timer_task := Some new_task\<rparr>)
      | Some (Running _) \<Rightarrow> (Ret PollPending, self))"

definition initialise :: "(JoinHandle \<Rightarrow> JoinHandle) \<Rightarrow> ('rx ResettableTimer, unit option Poll) io" where
  "initialise prompt self =
     (case timer_receiver self of
        None \<Rightarrow> (Panic ''Bad state: neither remote not receiver present'', self)
      | Some receiver \<Rightarrow>
          let task = prompt (Running (Starting (timer_period self)));
              self' = self\<lparr>timer_receiver := None, timer_task := Some task\<rparr>
          in (Ret (case task of Completed _ \<Rightarrow> PollReady None | Running _ \<Rightarrow> PollPending), self'))"

definition poll_next :: "(JoinHandle \<Rightarrow> JoinHandle) \<Rightarrow> ('rx ResettableTimer, unit option Poll) io" where
  "poll_next prompt self =
     (if timer_task self \<noteq> None then poll_existing_task self else initialise prompt self)"

text \<open>
  \<open>Drop\<close>: the task behind the handle is aborted. Aborting a finished task does nothing, and
  dropping its output detaches the successor; the result is what goes on running.
\<close>

fun abort :: "JoinHandle \<Rightarrow> JoinHandle option" where
  "abort (Running task) = None"
| "abort (Completed next_task) = Some next_task"

definition drop_timer :: "'rx ResettableTimer \<Rightarrow> JoinHandle option" where
  "drop_timer self = Option.bind (timer_task self) abort"

end
