(* ===== verification/Session.thy ===== *)
theory Session
  imports Clients Timer
begin

text \<open>
  The session of one client, \<open>src/asynchronous/client.rs\<close>: the proxy through which destinations
  reach the client (\<open>AsyncStompClient\<close>), the session's state (\<open>ClientSession\<close>) and its event
  handler. The frames are the data that \<open>stomp_parser\<close> parses and serialises, reduced to the
  parts the session reads and writes.
\<close>

section \<open>Frames\<close>

text \<open>
  The code compares protocol versions with \<open>V1_2\<close> only, so the other ones are numbered.
\<close>

datatype StompVersion = V1_2 | OtherVersion nat

record HeartBeatIntervalls =
  supplied :: "32 word"
  expected :: "32 word"

definition HeartBeatIntervalls_new :: "32 word \<Rightarrow> 32 word \<Rightarrow> HeartBeatIntervalls" where
  "HeartBeatIntervalls_new s e = \<lparr>supplied = s, expected = e\<rparr>"

record ConnectFrame =
  accept_version :: "StompVersion list"
  login :: "string option"
  passcode :: "string option"
  heartbeat :: HeartBeatIntervalls

record SubscribeFrame =
  subscribe_destination :: string
  subscribe_id :: string

record SendFrame =
  send_destination :: string
  send_body :: "bytes option"

record UnsubscribeFrame =
  unsubscribe_id :: string

text \<open>The session ignores what the other frames carry.\<close>

datatype ClientFrame =
    Connect ConnectFrame
  | Subscribe SubscribeFrame
  | Send SendFrame
  | Disconnect
  | Unsubscribe UnsubscribeFrame
  | Abort
  | Ack
  | Begin
  | Commit
  | Nack

record MessageFrame =
  frame_message_id :: string
  frame_destination :: string
  frame_subscription :: string
  frame_content_type :: string
  frame_content_length :: "32 word"
  frame_body :: bytes

record ConnectedFrame =
  connected_version :: StompVersion
  connected_heartbeat :: HeartBeatIntervalls
  connected_session :: "string option"
  connected_server :: "string option"

datatype ServerFrame =
    ConnectedF ConnectedFrame
  | MessageF MessageFrame
  | ErrorF string

text \<open>\<open>Either<ServerFrame, Vec<u8>>\<close>.\<close>

type_synonym ServerMessage = "ServerFrame + bytes"

definition EOL :: bytes where
  "EOL = [10]"

definition LINGER_TIME :: nat where
  "LINGER_TIME = 1000"

definition HEARTBEAT_BUFFER_PERCENT :: "32 word" where
  "HEARTBEAT_BUFFER_PERCENT = 20"


section \<open>Events and the proxy\<close>

datatype ClientState = Alive | Dead

datatype ClientEvent =
    EvConnected HeartBeatIntervalls
  | EvClientFrame "StomperError + ClientFrame"
  | EvClientHeartbeat
  | EvServerMessage SubscriptionId OutboundMessage
  | EvSubscribed DestinationId SubscriptionId "StomperError + SubscriptionId"
  | EvUnsubscribed SubscriptionId "StomperError + SubscriptionId"
  | EvError string
  | EvHeartbeat
  | EvClose

record 'tx AsyncStompClient =
  client_sender :: 'tx

definition AsyncStompClient_create :: "'tx \<Rightarrow> 'tx AsyncStompClient" where
  [simp]: "AsyncStompClient_create sender = \<lparr>client_sender = sender\<rparr>"

text \<open>A failing send is logged only.\<close>

definition send_event ::
  "('tx, ClientEvent, 'w) channel_send \<Rightarrow> 'tx AsyncStompClient \<Rightarrow> ClientEvent \<Rightarrow> ('w, unit) io" where
  "send_event tx_send self event = bind_io (tx_send (client_sender self) event) (\<lambda>_. ret_io ())"

definition unwrap_subscriber_sub_id :: "SubscriptionId option \<Rightarrow> ('w, SubscriptionId) io" where
  "unwrap_subscriber_sub_id subscriber_sub_id =
     (case subscriber_sub_id of
        Some i \<Rightarrow> ret_io i
      | None \<Rightarrow> panic_io ''STOMP requires subscriptions to have a client-provided identifier'')"

definition asc_subscribe_callback ::
  "('tx, ClientEvent, 'w) channel_send \<Rightarrow> 'tx AsyncStompClient \<Rightarrow> DestinationId \<Rightarrow>
    SubscriptionId option \<Rightarrow> StomperError + SubscriptionId \<Rightarrow> ('w, unit) io" where
  "asc_subscribe_callback tx_send self destination_id client_subscription_id subscribe_result =
     bind_io (unwrap_subscriber_sub_id client_subscription_id)
       (\<lambda>i. send_event tx_send self (EvSubscribed destination_id i subscribe_result))"

definition asc_unsubscribe_callback ::
  "('tx, ClientEvent, 'w) channel_send \<Rightarrow> 'tx AsyncStompClient \<Rightarrow> SubscriptionId option \<Rightarrow>
    StomperError + SubscriptionId \<Rightarrow> ('w, unit) io" where
  "asc_unsubscribe_callback tx_send self client_subscription_id unsubscribe_result =
     bind_io (unwrap_subscriber_sub_id client_subscription_id)
       (\<lambda>i. send_event tx_send self (EvUnsubscribed i unsubscribe_result))"

definition asc_send ::
  "('tx, ClientEvent, 'w) channel_send \<Rightarrow> 'tx AsyncStompClient \<Rightarrow> SubscriptionId \<Rightarrow>
    SubscriptionId option \<Rightarrow> OutboundMessage \<Rightarrow> ('w, StomperError + unit) io" where
  "asc_send tx_send self _ client_subscription_id msg =
     bind_io (unwrap_subscriber_sub_id client_subscription_id)
       (\<lambda>i. bind_io (tx_send (client_sender self) (EvServerMessage i msg))
         (\<lambda>r. ret_io (map_err
           (\<lambda>_. StomperError_new ''Unable to send message, client channel closed'') r)))"

definition async_subscriber ::
  "('tx, ClientEvent, 'w) channel_send \<Rightarrow> ('tx AsyncStompClient, 'w) Subscriber" where
  "async_subscriber tx_send =
     \<lparr>subscribe_callback = asc_subscribe_callback tx_send,
      unsubscribe_callback = asc_unsubscribe_callback tx_send,
      subscriber_send = asc_send tx_send\<rparr>"

definition async_sender :: "('tx AsyncStompClient, 'w) Sender" where
  "async_sender = \<lparr>send_callback = (\<lambda>self sender_message_id result. ret_io ())\<rparr>"


section \<open>The session\<close>

type_synonym SessionResult = "StomperError + ClientState \<times> ServerMessage option"

definition frame_result :: "ServerFrame \<Rightarrow> SessionResult" where
  "frame_result frame = Inr (Alive, Some (Inl frame))"

record ('tx, 'cx, 'ds, 'c) ClientSession =
  destinations :: 'ds
  client_proxy :: "'tx AsyncStompClient"
  active_subscriptions_by_client_id :: "(SubscriptionId, DestinationId \<times> SubscriptionId) hash_map"
  server_heartbeat_resetter :: "'cx ResettableTimerResetter"
  client_heartbeat_resetter :: "'cx ResettableTimerResetter"
  session_client :: 'c

definition ClientSession_new ::
  "'ds \<Rightarrow> 'tx AsyncStompClient \<Rightarrow> 'cx ResettableTimerResetter \<Rightarrow> 'cx ResettableTimerResetter \<Rightarrow> 'c \<Rightarrow>
    ('tx, 'cx, 'ds, 'c) ClientSession" where
  "ClientSession_new dests proxy server_resetter client_resetter client =
     \<lparr>destinations = dests, client_proxy = proxy, active_subscriptions_by_client_id = [],
      server_heartbeat_resetter = server_resetter, client_heartbeat_resetter = client_resetter,
      session_client = client\<rparr>"

text \<open>
  What a session is generic in or gets from elsewhere: the sending ends of its two kinds of
  channel, the implementation of \<open>Destinations\<close>, the methods of the client metadata, and the
  derived \<open>Debug\<close> text of an error.
\<close>

record ('tx, 'cx, 'ds, 'c, 'w) SessionEnv =
  env_event_send :: "('tx, ClientEvent, 'w) channel_send"
  env_command_send :: "('cx, ResettableTimerCommand, 'w) channel_send"
  env_destinations :: "('ds, 'tx AsyncStompClient, 'tx AsyncStompClient, 'c, 'w) Destinations"
  env_client :: "'c Client"
  env_debug :: "StomperError \<Rightarrow> string"

text \<open>
  The future of \<open>error\<close> sends \<open>Close\<close> when it is awaited; the event loop awaits it before it
  takes the next event.
\<close>

definition session_error ::
  "('tx, 'cx, 'ds, 'c, 'w) SessionEnv \<Rightarrow> ('tx, 'cx, 'ds, 'c) ClientSession \<Rightarrow> string \<Rightarrow>
    ('w, SessionResult) io" where
  "session_error env self msg =
     then_io (send_event (env_event_send env) (client_proxy self) EvClose)
       (ret_io (frame_result (ErrorF msg)))"

definition unsubscribe ::
  "('tx, 'cx, 'ds, 'c, 'w) SessionEnv \<Rightarrow> ('tx, 'cx, 'ds, 'c) ClientSession \<Rightarrow> SubscriptionId \<Rightarrow>
    ('w, SessionResult) io" where
  "unsubscribe env self client_subscription_id =
     (case map_of (active_subscriptions_by_client_id self) client_subscription_id of
        None \<Rightarrow> session_error env self
          (''Attempt to unsubscribe from unknown subscription: '' @ sub_id_str client_subscription_id)
      | Some (destination_id, destination_sub_id) \<Rightarrow>
          then_io
            (destinations_unsubscribe (env_destinations env) (destinations self) destination_id
              destination_sub_id (client_proxy self) (session_client self))
            (ret_io (Inr (Alive, None))))"

definition subscribed ::
  "('tx, 'cx, 'ds, 'c) ClientSession \<Rightarrow> DestinationId \<Rightarrow> SubscriptionId \<Rightarrow>
    StomperError + SubscriptionId \<Rightarrow> SessionResult \<times> ('tx, 'cx, 'ds, 'c) ClientSession" where
  "subscribed self destination client_subscription_id result =
     (Inr (Alive, None),
      case result of
        Inr destination_sub_id \<Rightarrow>
          self\<lparr>active_subscriptions_by_client_id :=
            AList.update client_subscription_id (destination, destination_sub_id)
              (active_subscriptions_by_client_id self)\<rparr>
      | Inl _ \<Rightarrow> self)"

definition unsubscribed ::
  "('tx, 'cx, 'ds, 'c) ClientSession \<Rightarrow> SubscriptionId \<Rightarrow> StomperError + SubscriptionId \<Rightarrow>
    SessionResult \<times> ('tx, 'cx, 'ds, 'c) ClientSession" where
  "unsubscribed self client_subscription_id result =
     (Inr (Alive, None),
      if is_ok result
      then self\<lparr>active_subscriptions_by_client_id :=
        AList.delete client_subscription_id (active_subscriptions_by_client_id self)\<rparr>
      else self)"

definition server_message :: "SubscriptionId \<Rightarrow> OutboundMessage \<Rightarrow> SessionResult" where
  "server_message client_subscription_id msg =
     (let raw_body = out_body msg
      in frame_result (MessageF
           \<lparr>frame_message_id = msg_id_str (out_message_id msg),
            frame_destination = dest_id_str (out_destination msg),
            frame_subscription = sub_id_str client_subscription_id,
            frame_content_type = ''text/plain'',
            frame_content_length = of_nat (length raw_body),
            frame_body = raw_body\<rparr>))"

definition send_heartbeat :: SessionResult where
  "send_heartbeat = Inr (Alive, Some (Inr EOL))"

definition client_message_received ::
  "('tx, 'cx, 'ds, 'c, 'w) SessionEnv \<Rightarrow> ('tx, 'cx, 'ds, 'c) ClientSession \<Rightarrow> ('w, unit) io" where
  "client_message_received env self =
     bind_io (resetter_reset (env_command_send env) (client_heartbeat_resetter self))
       (\<lambda>_. ret_io ())"

text \<open>\<open>todo!()\<close> panics.\<close>

definition todo_panic :: "('w, 'a) io" where
  "todo_panic = panic_io ''not yet implemented''"

definition handle ::
  "('tx, 'cx, 'ds, 'c, 'w) SessionEnv \<Rightarrow> ('tx, 'cx, 'ds, 'c) ClientSession \<Rightarrow> ClientFrame \<Rightarrow>
    ('w, SessionResult) io" where
  "handle env self client_frame =
     (case client_frame of
        Connect _ \<Rightarrow> session_error env self ''Already connected.''
      | Subscribe frame \<Rightarrow>
          then_io
            (destinations_subscribe (env_destinations env) (destinations self)
              (DestinationId (subscribe_destination frame))
              (Some (SubscriptionId (subscribe_id frame)))
              (client_proxy self) (session_client self))
            (ret_io (Inr (Alive, None)))
      | Send frame \<Rightarrow>
          (case send_body frame of
             None \<Rightarrow> panic_io ''called `Option::unwrap()` on a `None` value''
           | Some body \<Rightarrow>
               then_io
                 (destinations_send (env_destinations env) (destinations self)
                   (DestinationId (send_destination frame))
                   \<lparr>sender_message_id = None, in_body = body\<rparr>
                   (client_proxy self) (session_client self))
                 (ret_io (Inr (Alive, None))))
      | Disconnect \<Rightarrow> ret_io (Inr (Dead, None))
      | Unsubscribe frame \<Rightarrow> unsubscribe env self (SubscriptionId (unsubscribe_id frame))
      | Abort \<Rightarrow> todo_panic
      | Ack \<Rightarrow> todo_panic
      | Begin \<Rightarrow> todo_panic
      | Commit \<Rightarrow> todo_panic
      | Nack \<Rightarrow> todo_panic)"

definition client_frame ::
  "('tx, 'cx, 'ds, 'c, 'w) SessionEnv \<Rightarrow> ('tx, 'cx, 'ds, 'c) ClientSession \<Rightarrow>
    StomperError + ClientFrame \<Rightarrow> ('w, SessionResult) io" where
  "client_frame env self frame =
     (case frame of
        Inl err \<Rightarrow> session_error env self (''Error processing client message: '' @ env_debug env err)
      | Inr frame \<Rightarrow> handle env self frame)"

definition connected_frame :: "'c Client \<Rightarrow> 'c \<Rightarrow> HeartBeatIntervalls \<Rightarrow> ConnectedFrame" where
  "connected_frame client_methods client hb =
     (let builder = \<lparr>connected_version = V1_2, connected_heartbeat = hb,
            connected_session = None, connected_server = None\<rparr>;
          builder = (case client_session client_methods client of
            Some s \<Rightarrow> builder\<lparr>connected_session := Some s\<rparr> | None \<Rightarrow> builder);
          builder = (case client_server client_methods client of
            Some s \<Rightarrow> builder\<lparr>connected_server := Some s\<rparr> | None \<Rightarrow> builder)
      in builder)"

definition handle_event ::
  "('tx, 'cx, 'ds, 'c, 'w) SessionEnv \<Rightarrow> ('tx, 'cx, 'ds, 'c) ClientSession \<Rightarrow> ClientEvent \<Rightarrow>
    ('w, SessionResult \<times> ('tx, 'cx, 'ds, 'c) ClientSession) io" where
  "handle_event env self event =
     (case event of
        EvConnected hb \<Rightarrow>
          ret_io (frame_result (ConnectedF (connected_frame (env_client env) (session_client self) hb)), self)
      | EvClose \<Rightarrow> ret_io (Inr (Dead, None), self)
      | EvClientFrame result \<Rightarrow>
          then_io (client_message_received env self)
            (bind_io (client_frame env self result) (\<lambda>r. ret_io (r, self)))
      | EvClientHeartbeat \<Rightarrow>
          then_io (client_message_received env self) (ret_io (Inr (Alive, None), self))
      | EvServerMessage client_subscription_id msg \<Rightarrow>
          bind_io (resetter_reset (env_command_send env) (server_heartbeat_resetter self))
            (\<lambda>r. case r of
               Inl err \<Rightarrow> panic_io (''Unexpected error: '' @ env_debug env err)
             | Inr _ \<Rightarrow> ret_io (server_message client_subscription_id msg, self))
      | EvSubscribed destination client_subscription_id result \<Rightarrow>
          ret_io (subscribed self destination client_subscription_id result)
      | EvUnsubscribed client_subscription_id result \<Rightarrow>
          ret_io (unsubscribed self client_subscription_id result)
      | EvError msg \<Rightarrow> bind_io (session_error env self msg) (\<lambda>r. ret_io (r, self))
      | EvHeartbeat \<Rightarrow> ret_io (send_heartbeat, self))"

end
