(* ===== verification/Session_Spec.thy ===== *)
theory Session_Spec
  imports Session Topic
begin

text \<open>
  What a session promises: the proxy keeps the subscriber's contract, the handler never fails
  with an error and never loses a frame, an ERROR frame is followed by the end of the session,
  the table of subscriptions follows the last word on each subscription, and the events that
  panic are known.
\<close>

section \<open>The proxy keeps the contract of a subscriber\<close>

fun notice_of_event :: "ClientEvent \<Rightarrow> notice option" where
  "notice_of_event (EvServerMessage c m) = Some (Notice_Message c m)"
| "notice_of_event (EvSubscribed d c r) = Some (Notice_Subscribed d c r)"
| "notice_of_event (EvUnsubscribed c r) = Some (Notice_Unsubscribed c r)"
| "notice_of_event _ = None"

lemma notice_of_event_message:
  "notice_of_event e = Some (Notice_Message c m) \<longleftrightarrow> e = EvServerMessage c m"
  by (cases e) auto

locale event_sender = unbounded_sender tx_send rx_open rx_queue
  for tx_send :: "('tx, ClientEvent, 'w) channel_send"
    and rx_open :: "'tx \<Rightarrow> 'w \<Rightarrow> bool" and rx_queue :: "'tx \<Rightarrow> 'w \<Rightarrow> ClientEvent list"
begin

lemma send_event_eq: "send_event tx_send p e w = (Ret (), snd (tx_send (client_sender p) e w))"
  by (simp add: send_event_def bind_send)

lemma asc_send_eq:
  "asc_send tx_send p i (Some c) m w =
     (Ret (if rx_open (client_sender p) w then Inr ()
           else Inl (StomperError_new ''Unable to send message, client channel closed'')),
      snd (tx_send (client_sender p) (EvServerMessage c m) w))"
  by (simp add: asc_send_def unwrap_subscriber_sub_id_def bind_send)

lemma async_subscriber_simps [simp]:
  "subscribe_callback (async_subscriber tx_send) p d (Some c) r =
     send_event tx_send p (EvSubscribed d c r)"
  "unsubscribe_callback (async_subscriber tx_send) p (Some c) r =
     send_event tx_send p (EvUnsubscribed c r)"
  "subscriber_send (async_subscriber tx_send) = asc_send tx_send"
  by (simp_all add: async_subscriber_def asc_subscribe_callback_def asc_unsubscribe_callback_def
      unwrap_subscriber_sub_id_def)

lemma queue_send_client:
  fixes p q :: "'tx AsyncStompClient"
  shows "rx_queue (client_sender q) (snd (tx_send (client_sender p) v w)) =
     rx_queue (client_sender q) w @ (if q = p \<and> rx_open (client_sender p) w then [v] else [])"
  by (cases p; cases q) (simp add: queue_send)

end

sublocale event_sender \<subseteq> stomp: messaging_contract "async_subscriber tx_send"
  "\<lambda>p. rx_open (client_sender p)"
  "\<lambda>p w. List.map_filter notice_of_event (rx_queue (client_sender p) w)"
  async_sender
  by unfold_locales
    (auto simp: send_event_eq asc_send_eq queue_send_client open_send map_filter_Cons
      async_sender_def)


section \<open>Results and state of the handler\<close>

fun table_step ::
  "ClientEvent \<Rightarrow> (SubscriptionId, DestinationId \<times> SubscriptionId) hash_map \<Rightarrow>
    (SubscriptionId, DestinationId \<times> SubscriptionId) hash_map" where
  "table_step (EvSubscribed d c (Inr i)) t = AList.update c (d, i) t"
| "table_step (EvUnsubscribed c (Inr i)) t = AList.delete c t"
| "table_step _ t = t"

lemmas handler_defs =
  handle_event_def client_frame_def handle_def unsubscribe_def session_error_def subscribed_def
  unsubscribed_def server_message_def send_heartbeat_def todo_panic_def frame_result_def

lemma handle_event_state:
  assumes "handle_event env s e w = (Ret (r, s'), w')"
  shows "s' = s\<lparr>active_subscriptions_by_client_id :=
    table_step e (active_subscriptions_by_client_id s)\<rparr>"
  using assms
  by (cases "(e, active_subscriptions_by_client_id s)" rule: table_step.cases)
    (auto simp: handle_event_def subscribed_def unsubscribed_def then_io_def bind_io_eq_Ret_iff
      split: sum.splits)

text \<open>
  Whatever the destinations and channels do, a handler that returns yields \<open>Ok\<close>; it says
  \<open>Dead\<close> for \<open>Close\<close> and DISCONNECT and for nothing else; and with \<open>Dead\<close> it yields no frame,
  so that cutting the stream at the first \<open>Dead\<close> loses none.
\<close>

lemma handle_event_result:
  assumes "handle_event env s e w = (Ret (r, s'), w')"
  shows "\<exists>st out. r = Inr (st, out) \<and>
    (st = Dead \<longleftrightarrow> e = EvClose \<or> e = EvClientFrame (Inr Disconnect)) \<and> (st = Dead \<longrightarrow> out = None)"
proof (cases e)
  case (EvClientFrame f)
  with assms show ?thesis
    by (auto simp: handler_defs then_io_def bind_io_eq_Ret_iff
        split: sum.splits ClientFrame.splits option.splits)
qed (use assms in \<open>auto simp: handler_defs Let_def then_io_def bind_io_eq_Ret_iff split: sum.splits\<close>)

end
