(* ===== verification/Pipeline.thy ===== *)
theory Pipeline
  imports Session_Spec
begin

text \<open>
  The streams of \<open>ClientSession::process_stream\<close> in \<open>src/asynchronous/client.rs\<close>: from the bytes
  of the client to its events, the check of the first one, the set-up of the session and its
  timers, and from the handler's results to the bytes for the client. The parser, the
  serialiser, the client factory, the sink and the constructors of channels are arguments.
\<close>

section \<open>From bytes to events\<close>

definition is_heartbeat :: "bytes \<Rightarrow> bool" where
  "is_heartbeat b \<longleftrightarrow> b = [10] \<or> b = [13, 10]"

definition parse_client_message ::
  "(bytes \<Rightarrow> string + ClientFrame) \<Rightarrow> bytes \<Rightarrow> StomperError + ClientFrame option" where
  "parse_client_message try_from b =
     (if is_heartbeat b then Inr None
      else transpose_option (Some (map_err StomperError_from_parse_error (try_from b))))"

definition client_event_of :: "StomperError + ClientFrame option \<Rightarrow> ClientEvent" where
  "client_event_of opt_frame =
     (case map_option EvClientFrame (transpose_result opt_frame) of
        Some event \<Rightarrow> event
      | None \<Rightarrow> EvClientHeartbeat)"

text \<open>The stream of raw items may itself carry errors, which \<open>and_then\<close> passes on.\<close>

definition client_item_event ::
  "(bytes \<Rightarrow> string + ClientFrame) \<Rightarrow> StomperError + bytes \<Rightarrow> ClientEvent" where
  "client_item_event try_from item =
     client_event_of (case item of Inl e \<Rightarrow> Inl e | Inr b \<Rightarrow> parse_client_message try_from b)"

definition stream_from_client ::
  "(bytes \<Rightarrow> string + ClientFrame) \<Rightarrow> (StomperError + bytes) list \<Rightarrow> ClientEvent list" where
  "stream_from_client try_from stream = map (client_item_event try_from) stream @ [EvClose]"


section \<open>The first message\<close>

definition validate_and_connect ::
  "('f, 'c, 'w) ClientFactory \<Rightarrow> ClientEvent option \<Rightarrow> 'f \<Rightarrow>
    ('w, StomperError + HeartBeatIntervalls \<times> 'c) io" where
  "validate_and_connect F first_message client_factory =
     (case first_message of
        Some (EvClientFrame (Inr (Connect frame))) \<Rightarrow>
          if V1_2 \<notin> set (accept_version frame)
          then ret_io (Inl (StomperError_new ''Only STOMP 1.2 is supported''))
          else bind_io (factory_create F client_factory (login frame) (passcode frame))
                 (\<lambda>r. ret_io (map_ok (\<lambda>client. (heartbeat frame, client)) r))
      | _ \<Rightarrow> ret_io (Inl (StomperError_new ''First message must be a CONNECT frame'')))"

text \<open>
  The time the client has between two messages: its own promise and a fifth of it, in \<open>u32\<close>
  arithmetic. With overflow checks (a debug build) an overflow panics; without, it wraps.
\<close>

definition heartbeat_with_buffer :: "bool \<Rightarrow> 32 word \<Rightarrow> 32 word option" where
  "heartbeat_with_buffer overflow_checks s =
     (if overflow_checks \<and> 2 ^ 32 \<le> unat s * unat (HEARTBEAT_BUFFER_PERCENT + 100) then None
      else Some (s * (HEARTBEAT_BUFFER_PERCENT + 100) div 100))"

definition heartbeat_listener ::
  "('tx, ClientEvent, 'w) channel_send \<Rightarrow> 'tx AsyncStompClient \<Rightarrow> unit option \<Rightarrow> ('w, unit) io" where
  "heartbeat_listener tx_send client fired = send_event tx_send client (EvError ''Missed heartbeat'')"

text \<open>
  What the set-up needs from the runtime: new channels for events and for timer commands, and
  a place to spawn the heartbeat listener, which owns the proxy and the timer it waits for.
\<close>

record ('tx, 'rx, 'cx, 'crx, 'w) SetupEnv =
  setup_event_channel :: "('w, 'tx \<times> 'rx) io"
  setup_command_channel :: "('w, 'cx \<times> 'crx) io"
  setup_spawn_listener :: "'tx AsyncStompClient \<Rightarrow> 'crx ResettableTimer \<Rightarrow> ('w, unit) io"
  setup_overflow_checks :: bool

definition heartbeat_timer ::
  "('tx, 'rx, 'cx, 'crx, 'w) SetupEnv \<Rightarrow> 32 word \<Rightarrow>
    ('w, 'crx ResettableTimer \<times> 'cx ResettableTimerResetter) io" where
  "heartbeat_timer setup period =
     (if 0 < period
      then ResettableTimer_create (setup_command_channel setup) (from_millis (unat period))
      else ResettableTimer_default (setup_command_channel setup))"

record ('tx, 'rx, 'cx, 'crx, 'ds, 'c) Connection =
  conn_session :: "('tx, 'cx, 'ds, 'c) ClientSession"
  conn_first_event :: ClientEvent
  conn_from_server :: 'rx
  conn_server_heartbeat :: "'crx ResettableTimer"

definition start_heartbeat_listener ::
  "('tx, 'rx, 'cx, 'crx, 'w) SetupEnv \<Rightarrow> ('tx, 'cx, 'ds, 'c) ClientSession \<Rightarrow> 'crx ResettableTimer \<Rightarrow>
    ('w, unit) io" where
  "start_heartbeat_listener setup self timer = setup_spawn_listener setup (client_proxy self) timer"

definition open_connection ::
  "('tx, 'rx, 'cx, 'crx, 'w) SetupEnv \<Rightarrow> 'ds \<Rightarrow> HeartBeatIntervalls \<Rightarrow> 'c \<Rightarrow>
    ('w, ('tx, 'rx, 'cx, 'crx, 'ds, 'c) Connection) io" where
  "open_connection setup dests heartbeat_requested client =
     bind_io (setup_event_channel setup) (\<lambda>(tx, rx).
     bind_io (heartbeat_timer setup (expected heartbeat_requested))
       (\<lambda>(server_heartbeat_stream, server_resetter).
     bind_io
       (if 0 < supplied heartbeat_requested
        then (case heartbeat_with_buffer (setup_overflow_checks setup) (supplied heartbeat_requested) of
                None \<Rightarrow> panic_io ''attempt to multiply with overflow''
              | Some period \<Rightarrow>
                  ResettableTimer_create (setup_command_channel setup) (from_millis (unat period)))
        else ResettableTimer_default (setup_command_channel setup))
       (\<lambda>(client_heartbeat_stream, client_resetter).
     let session = ClientSession_new dests (AsyncStompClient_create tx) server_resetter client_resetter client
     in then_io (start_heartbeat_listener setup session client_heartbeat_stream)
          (ret_io
            \<lparr>conn_session = session,
             conn_first_event = EvConnected (HeartBeatIntervalls_new
               (expected heartbeat_requested) (supplied heartbeat_requested)),
             conn_from_server = rx,
             conn_server_heartbeat = server_heartbeat_stream\<rparr>))))"

text \<open>
  \<open>handle_connection_validation_result\<close>: a refused client gets one item, which does not pass
  through \<open>take_while\<close>; an accepted one a session.
\<close>

datatype 'a admission = Refused SessionResult | Accepted 'a

definition handle_connection_validation_result ::
  "('tx, 'rx, 'cx, 'crx, 'w) SetupEnv \<Rightarrow> StomperError + HeartBeatIntervalls \<times> 'c \<Rightarrow> 'ds \<Rightarrow>
    ('w, ('tx, 'rx, 'cx, 'crx, 'ds, 'c) Connection admission) io" where
  "handle_connection_validation_result setup first_result dests =
     (case first_result of
        Inl error \<Rightarrow> ret_io (Refused (Inr (Dead, Some (Inl (ErrorF (message error))))))
      | Inr (heartbeat_requested, client) \<Rightarrow>
          bind_io (open_connection setup dests heartbeat_requested client)
            (\<lambda>conn. ret_io (Accepted conn)))"


section \<open>From results to bytes\<close>

definition not_dead :: "StomperError + ClientState \<times> 'q \<Rightarrow> bool" where
  "not_dead result = (case result of Inr (Dead, _) \<Rightarrow> False | _ \<Rightarrow> True)"

definition into_opt_ok_of_bytes ::
  "(ServerFrame \<Rightarrow> bytes) \<Rightarrow> SessionResult \<Rightarrow> (StomperError + bytes) option" where
  "into_opt_ok_of_bytes serialise result =
     transpose_result
       (case map_ok (\<lambda>(_, opt_frame). map_option (case_sum serialise id) opt_frame) result of
          Inl _ \<Rightarrow> Inr None
        | Inr opt_bytes \<Rightarrow> Inr opt_bytes)"

text \<open>
  \<open>filter_map\<close> and \<open>forward\<close>: one item of the stream of results on its way to the sink. The sink
  may refuse, which ends the forwarding.
\<close>

definition forward_item ::
  "(ServerFrame \<Rightarrow> bytes) \<Rightarrow> (bytes \<Rightarrow> ('w, StomperError + unit) io) \<Rightarrow> SessionResult \<Rightarrow>
    ('w, StomperError + unit) io" where
  "forward_item serialise sink result =
     (case into_opt_ok_of_bytes serialise result of
        None \<Rightarrow> ret_io (Inr ())
      | Some (Inl e) \<Rightarrow> ret_io (Inl e)
      | Some (Inr b) \<Rightarrow> sink b)"

text \<open>
  The events of an accepted session: \<open>Connected\<close>, then whatever order \<open>select_all\<close> merges the
  three sources in. Each result is forwarded before the next event is taken. The stream ends at
  the first \<open>Dead\<close>, whose item it drops; it waits when the events known so far are used up; a
  panic ends the task.
\<close>

datatype 'st ending = Finished | Crashed string | SinkFailed StomperError | Waiting 'st

fun session_stream ::
  "('tx, 'cx, 'ds, 'c, 'w) SessionEnv \<Rightarrow> (SessionResult \<Rightarrow> ('w, StomperError + unit) io) \<Rightarrow>
    ('tx, 'cx, 'ds, 'c) ClientSession \<Rightarrow> ClientEvent list \<Rightarrow> 'w \<Rightarrow>
    (SessionResult list \<times> ('tx, 'cx, 'ds, 'c) ClientSession ending) \<times> 'w" where
  "session_stream env forward self [] w = (([], Waiting self), w)"
| "session_stream env forward self (event # events) w =
     (case handle_event env self event w of
        (Panic msg, w') \<Rightarrow> (([], Crashed msg), w')
      | (Ret (result, self'), w') \<Rightarrow>
          if not_dead result
          then (case forward result w' of
              (Panic msg, w'') \<Rightarrow> (([result], Crashed msg), w'')
            | (Ret (Inl e), w'') \<Rightarrow> (([result], SinkFailed e), w'')
            | (Ret (Inr _), w'') \<Rightarrow>
                (case session_stream env forward self' events w'' of
                   ((results, ending), w3) \<Rightarrow> ((result # results, ending), w3)))
          else (([], Finished), w'))"

text \<open>
  \<open>process_response_stream\<close>: after the stream's end an error item follows, \<open>LINGER_TIME\<close>
  milliseconds later; \<open>filter_map\<close> drops it, so that it only delays the end.
\<close>

definition linger :: SessionResult where
  "linger = Inl (StomperError_new ''Closing stream'')"

fun process_response_stream ::
  "(SessionResult \<Rightarrow> ('w, StomperError + unit) io) \<Rightarrow> SessionResult list \<Rightarrow>
    ('w, StomperError + unit) io" where
  "process_response_stream forward [] = forward linger"
| "process_response_stream forward (result # results) =
     bind_io (forward result)
       (\<lambda>r. case r of Inl e \<Rightarrow> ret_io (Inl e) | Inr _ \<Rightarrow> process_response_stream forward results)"

text \<open>
  \<open>process_stream\<close>: the spawned task takes the first event, admits or refuses the client, and
  forwards the results; \<open>events\<close> are those of the merged stream behind \<open>Connected\<close>. The task has
  no result yet (\<open>None\<close>) while it waits for more. The caller sees a task that panicked as an
  error, and any other end as \<open>Ok(())\<close>, also a refusing sink.
\<close>

definition response_task_of ::
  "('tx, 'rx, 'cx, 'crx, 'w) SetupEnv \<Rightarrow> ('f, 'c, 'w) ClientFactory \<Rightarrow>
    (SessionResult \<Rightarrow> ('w, StomperError + unit) io) \<Rightarrow> 'ds \<Rightarrow> 'f \<Rightarrow> ClientEvent option \<Rightarrow>
    (('tx, 'rx, 'cx, 'crx, 'ds, 'c) Connection \<Rightarrow> 'w \<Rightarrow>
      (SessionResult list \<times> ('tx, 'cx, 'ds, 'c) ClientSession ending) \<times> 'w) \<Rightarrow>
    ('w, (StomperError + unit) option) io" where
  "response_task_of setup F forward dests client_factory first_message all_events =
     bind_io (validate_and_connect F first_message client_factory) (\<lambda>validation_result.
     bind_io (handle_connection_validation_result setup validation_result dests) (\<lambda>stream.
       case stream of
         Refused result \<Rightarrow>
           bind_io (process_response_stream forward [result]) (\<lambda>r. ret_io (Some r))
       | Accepted conn \<Rightarrow> (\<lambda>w.
           case all_events conn w of
             ((_, Finished), w') \<Rightarrow>
               bind_io (process_response_stream forward []) (\<lambda>r. ret_io (Some r)) w'
           | ((_, SinkFailed e), w') \<Rightarrow> (Ret (Some (Inl e)), w')
           | ((_, Crashed msg), w') \<Rightarrow> (Panic msg, w')
           | ((_, Waiting _), w') \<Rightarrow> (Ret None, w'))))"

definition response_task ::
  "('tx, 'rx, 'cx, 'crx, 'w) SetupEnv \<Rightarrow> ('tx, 'cx, 'ds, 'c, 'w) SessionEnv \<Rightarrow>
    ('f, 'c, 'w) ClientFactory \<Rightarrow> (ServerFrame \<Rightarrow> bytes) \<Rightarrow>
    (bytes \<Rightarrow> ('w, StomperError + unit) io) \<Rightarrow> 'ds \<Rightarrow> 'f \<Rightarrow> ClientEvent option \<Rightarrow>
    ClientEvent list \<Rightarrow> ('w, (StomperError + unit) option) io" where
  "response_task setup env F serialise server_frame_sink dests client_factory first_message events =
     (let forward = forward_item serialise server_frame_sink
      in response_task_of setup F forward dests client_factory first_message
           (\<lambda>conn. session_stream env forward (conn_session conn) (conn_first_event conn # events)))"

text \<open>What the caller of \<open>process_stream\<close> sees of the task.\<close>

definition join_response_task :: "(StomperError + unit) option outcome \<Rightarrow> (StomperError + unit) option" where
  "join_response_task result =
     (case result of
        Ret r \<Rightarrow> map_option (\<lambda>_. Inr ()) r
      | Panic _ \<Rightarrow> Some (Inl (StomperError_new ''Unable to join response task'')))"

definition process_stream ::
  "('tx, 'rx, 'cx, 'crx, 'w) SetupEnv \<Rightarrow> ('tx, 'cx, 'ds, 'c, 'w) SessionEnv \<Rightarrow>
    ('f, 'c, 'w) ClientFactory \<Rightarrow> (ServerFrame \<Rightarrow> bytes) \<Rightarrow>
    (bytes \<Rightarrow> ('w, StomperError + unit) io) \<Rightarrow> 'ds \<Rightarrow> 'f \<Rightarrow> ClientEvent option \<Rightarrow>
    ClientEvent list \<Rightarrow> 'w \<Rightarrow> (StomperError + unit) option \<times> 'w" where
  "process_stream setup env F serialise server_frame_sink dests client_factory first_message events w =
     map_prod join_response_task id
       (response_task setup env F serialise server_frame_sink dests client_factory first_message events w)"

end
