(* ===== verification/Runtime.thy ===== *)
theory Runtime
  imports Pipeline Registry
begin

text \<open>
  A runtime to run the components in: unbounded channels as first-in-first-out queues whose
  receiver is open or closed, the map of destinations, the tasks that have been spawned, and
  the source of new channels. The crate takes all of this from \<open>tokio\<close> and \<open>async_map\<close>; the
  theories of the components take it as arguments and rest on the contracts of \<open>Channels\<close>,
  \<open>Session_Spec\<close> and \<open>Registry\<close> only. This theory shows that the contracts have a common
  model; the composed system of \<open>Broker\<close> and the concrete cases run in it.
\<close>

section \<open>Channels\<close>

record 'a mailboxes =
  mb_queue :: "nat \<Rightarrow> 'a list"
  mb_open :: "nat \<Rightarrow> bool"

definition mb_post :: "nat \<Rightarrow> 'a \<Rightarrow> 'a mailboxes \<Rightarrow> 'a mailboxes" where
  "mb_post t v m = (if mb_open m t then m\<lparr>mb_queue := (mb_queue m)(t := mb_queue m t @ [v])\<rparr> else m)"

definition mb_close :: "nat \<Rightarrow> 'a mailboxes \<Rightarrow> 'a mailboxes" where
  "mb_close t m = m\<lparr>mb_queue := (mb_queue m)(t := []), mb_open := (mb_open m)(t := False)\<rparr>"

definition mb_create :: "nat \<Rightarrow> 'a mailboxes \<Rightarrow> 'a mailboxes" where
  "mb_create t m = m\<lparr>mb_queue := (mb_queue m)(t := []), mb_open := (mb_open m)(t := True)\<rparr>"

definition mb_take :: "nat \<Rightarrow> 'a mailboxes \<Rightarrow> 'a mailboxes" where
  "mb_take t m = m\<lparr>mb_queue := (mb_queue m)(t := tl (mb_queue m t))\<rparr>"

definition no_mailboxes :: "'a mailboxes" where
  "no_mailboxes = \<lparr>mb_queue = (\<lambda>_. []), mb_open = (\<lambda>_. False)\<rparr>"

lemma mb_simps [simp]:
  "mb_queue (mb_post t v m) u = mb_queue m u @ (if u = t \<and> mb_open m t then [v] else [])"
  "mb_open (mb_post t v m) = mb_open m"
  "mb_queue (mb_close t m) u = (if u = t then [] else mb_queue m u)"
  "mb_open (mb_close t m) u = (u \<noteq> t \<and> mb_open m u)"
  "mb_queue (mb_create t m) u = (if u = t then [] else mb_queue m u)"
  "mb_open (mb_create t m) u = (u = t \<or> mb_open m u)"
  "mb_queue (mb_take t m) u = (if u = t then tl (mb_queue m t) else mb_queue m u)"
  "mb_open (mb_take t m) = mb_open m"
  "mb_queue no_mailboxes u = []"
  "mb_open no_mailboxes u = False"
  by (simp_all add: mb_post_def mb_close_def mb_create_def mb_take_def no_mailboxes_def)

lemma mb_post_closed [simp]: "\<not> mb_open m t \<Longrightarrow> mb_post t v m = m"
  by (simp add: mb_post_def)

text \<open>The channels of one kind are a part of the world, which \<open>part\<close> reads and \<open>upd\<close> changes.\<close>

definition fifo_send ::
  "('w \<Rightarrow> 'a mailboxes) \<Rightarrow> (('a mailboxes \<Rightarrow> 'a mailboxes) \<Rightarrow> 'w \<Rightarrow> 'w) \<Rightarrow>
    (nat, 'a, 'w) channel_send" where
  "fifo_send part upd t v w =
     (Ret (if mb_open (part w) t then Inr () else Inl v), upd (mb_post t v) w)"

lemma fifo_unbounded_sender:
  assumes "\<And>f w. part (upd f w) = f (part w)" "\<And>f w. f (part w) = part w \<Longrightarrow> upd f w = w"
  shows "unbounded_sender (fifo_send part upd) (\<lambda>t w. mb_open (part w) t) (\<lambda>t w. mb_queue (part w) t)"
  by unfold_locales (simp_all add: fifo_send_def assms)


section \<open>The world\<close>

type_synonym pointer = "nat AsyncStompClient"
type_synonym action = "(pointer, pointer) DestinationAction"
type_synonym backend = "pointer InMemDestinationBackend"
type_synonym registry = "(unit, unit) AsyncDestinations"
type_synonym session = "(nat, nat, registry, DefaultClient) ClientSession"

record runtime =
  rt_events :: "ClientEvent mailboxes"
  rt_actions :: "action mailboxes"
  rt_commands :: "ResettableTimerCommand mailboxes"
  rt_registry :: "DestinationId \<rightharpoonup> nat InMemDestination"
  rt_spawned :: "(pointer, DefaultClient) SubscribeTask list"
  rt_backends :: "nat \<rightharpoonup> backend"
  rt_listeners :: "(pointer \<times> nat ResettableTimer) list"
  rt_sent :: "nat \<Rightarrow> bytes list"
  rt_next :: nat

definition runtime_start :: runtime where
  "runtime_start = \<lparr>rt_events = no_mailboxes, rt_actions = no_mailboxes, rt_commands = no_mailboxes,
     rt_registry = Map.empty, rt_spawned = [], rt_backends = Map.empty, rt_listeners = [],
     rt_sent = (\<lambda>_. []), rt_next = 0\<rparr>"

definition rt_event_send :: "(nat, ClientEvent, runtime) channel_send" where
  "rt_event_send = fifo_send rt_events rt_events_update"

definition rt_action_send :: "(nat, action, runtime) channel_send" where
  "rt_action_send = fifo_send rt_actions rt_actions_update"

definition rt_command_send :: "(nat, ResettableTimerCommand, runtime) channel_send" where
  "rt_command_send = fifo_send rt_commands rt_commands_update"

lemmas rt_send_defs = rt_event_send_def rt_action_send_def rt_command_send_def

interpretation rt_event: event_sender rt_event_send
  "\<lambda>t w. mb_open (rt_events w) t" "\<lambda>t w. mb_queue (rt_events w) t"
  unfolding event_sender_def rt_event_send_def by (rule fifo_unbounded_sender) simp_all

interpretation rt_action: unbounded_sender rt_action_send
  "\<lambda>t w. mb_open (rt_actions w) t" "\<lambda>t w. mb_queue (rt_actions w) t"
  unfolding rt_action_send_def by (rule fifo_unbounded_sender) simp_all

interpretation rt_command: unbounded_sender rt_command_send
  "\<lambda>t w. mb_open (rt_commands w) t" "\<lambda>t w. mb_queue (rt_commands w) t"
  unfolding rt_command_send_def by (rule fifo_unbounded_sender) simp_all

text \<open>A new channel has a number that no channel has had.\<close>

definition rt_event_channel :: "(runtime, nat \<times> nat) io" where
  "rt_event_channel w = (let t = rt_next w in
     (Ret (t, t), w\<lparr>rt_events := mb_create t (rt_events w), rt_next := Suc t\<rparr>))"

definition rt_action_channel :: "(runtime, nat \<times> nat) io" where
  "rt_action_channel w = (let t = rt_next w in
     (Ret (t, t), w\<lparr>rt_actions := mb_create t (rt_actions w), rt_next := Suc t\<rparr>))"

definition rt_command_channel :: "(runtime, nat \<times> nat) io" where
  "rt_command_channel w = (let t = rt_next w in
     (Ret (t, t), w\<lparr>rt_commands := mb_create t (rt_commands w), rt_next := Suc t\<rparr>))"

text \<open>Spawning records the task; \<open>Broker\<close> runs it.\<close>

definition rt_spawn_backend :: "backend \<Rightarrow> nat \<Rightarrow> (runtime, unit) io" where
  "rt_spawn_backend b rx w = (Ret (), w\<lparr>rt_backends := (rt_backends w)(rx \<mapsto> b)\<rparr>)"

definition rt_spawn :: "(pointer, DefaultClient) SubscribeTask \<Rightarrow> (runtime, unit) io" where
  "rt_spawn task w = (Ret (), w\<lparr>rt_spawned := rt_spawned w @ [task]\<rparr>)"

definition rt_spawn_listener :: "pointer \<Rightarrow> nat ResettableTimer \<Rightarrow> (runtime, unit) io" where
  "rt_spawn_listener p timer w = (Ret (), w\<lparr>rt_listeners := rt_listeners w @ [(p, timer)]\<rparr>)"

text \<open>The sink of session \<open>n\<close> accepts everything.\<close>

definition rt_sink :: "nat \<Rightarrow> bytes \<Rightarrow> (runtime, StomperError + unit) io" where
  "rt_sink n b w = (Ret (Inr ()), w\<lparr>rt_sent := (rt_sent w)(n := rt_sent w n @ [b])\<rparr>)"


section \<open>The map of destinations\<close>

definition rt_create :: "DestinationId \<Rightarrow> (runtime, nat InMemDestination) io" where
  "rt_create = imd_create rt_action_channel rt_spawn_backend"

definition rt_get :: "DestinationId \<Rightarrow> (runtime, nat InMemDestination) io" where
  "rt_get d w =
     (case rt_registry w d of
        Some h \<Rightarrow> (Ret h, w)
      | None \<Rightarrow> bind_io (rt_create d) (\<lambda>h w. (Ret h, w\<lparr>rt_registry := (rt_registry w)(d \<mapsto> h)\<rparr>)) w)"

definition rt_map :: "(unit, DestinationId, nat InMemDestination, unit, runtime) VersionedMap" where
  "rt_map =
     \<lparr>vm_get_if_present = (\<lambda>_ d w. (Ret (rt_registry w d), w)),
      vm_get = (\<lambda>_ d _. rt_get d)\<rparr>"

lemma rt_create_eq:
  "rt_create d w =
     (Ret \<lparr>imd_id = d, imd_sender = rt_next w\<rparr>,
      w\<lparr>rt_actions := mb_create (rt_next w) (rt_actions w), rt_next := Suc (rt_next w),
        rt_backends := (rt_backends w)(rt_next w \<mapsto> backend_start d)\<rparr>)"
  by (simp add: rt_create_def imd_create_def rt_action_channel_def rt_spawn_backend_def bind_io_def
      then_io_def Let_def)

lemma rt_get_eq:
  "rt_get d w =
     (case rt_registry w d of
        Some h \<Rightarrow> (Ret h, w)
      | None \<Rightarrow> (Ret \<lparr>imd_id = d, imd_sender = rt_next w\<rparr>,
          w\<lparr>rt_actions := mb_create (rt_next w) (rt_actions w), rt_next := Suc (rt_next w),
            rt_backends := (rt_backends w)(rt_next w \<mapsto> backend_start d),
            rt_registry := (rt_registry w)(d \<mapsto> \<lparr>imd_id = d, imd_sender = rt_next w\<rparr>)\<rparr>))"
  by (simp add: rt_get_def bind_io_def rt_create_eq split: option.split)

interpretation rt_registry: get_or_create_map rt_map "\<lambda>_. rt_registry" "\<lambda>_ _. True"
  by unfold_locales (simp_all add: rt_map_def rt_get_eq)


section \<open>The components, wired\<close>

definition rt_subscriber :: "(pointer, runtime) Subscriber" where
  "rt_subscriber = async_subscriber rt_event_send"

definition rt_destination :: "(nat InMemDestination, pointer, pointer, DefaultClient, runtime) Destination" where
  "rt_destination = in_mem_destination rt_action_send rt_subscriber async_sender"

definition rt_destinations :: "(registry, pointer, pointer, DefaultClient, runtime) Destinations" where
  "rt_destinations = async_destinations rt_map rt_spawn rt_destination async_sender"

definition rt_debug :: "StomperError \<Rightarrow> string" where
  "rt_debug e = ''StomperError { message: '' @ [CHR 0x22] @ message e @ [CHR 0x22] @ '' }''"

definition rt_env :: "(nat, nat, registry, DefaultClient, runtime) SessionEnv" where
  "rt_env =
     \<lparr>env_event_send = rt_event_send, env_command_send = rt_command_send,
      env_destinations = rt_destinations,
      env_client = default_client_methods ''little-stomper'' ''0.4.0'', env_debug = rt_debug\<rparr>"

definition rt_setup :: "(nat, nat, nat, nat, runtime) SetupEnv" where
  "rt_setup =
     \<lparr>setup_event_channel = rt_event_channel, setup_command_channel = rt_command_channel,
      setup_spawn_listener = rt_spawn_listener, setup_overflow_checks = False\<rparr>"

definition rt_registry_handle :: registry where
  "rt_registry_handle = AsyncDestinations_start () ()"

lemma rt_env_simps [simp]:
  "env_event_send rt_env = rt_event_send"
  "env_command_send rt_env = rt_command_send"
  "env_destinations rt_env = rt_destinations"
  "env_client rt_env = default_client_methods ''little-stomper'' ''0.4.0''"
  "env_debug rt_env = rt_debug"
  by (simp_all add: rt_env_def)

lemma rt_setup_simps [simp]:
  "setup_event_channel rt_setup = rt_event_channel"
  "setup_command_channel rt_setup = rt_command_channel"
  "setup_spawn_listener rt_setup = rt_spawn_listener"
  "setup_overflow_checks rt_setup = False"
  by (simp_all add: rt_setup_def)

end
