(* ===== verification/Pipeline_Spec.thy ===== *)
theory Pipeline_Spec
  imports Runtime
begin

text \<open>
  What a session does over its whole life: where its stream of results ends, what its table of
  subscriptions holds, which events crash it, what it does to its heartbeat timers, what an
  error leads to, and which bytes the client receives.
\<close>

section \<open>The end of the stream\<close>

definition ends_session :: "ClientEvent \<Rightarrow> bool" where
  "ends_session e \<longleftrightarrow> e = EvClose \<or> e = EvClientFrame (Inr Disconnect)"

lemma handle_event_ends:
  assumes "handle_event env s e w = (Ret (r, s'), w')"
  shows "not_dead r \<longleftrightarrow> \<not> ends_session e" "is_ok r"
  using handle_event_result [OF assms]
  by (auto simp: not_dead_def ends_session_def split: ClientState.splits)

lemma not_dead_Inl [simp]: "not_dead (Inl e)"
  by (simp add: not_dead_def)

text \<open>One step of the stream, by what the handler and the sink do.\<close>

lemma session_stream_cases [consumes 1, case_names panic ended sink_panic refused step]:
  assumes "session_stream env fwd s (e # es) w = ((rs, ending), w')"
  obtains (panic) msg where "handle_event env s e w = (Panic msg, w')" "rs = []" "ending = Crashed msg"
  | (ended) r s1 where "handle_event env s e w = (Ret (r, s1), w')" "ends_session e" "rs = []"
      "ending = Finished"
  | (sink_panic) r s1 w1 msg where "handle_event env s e w = (Ret (r, s1), w1)" "\<not> ends_session e"
      "fwd r w1 = (Panic msg, w')" "rs = [r]" "ending = Crashed msg"
  | (refused) r s1 w1 err where "handle_event env s e w = (Ret (r, s1), w1)" "\<not> ends_session e"
      "fwd r w1 = (Ret (Inl err), w')" "rs = [r]" "ending = SinkFailed err"
  | (step) r s1 w1 w2 rs' where "handle_event env s e w = (Ret (r, s1), w1)" "\<not> ends_session e"
      "fwd r w1 = (Ret (Inr ()), w2)" "session_stream env fwd s1 es w2 = ((rs', ending), w')"
      "rs = r # rs'"
  using assms
  by (auto split: prod.splits outcome.splits sum.splits if_splits simp: handle_event_ends(1))

lemma session_stream_step:
  "handle_event env s e w = (Ret (r, s1), w1) \<Longrightarrow> \<not> ends_session e \<Longrightarrow>
   fwd r w1 = (Ret (Inr ()), w2) \<Longrightarrow> session_stream env fwd s1 es w2 = ((rs, ending), w') \<Longrightarrow>
   session_stream env fwd s (e # es) w = ((r # rs, ending), w')"
  by (simp add: handle_event_ends(1))

text \<open>
  A session answers its events one by one, each with an \<open>Ok\<close> result, until the first
  \<open>Close\<close> or DISCONNECT; what comes behind that event is never looked at. While it waits for
  more, it has answered every event so far.
\<close>

theorem session_stream_end:
  assumes "session_stream env fwd s events w = ((rs, ending), w')"
  shows "(\<forall>r \<in> set rs. not_dead r \<and> is_ok r) \<and>
    (case ending of
       Finished \<Rightarrow> \<exists>es e rest. events = es @ e # rest \<and> length es = length rs \<and>
         \<not> list_ex ends_session es \<and> ends_session e \<and>
         (\<forall>other. session_stream env fwd s (es @ e # other) w = ((rs, Finished), w'))
     | Waiting s' \<Rightarrow> length rs = length events \<and> \<not> list_ex ends_session events
     | _ \<Rightarrow> \<not> list_ex ends_session (take (length rs) events) \<and> events \<noteq> [])"
  using assms
proof (induction events arbitrary: s w rs)
  case Nil
  then show ?case by auto
next
  case (Cons e es)
  from Cons.prems show ?case
  proof (cases rule: session_stream_cases)
    case (ended r s1)
    then show ?thesis
      by (auto simp: handle_event_ends(1) intro!: exI [of _ "[]"])
  next
    case (step r s1 w1 w2 rs')
    note IH = Cons.IH [OF step(4)]
    show ?thesis
    proof (cases ending)
      case Finished
      then obtain es0 e0 rest where es0: "es = es0 @ e0 # rest" "length es0 = length rs'"
          "\<not> list_ex ends_session es0" "ends_session e0"
          "\<And>other. session_stream env fwd s1 (es0 @ e0 # other) w2 = ((rs', Finished), w')"
        using IH by auto
      have "session_stream env fwd s ((e # es0) @ e0 # other) w = ((r # rs', Finished), w')" for other
        using session_stream_step [OF step(1-3) es0(5)] by simp
      with es0 step IH show ?thesis
        by (auto simp: Finished handle_event_ends intro!: exI [of _ "e # es0"])
    qed (use IH step in \<open>auto simp: handle_event_ends\<close>)
  qed (auto simp: handle_event_ends)
qed


text \<open>The witness's session lives in the runtime, and its sink takes everything.\<close>

definition demo_session :: session where
  "demo_session = ClientSession_new rt_registry_handle \<lparr>client_sender = 0\<rparr>
     \<lparr>resetter_sender = 1\<rparr> \<lparr>resetter_sender = 2\<rparr> DefaultClient"

definition demo_world :: runtime where
  "demo_world = runtime_start\<lparr>rt_events := mb_create 0 no_mailboxes,
     rt_commands := mb_create 1 (mb_create 2 no_mailboxes), rt_next := 3\<rparr>"

abbreviation open_sink :: "SessionResult \<Rightarrow> (runtime, StomperError + unit) io" where
  "open_sink \<equiv> (\<lambda>r. ret_io (Inr ()))"

lemmas demo_defs =
  demo_session_def demo_world_def ClientSession_new_def runtime_start_def rt_registry_handle_def
  AsyncDestinations_start_def

lemma demo_run:
  "fst (session_stream rt_env open_sink demo_session [EvHeartbeat, EvClose, EvHeartbeat] w) =
     ([send_heartbeat], Finished)"
  by (simp add: handler_defs not_dead_def)

theorem session_stream_end_witness:
  "\<exists>w'. session_stream rt_env open_sink demo_session [EvHeartbeat, EvClose, EvHeartbeat] demo_world =
     (([send_heartbeat], Finished), w') \<and> (\<forall>r \<in> set [send_heartbeat]. not_dead r \<and> is_ok r)"
proof -
  obtain w' where "session_stream rt_env open_sink demo_session [EvHeartbeat, EvClose, EvHeartbeat]
      demo_world = (([send_heartbeat], Finished), w')"
    using demo_run by (metis prod.collapse)
  from this session_stream_end [OF this] show ?thesis by blast
qed


section \<open>The table of subscriptions\<close>

text \<open>
  What the destinations said about a subscription of the client: it was confirmed, and where,
  or it was ended. A reported failure says nothing.
\<close>

fun word_on :: "SubscriptionId \<Rightarrow> ClientEvent \<Rightarrow> (DestinationId \<times> SubscriptionId) option option" where
  "word_on c (EvSubscribed d c' (Inr i)) = (if c' = c then Some (Some (d, i)) else None)"
| "word_on c (EvUnsubscribed c' (Inr i)) = (if c' = c then Some None else None)"
| "word_on c _ = None"

definition last_word :: "SubscriptionId \<Rightarrow> ClientEvent list \<Rightarrow> (DestinationId \<times> SubscriptionId) option" where
  "last_word c events =
     (case rev (List.map_filter (word_on c) events) of [] \<Rightarrow> None | word # _ \<Rightarrow> word)"

lemma map_of_table_step:
  "map_of (table_step e t) c = (case word_on c e of Some word \<Rightarrow> word | None \<Rightarrow> map_of t c)"
  by (cases "(e, t)" rule: table_step.cases) (auto simp: update_conv' delete_conv')

lemma distinct_keys_table_step: "distinct_keys t \<Longrightarrow> distinct_keys (table_step e t)"
  by (cases "(e, t)" rule: table_step.cases) auto

lemma map_of_table_steps:
  "map_of (fold table_step es t) c =
     (case rev (List.map_filter (word_on c) es) of [] \<Rightarrow> map_of t c | word # _ \<Rightarrow> word)"
proof (induction es rule: rev_induct)
  case (snoc e es)
  then show ?case
    by (cases "word_on c e") (simp_all add: map_of_table_step map_filter_Cons)
qed simp

lemma session_stream_waiting:
  "session_stream env fwd s events w = ((rs, Waiting s'), w') \<Longrightarrow>
   s' = s\<lparr>active_subscriptions_by_client_id :=
     fold table_step events (active_subscriptions_by_client_id s)\<rparr>"
proof (induction events arbitrary: s w rs)
  case (Cons e es)
  from Cons.prems show ?case
  proof (cases rule: session_stream_cases)
    case (step r s1 w1 w2 rs')
    with Cons.IH [OF step(4)] handle_event_state [OF step(1)] show ?thesis by simp
  qed simp_all
qed simp

text \<open>
  C19: at every moment of a session its table holds, for each of the client's subscription ids,
  the last word of the destinations on it (where it was confirmed last, or nothing once it was
  ended), one entry per id; and nothing else of the session's state has changed.
\<close>

theorem session_table_last_word:
  assumes "session_stream env fwd s events w = ((rs, Waiting s'), w')"
    and "active_subscriptions_by_client_id s = []"
  shows "map_of (active_subscriptions_by_client_id s') c = last_word c events \<and>
    distinct_keys (active_subscriptions_by_client_id s') \<and>
    s'\<lparr>active_subscriptions_by_client_id := []\<rparr> = s"
proof -
  have "distinct_keys (fold table_step events [])"
    by (induction events rule: rev_induct) (simp_all add: distinct_keys_table_step)
  with session_stream_waiting [OF assms(1)] assms(2) show ?thesis
    by (simp add: map_of_table_steps last_word_def split: list.split)
qed

abbreviation "demo_subscribed \<equiv>
  [EvSubscribed (DestinationId ''d'') (SubscriptionId ''c'') (Inr (SubscriptionId ''u'')),
   EvUnsubscribed (SubscriptionId ''b'') (Inr (SubscriptionId ''v'')),
   EvUnsubscribed (SubscriptionId ''c'') (Inl (StomperError_new ''no''))]"

theorem session_table_last_word_witness:
  "\<exists>rs s' w'. session_stream rt_env open_sink demo_session demo_subscribed demo_world =
      ((rs, Waiting s'), w') \<and>
    map_of (active_subscriptions_by_client_id s') (SubscriptionId ''c'') =
      Some (DestinationId ''d'', SubscriptionId ''u'')"
proof -
  have "\<exists>rs s' w'. session_stream rt_env open_sink demo_session demo_subscribed demo_world =
      ((rs, Waiting s'), w')"
    by (simp add: handler_defs not_dead_def)
  then obtain rs s' w' where run: "session_stream rt_env open_sink demo_session demo_subscribed
      demo_world = ((rs, Waiting s'), w')"
    by blast
  have "active_subscriptions_by_client_id demo_session = []" by (simp add: demo_defs)
  from session_table_last_word [OF run this, of "SubscriptionId ''c''"] run show ?thesis
    by (simp add: last_word_def map_filter_Cons)
qed


section \<open>Errors end the session\<close>

text \<open>
  The events an ERROR frame answers, with its text: a report to the session (a missed
  heartbeat), an unreadable frame, a second CONNECT, an UNSUBSCRIBE from an id the table does not
  have.
\<close>

fun error_text ::
  "(StomperError \<Rightarrow> string) \<Rightarrow> (SubscriptionId, DestinationId \<times> SubscriptionId) hash_map \<Rightarrow>
    ClientEvent \<Rightarrow> string option" where
  "error_text debug t (EvError msg) = Some msg"
| "error_text debug t (EvClientFrame (Inl err)) = Some (''Error processing client message: '' @ debug err)"
| "error_text debug t (EvClientFrame (Inr (Connect f))) = Some ''Already connected.''"
| "error_text debug t (EvClientFrame (Inr (Unsubscribe f))) =
     (if map_of t (SubscriptionId (unsubscribe_id f)) = None
      then Some (''Attempt to unsubscribe from unknown subscription: '' @ unsubscribe_id f) else None)"
| "error_text debug t _ = None"

lemma frame_of_event:
  assumes "handle_event env s e w = (Ret (Inr (st, out), s'), w')"
  shows "out = Some (Inl (ErrorF msg)) \<longleftrightarrow>
    error_text (env_debug env) (active_subscriptions_by_client_id s) e = Some msg"
  using assms
  by (cases "(env_debug env, active_subscriptions_by_client_id s, e)" rule: error_text.cases)
    (auto simp: handler_defs Let_def then_io_def bind_io_eq_Ret_iff
      split: option.splits sum.splits if_splits)

lemma error_state:
  assumes "handle_event env s e w = (Ret (Inr (st, Some (Inl (ErrorF msg))), s'), w')"
  shows "s' = s \<and> st = Alive \<and>
    (\<exists>w1. send_event (env_event_send env) (client_proxy s) EvClose w1 = (Ret (), w'))"
  using assms
  by (cases "(env_debug env, active_subscriptions_by_client_id s, e)" rule: error_text.cases)
    (auto simp: handler_defs Let_def then_io_def bind_io_eq_Ret_iff
      split: option.splits sum.splits if_splits)

text \<open>
  C21: the client gets an ERROR frame for exactly these events; the session lives on for the
  moment, but when the handler is done, \<open>Close\<close> is the last event in its own queue (if the queue
  is still open), so that it ends once the events queued before are handled.
\<close>

theorem error_frame_closes:
  assumes "event_sender (env_event_send env) rx_open rx_queue"
    and "handle_event env s e w = (Ret (Inr (st, out), s'), w')"
  shows "(\<forall>msg. out = Some (Inl (ErrorF msg)) \<longleftrightarrow>
      error_text (env_debug env) (active_subscriptions_by_client_id s) e = Some msg) \<and>
    ((\<exists>msg. out = Some (Inl (ErrorF msg))) \<longrightarrow>
      st = Alive \<and> s' = s \<and>
      (rx_open (client_sender (client_proxy s)) w' \<longrightarrow>
        (\<exists>before. rx_queue (client_sender (client_proxy s)) w' = before @ [EvClose])))"
proof -
  note sender = assms(1) [unfolded event_sender_def]
  have "\<exists>before. rx_queue (client_sender (client_proxy s)) w' = before @ [EvClose]"
    if "send_event (env_event_send env) (client_proxy s) EvClose w1 = (Ret (), w')"
      "rx_open (client_sender (client_proxy s)) w'" for w1
    using that unbounded_sender.last_after_send [OF sender]
    by (auto simp: event_sender.send_event_eq [OF assms(1)])
  with assms(2) error_state show ?thesis
    unfolding frame_of_event [OF assms(2)] by (metis frame_of_event)
qed

theorem error_frame_closes_witness:
  "\<exists>w'. handle_event rt_env demo_session (EvError ''Missed heartbeat'') demo_world =
      (Ret (Inr (Alive, Some (Inl (ErrorF ''Missed heartbeat''))), demo_session), w') \<and>
    mb_queue (rt_events w') 0 = [EvClose]"
proof -
  have run: "handle_event rt_env demo_session (EvError ''Missed heartbeat'') demo_world =
      (Ret (Inr (Alive, Some (Inl (ErrorF ''Missed heartbeat''))), demo_session),
       demo_world\<lparr>rt_events := mb_post 0 EvClose (rt_events demo_world)\<rparr>)"
    by (simp add: handler_defs then_io_def bind_io_def rt_event.send_event_eq)
      (simp add: demo_defs rt_event_send_def fifo_send_def)
  have "event_sender (env_event_send rt_env) (\<lambda>t w. mb_open (rt_events w) t) (\<lambda>t w. mb_queue (rt_events w) t)"
    by (simp add: rt_event.event_sender_axioms)
  from error_frame_closes [OF this run] run show ?thesis
    by (auto simp: demo_defs)
qed


section \<open>Unsubscribing\<close>

text \<open>
  An UNSUBSCRIBE reaches the destinations if and only if the last word on the client's id was
  a confirmation, and then with the destination and the destination's own id of that
  confirmation; otherwise the client gets an ERROR frame. The entry stays until the destination
  answers, so that a second UNSUBSCRIBE in between reaches the destinations again.
\<close>

theorem session_unsubscribe:
  assumes "session_stream env fwd s events w = ((rs, Waiting s'), w')"
    and "active_subscriptions_by_client_id s = []"
  shows "handle env s' (Unsubscribe f) =
    (case last_word (SubscriptionId (unsubscribe_id f)) events of
       Some (d, i) \<Rightarrow>
         then_io (destinations_unsubscribe (env_destinations env) (destinations s) d i
             (client_proxy s) (session_client s))
           (ret_io (Inr (Alive, None)))
     | None \<Rightarrow>
         then_io (send_event (env_event_send env) (client_proxy s) EvClose)
           (ret_io (Inr (Alive, Some (Inl (ErrorF
             (''Attempt to unsubscribe from unknown subscription: '' @ unsubscribe_id f)))))))"
  using session_stream_waiting [OF assms(1)] assms(2)
  by (simp add: handle_def unsubscribe_def session_error_def frame_result_def map_of_table_steps
      last_word_def split: list.split option.split)

theorem session_unsubscribe_witness:
  "\<exists>rs s' w'. session_stream rt_env open_sink demo_session demo_subscribed demo_world =
      ((rs, Waiting s'), w') \<and>
    handle rt_env s' (Unsubscribe \<lparr>unsubscribe_id = ''c''\<rparr>) =
      then_io (destinations_unsubscribe rt_destinations rt_registry_handle (DestinationId ''d'')
          (SubscriptionId ''u'') \<lparr>client_sender = 0\<rparr> DefaultClient)
        (ret_io (Inr (Alive, None)))"
proof -
  have "\<exists>rs s' w'. session_stream rt_env open_sink demo_session demo_subscribed demo_world =
      ((rs, Waiting s'), w')"
    by (simp add: handler_defs not_dead_def)
  then obtain rs s' w' where run: "session_stream rt_env open_sink demo_session demo_subscribed
      demo_world = ((rs, Waiting s'), w')"
    by blast
  have "active_subscriptions_by_client_id demo_session = []" by (simp add: demo_defs)
  from session_unsubscribe [OF run this, of "\<lparr>unsubscribe_id = ''c''\<rparr>"] run show ?thesis
    by (simp add: last_word_def map_filter_Cons) (simp add: demo_defs)
qed


section \<open>Crashes\<close>

text \<open>
  Events on which the handler panics, given the state of the channel that the timer of the
  server's heartbeat listens on, and the registry.
\<close>

fun crashing_frame :: "ClientFrame \<Rightarrow> bool" where
  "crashing_frame (Send f) \<longleftrightarrow> send_body f = None"
| "crashing_frame Abort \<longleftrightarrow> True"
| "crashing_frame Ack \<longleftrightarrow> True"
| "crashing_frame Begin \<longleftrightarrow> True"
| "crashing_frame Commit \<longleftrightarrow> True"
| "crashing_frame Nack \<longleftrightarrow> True"
| "crashing_frame _ \<longleftrightarrow> False"

fun crashing :: "bool \<Rightarrow> ClientEvent \<Rightarrow> bool" where
  "crashing heartbeat_open (EvClientFrame (Inr f)) \<longleftrightarrow> crashing_frame f"
| "crashing heartbeat_open (EvServerMessage c m) \<longleftrightarrow> \<not> heartbeat_open"
| "crashing heartbeat_open _ \<longleftrightarrow> False"

definition destinations_return :: "('ds, 'p, 'k, 'c, 'w) Destinations \<Rightarrow> 'ds \<Rightarrow> bool" where
  "destinations_return D ds \<longleftrightarrow>
     (\<forall>d c p cl w. returns (destinations_subscribe D ds d c p cl) w) \<and>
     (\<forall>d m k cl w. returns (destinations_send D ds d m k cl) w)"

definition unsubscribes :: "('tx, 'cx, 'ds, 'c) ClientSession \<Rightarrow> ClientEvent \<Rightarrow> bool" where
  "unsubscribes s e \<longleftrightarrow> (\<exists>f x. e = EvClientFrame (Inr (Unsubscribe f)) \<and>
     map_of (active_subscriptions_by_client_id s) (SubscriptionId (unsubscribe_id f)) = Some x)"

lemma handle_event_returns:
  assumes "event_sender (env_event_send env) rx_open rx_queue"
    and "unbounded_sender (env_command_send env) cx_open cx_queue"
    and "destinations_return (env_destinations env) (destinations s)"
  shows "returns (handle_event env s e) w \<longleftrightarrow>
    \<not> crashing (cx_open (resetter_sender (server_heartbeat_resetter s)) w) e \<and>
    (\<forall>f d u. e = EvClientFrame (Inr (Unsubscribe f)) \<longrightarrow>
      map_of (active_subscriptions_by_client_id s) (SubscriptionId (unsubscribe_id f)) = Some (d, u) \<longrightarrow>
      returns (destinations_unsubscribe (env_destinations env) (destinations s) d u (client_proxy s)
        (session_client s)) (snd (client_message_received env s w)))"
proof -
  note send = event_sender.send_event_eq [OF assms(1)]
  note reset = unbounded_sender.bind_send [OF assms(2)]
  have received: "client_message_received env s w = (Ret (), snd (env_command_send env
      (resetter_sender (client_heartbeat_resetter s)) Reset w))" for w
    by (simp add: client_message_received_def resetter_reset_def bind_io_assoc reset)
  have error: "returns (session_error env s msg) w" for msg w
    by (simp add: session_error_def) (simp add: returns_def send)
  have received_returns: "returns (client_message_received env s) w" for w
    by (simp add: returns_def received)
  have server: "returns (bind_io (resetter_reset (env_command_send env) r) f) w \<longleftrightarrow>
      returns (f (if cx_open (resetter_sender r) w then Inr ()
          else Inl (StomperError_new ''Error resetting stream'')))
        (snd (env_command_send env (resetter_sender r) Reset w))" for r f w
    by (simp add: resetter_reset_def bind_io_assoc returns_def reset)
  have after: "returns (then_io (client_message_received env s) n) w \<longleftrightarrow>
      returns n (snd (env_command_send env (resetter_sender (client_heartbeat_resetter s)) Reset w))" for n
    by (simp add: returns_then_io received)
  show ?thesis
  proof (cases "(cx_open (resetter_sender (server_heartbeat_resetter s)) w, e)" rule: crashing.cases)
    case (1 hb f)
    let ?unsub = "\<lambda>w1. \<forall>g d u. f = Unsubscribe g \<longrightarrow>
      map_of (active_subscriptions_by_client_id s) (SubscriptionId (unsubscribe_id g)) = Some (d, u) \<longrightarrow>
      returns (destinations_unsubscribe (env_destinations env) (destinations s) d u (client_proxy s)
        (session_client s)) w1"
    have "returns (handle env s f) w1 \<longleftrightarrow> \<not> crashing_frame f \<and> ?unsub w1" for w1
      using assms(3)
      by (cases f) (auto simp: handle_def unsubscribe_def todo_panic_def error
          destinations_return_def split: option.split)
    with 1 show ?thesis by (simp add: handle_event_def client_frame_def after received)
  qed (auto simp: handle_event_def client_frame_def after error server received_returns)
qed



lemma rt_destinations_return: "destinations_return rt_destinations ds"
  by (simp add: destinations_return_def rt_destinations_def async_destinations_def ad_subscribe_def
      rt_spawn_def returns_def ad_send_def bind_io_def rt_map_def rt_destination_def
      in_mem_destination_def imd_send_def perform_action_def rt_action_send_def fifo_send_def
      to_send_callback_def async_sender_def split: option.split)



section \<open>Heartbeats\<close>

definition keeps :: "('w \<Rightarrow> 'o) \<Rightarrow> ('w, 'a) io \<Rightarrow> bool" where
  "keeps f m \<longleftrightarrow> (\<forall>w. f (snd (m w)) = f w)"

lemma keeps_simps [simp]: "keeps f (ret_io a)" "keeps f (panic_io msg)"
  by (simp_all add: keeps_def)

lemma keeps_bind_io: "keeps f m \<Longrightarrow> (\<And>a. keeps f (n a)) \<Longrightarrow> keeps f (bind_io m n)"
  unfolding keeps_def
proof
  fix w
  assume m: "\<forall>w. f (snd (m w)) = f w" and n: "\<And>a. \<forall>w. f (snd (n a w)) = f w"
  from m [rule_format, of w] n show "f (snd (bind_io m n w)) = f w"
    by (cases "m w"; cases "fst (m w)") (simp_all add: bind_io_def)
qed

lemma keeps_then_io: "keeps f m \<Longrightarrow> keeps f n \<Longrightarrow> keeps f (then_io m n)"
  by (simp add: then_io_def keeps_bind_io)

lemmas keeps_intros = keeps_bind_io keeps_then_io

text \<open>\<open>f\<close> is untouched by the channels of events and by the destinations.\<close>

definition outside :: "('tx, 'cx, 'ds, 'c, 'w) SessionEnv \<Rightarrow> ('w \<Rightarrow> 'o) \<Rightarrow> bool" where
  "outside env f \<longleftrightarrow>
     (\<forall>t v. keeps f (env_event_send env t v)) \<and>
     (\<forall>ds d c p cl. keeps f (destinations_subscribe (env_destinations env) ds d c p cl)) \<and>
     (\<forall>ds d i p cl. keeps f (destinations_unsubscribe (env_destinations env) ds d i p cl)) \<and>
     (\<forall>ds d m k cl. keeps f (destinations_send (env_destinations env) ds d m k cl))"

lemma outside_keeps:
  assumes "outside env f"
  shows "keeps f (send_event (env_event_send env) p ev)" "keeps f (session_error env s msg)"
    "keeps f (handle env s frame)" "keeps f (client_frame env s r)"
proof -
  show send: "keeps f (send_event (env_event_send env) p ev)" for p ev
    using assms by (auto simp: send_event_def outside_def intro!: keeps_intros)
  then show error: "keeps f (session_error env s msg)" for msg
    by (auto simp: session_error_def intro!: keeps_intros)
  show handled: "keeps f (handle env s frame)" for frame
    using assms
    by (cases frame) (auto simp: handle_def unsubscribe_def todo_panic_def outside_def
        intro!: keeps_then_io error split: option.split)
  show "keeps f (client_frame env s r)"
    by (cases r) (simp_all add: client_frame_def error handled)
qed

text \<open>The resets that an event leaves with the timers: of the client's, and of the server's heartbeat.\<close>

fun resets_client :: "ClientEvent \<Rightarrow> bool" where
  "resets_client (EvClientFrame r) \<longleftrightarrow> True"
| "resets_client EvClientHeartbeat \<longleftrightarrow> True"
| "resets_client _ \<longleftrightarrow> False"

fun resets_server :: "ClientEvent \<Rightarrow> bool" where
  "resets_server (EvServerMessage c m) \<longleftrightarrow> True"
| "resets_server _ \<longleftrightarrow> False"

text \<open>What a handler adds to the queues of the timers.\<close>

lemma handle_event_commands:
  assumes "unbounded_sender (env_command_send env) cx_open cx_queue"
    and "outside env (cx_queue t)"
  shows "cx_queue t (snd (handle_event env s e w)) = cx_queue t w @
    (if cx_open t w \<and>
        (resets_client e \<and> t = resetter_sender (client_heartbeat_resetter s) \<or>
         resets_server e \<and> t = resetter_sender (server_heartbeat_resetter s))
     then [Reset] else [])"
proof -
  note reset = unbounded_sender.bind_send [OF assms(1)] unbounded_sender.queue_send [OF assms(1)]
  note keeps = outside_keeps [OF assms(2)]
  have received: "client_message_received env s w = (Ret (), snd (env_command_send env
      (resetter_sender (client_heartbeat_resetter s)) Reset w))"
    by (simp add: client_message_received_def resetter_reset_def bind_io_assoc reset)
  have kept: "cx_queue t (snd (bind_io m (\<lambda>r. ret_io (r, s)) w1)) = cx_queue t w1"
    if "keeps (cx_queue t) m" for m w1
    using keeps_bind_io [OF that, of "\<lambda>r. ret_io (r, s)"] by (simp add: keeps_def [where m = "bind_io m n" for n])
  show ?thesis
  proof (cases e)
    case (EvClientFrame r)
    then show ?thesis
      by (auto simp: handle_event_def then_io_def bind_io_def [of "client_message_received env s"]
          received kept keeps reset)
  next
    case EvClientHeartbeat
    then show ?thesis
      by (auto simp: handle_event_def then_io_def bind_io_def [of "client_message_received env s"]
          received reset)
  next
    case (EvServerMessage c m)
    then show ?thesis
      by (auto simp: handle_event_def resetter_reset_def bind_io_assoc reset)
  qed (simp_all add: handle_event_def Let_def kept keeps)
qed

text \<open>
  C22: each frame of the client, readable or not, and each heartbeat of the client resets the
  client's timer once; each message for the client resets the server's timer once; no event
  sends the timers anything else, also if its handler panics. In particular neither the
  CONNECTED and ERROR frames nor the server's own heartbeats postpone the next heartbeat.
\<close>

theorem heartbeat_resets:
  assumes "unbounded_sender (env_command_send env) cx_open cx_queue"
    and "outside env (cx_queue t)"
  shows "cx_queue t (snd (handle_event env s e w)) = cx_queue t w @
    (if cx_open t w \<and>
        (resets_client e \<and> t = resetter_sender (client_heartbeat_resetter s) \<or>
         resets_server e \<and> t = resetter_sender (server_heartbeat_resetter s))
     then [Reset] else [])"
  using assms by (rule handle_event_commands)


lemma rt_outside:
  assumes "\<And>g w. f (rt_events_update g w) = f w" "\<And>g w. f (rt_actions_update g w) = f w"
    "\<And>g w. f (rt_spawned_update g w) = f w"
  shows "outside rt_env f"
proof -
  have send: "keeps f (rt_event_send u v)" "keeps f (rt_action_send u a)" for u v a
    by (simp_all add: keeps_def rt_event_send_def rt_action_send_def fifo_send_def assms)
  have cb: "keeps f (unsubscribe_callback rt_subscriber p c r)" for p c r
    by (auto simp: rt_subscriber_def async_subscriber_def asc_unsubscribe_callback_def send_event_def
        unwrap_subscriber_sub_id_def intro!: keeps_intros send split: option.split)
  have present: "keeps f (vm_get_if_present rt_map m d)" for m d
    by (simp add: keeps_def rt_map_def)
  have unsub: "keeps f (imd_unsubscribe rt_action_send rt_subscriber h i p cl)" for h i p and cl :: DefaultClient
  proof -
    have "keeps f (case r of Inl (ActUnsubscribe _ ucb) \<Rightarrow>
        call_unsubscribe_callback rt_subscriber ucb None (Inl (StomperError_new ''Unsubscribe failed''))
      | _ \<Rightarrow> ret_io ())" for r :: "action + unit"
    proof (cases r)
      case (Inl a)
      then show ?thesis
      proof (cases a)
        case (ActUnsubscribe j ucb)
        then show ?thesis using Inl cb by (cases ucb) simp
      qed simp_all
    qed simp
    then show ?thesis
      by (auto simp: imd_unsubscribe_def perform_action_def intro!: keeps_intros send)
  qed
  have "keeps f (imd_send rt_action_send async_sender h m k cl)" for h m k and cl :: DefaultClient
    by (simp add: keeps_def imd_send_def perform_action_def rt_action_send_def fifo_send_def bind_io_def
        to_send_callback_def async_sender_def assms)
  then show ?thesis
    by (auto simp: outside_def rt_destinations_def async_destinations_def ad_subscribe_def
        ad_unsubscribe_def ad_send_def rt_destination_def in_mem_destination_def async_sender_def
        send present unsub intro!: keeps_intros split: option.split)
      (simp add: keeps_def rt_spawn_def assms)
qed

theorem heartbeat_resets_witness:
  "mb_queue (rt_commands (snd (handle_event rt_env demo_session EvClientHeartbeat demo_world))) 2 = [Reset] \<and>
   mb_queue (rt_commands (snd (handle_event rt_env demo_session EvHeartbeat demo_world))) 1 = []"
proof -
  have "unbounded_sender (env_command_send rt_env) (\<lambda>t w. mb_open (rt_commands w) t)
      (\<lambda>t w. mb_queue (rt_commands w) t)"
    by (simp add: rt_command.unbounded_sender_axioms)
  then show ?thesis
    using heartbeat_resets [OF _ rt_outside, of "\<lambda>t w. mb_open (rt_commands w) t"
        "\<lambda>t w. mb_queue (rt_commands w) t" 2 demo_session EvClientHeartbeat demo_world]
      heartbeat_resets [OF _ rt_outside, of "\<lambda>t w. mb_open (rt_commands w) t"
        "\<lambda>t w. mb_queue (rt_commands w) t" 1 demo_session EvHeartbeat demo_world]
    by (simp add: demo_defs)
qed


section \<open>What reaches the client\<close>

definition wire :: "(ServerFrame \<Rightarrow> bytes) \<Rightarrow> SessionResult \<Rightarrow> bytes list" where
  "wire serialise r = (case r of Inr (_, Some m) \<Rightarrow> [case_sum serialise id m] | _ \<Rightarrow> [])"

text \<open>A sink that accepts everything, and lets what was sent be read by \<open>sent\<close>.\<close>

definition accepts :: "(bytes \<Rightarrow> ('w, StomperError + unit) io) \<Rightarrow> ('w \<Rightarrow> bytes list) \<Rightarrow> bool" where
  "accepts sink sent \<longleftrightarrow> (\<forall>b w. fst (sink b w) = Ret (Inr ()) \<and> sent (snd (sink b w)) = sent w @ [b])"

lemma into_opt_ok_of_bytes_eq:
  "into_opt_ok_of_bytes serialise r = (case wire serialise r of [] \<Rightarrow> None | b # _ \<Rightarrow> Some (Inr b))"
  by (auto simp: into_opt_ok_of_bytes_def wire_def split: sum.split prod.split option.split)

lemma forward_item_accepted:
  assumes "accepts sink sent"
  shows "\<exists>w'. forward_item serialise sink r w = (Ret (Inr ()), w') \<and> sent w' = sent w @ wire serialise r"
proof (cases "wire serialise r")
  case Nil
  then show ?thesis by (simp add: forward_item_def into_opt_ok_of_bytes_eq)
next
  case (Cons b bs)
  then have "bs = []" by (auto simp: wire_def split: sum.splits option.splits prod.splits)
  then show ?thesis
    using assms Cons
    by (cases "sink b w") (metis (no_types, lifting) accepts_def fst_conv snd_conv forward_item_def
        into_opt_ok_of_bytes_eq list.case(2) option.case(2) sum.case(2))
qed

text \<open>
  A sink that accepts everything receives, whatever way the stream ends, exactly the
  serialised frames and raw heartbeats of the session's results, in the order of the events
  they answer, and each before the next event is handled.
\<close>

theorem session_bytes_in_order:
  assumes "accepts sink sent"
    and "\<And>s e. keeps sent (handle_event env s e)"
    and "session_stream env (forward_item serialise sink) s events w = ((rs, ending), w')"
  shows "sent w' = sent w @ concat (map (wire serialise) rs) \<and> (\<forall>e. ending \<noteq> SinkFailed e)"
  using assms(3)
proof (induction events arbitrary: s w rs)
  case (Cons e es)
  have kept: "sent w1 = sent w" if "handle_event env s e w = (x, w1)" for x w1
    using assms(2) [of s e] that by (metis keeps_def snd_conv)
  from Cons.prems show ?case
  proof (cases rule: session_stream_cases)
    case (step r s1 w1 w2 rs')
    obtain w3 where "forward_item serialise sink r w1 = (Ret (Inr ()), w3)"
        "sent w3 = sent w1 @ wire serialise r"
      using forward_item_accepted [OF assms(1)] by blast
    with step kept [OF step(1)] Cons.IH [OF step(4)] show ?thesis by simp
  next
    case (sink_panic r s1 w1 msg)
    then show ?thesis using forward_item_accepted [OF assms(1), of serialise r w1] by auto
  next
    case (refused r s1 w1 err)
    then show ?thesis using forward_item_accepted [OF assms(1), of serialise r w1] by auto
  qed (auto dest: kept)
qed auto


lemma keeps_handle_event:
  assumes "outside env f" "\<And>t v. keeps f (env_command_send env t v)"
  shows "keeps f (handle_event env s e)"
proof -
  note keeps = outside_keeps [OF assms(1)]
  have reset: "keeps f (resetter_reset (env_command_send env) r)" for r
    by (auto simp: resetter_reset_def intro!: keeps_intros assms(2))
  have received: "keeps f (client_message_received env s)"
    by (auto simp: client_message_received_def intro!: keeps_intros reset)
  show ?thesis
    by (cases e) (auto simp: handle_event_def intro!: keeps_intros keeps reset received split: sum.split)
qed

theorem session_bytes_in_order_witness:
  "rt_sent (snd (session_stream rt_env (forward_item (\<lambda>_. []) (rt_sink 0)) demo_session
     [EvHeartbeat, EvError ''Missed heartbeat'', EvClose, EvHeartbeat] demo_world)) 0 = [EOL, []]"
proof -
  let ?run = "session_stream rt_env (forward_item (\<lambda>_. []) (rt_sink 0)) demo_session
     [EvHeartbeat, EvError ''Missed heartbeat'', EvClose, EvHeartbeat] demo_world"
  have acc: "accepts (rt_sink 0) (\<lambda>w. rt_sent w 0)"
    by (simp add: accepts_def rt_sink_def)
  have kept: "keeps (\<lambda>w. rt_sent w 0) (handle_event rt_env s e)" for s e
    by (intro keeps_handle_event rt_outside) (simp_all add: keeps_def rt_command_send_def fifo_send_def)
  have "fst (fst ?run) = [send_heartbeat, frame_result (ErrorF ''Missed heartbeat'')]"
    by (simp add: handler_defs not_dead_def then_io_def bind_io_def rt_event.send_event_eq
        forward_item_def into_opt_ok_of_bytes_def rt_sink_def)
  moreover obtain rs ending w' where run: "?run = ((rs, ending), w')"
    by (metis prod.exhaust)
  ultimately have "rs = [send_heartbeat, frame_result (ErrorF ''Missed heartbeat'')]"
    by (simp del: session_stream.simps)
  with session_bytes_in_order [OF acc kept run] show ?thesis
    by (simp add: run wire_def send_heartbeat_def frame_result_def del: session_stream.simps)
      (simp add: demo_defs)
qed

end
