(* ===== verification/Connect_Spec.thy ===== *)
theory Connect_Spec
  imports Pipeline_Spec
begin

text \<open>
  The beginning of a session: how the client's bytes become events, whom the server admits,
  what an admitted client and its timers are set up with, and what the two ends of
  \<open>process_stream\<close> are.
\<close>

section \<open>From bytes to events\<close>

text \<open>What one raw item means, in terms of the protocol.\<close>

definition meaning :: "(bytes \<Rightarrow> string + ClientFrame) \<Rightarrow> StomperError + bytes \<Rightarrow> ClientEvent" where
  "meaning try_from item =
     (case item of
        Inl e \<Rightarrow> EvClientFrame (Inl e)
      | Inr b \<Rightarrow>
          if b \<in> {[10], [13, 10]} then EvClientHeartbeat
          else EvClientFrame
            (case try_from b of Inl msg \<Rightarrow> Inl \<lparr>message = msg\<rparr> | Inr frame \<Rightarrow> Inr frame))"

text \<open>
  Every item from the client becomes one event, in order: an end of line (LF or CR LF) a
  heartbeat, and is not parsed; anything else a frame, or the error of the transport or of the
  parser. The end of the client's stream becomes one \<open>Close\<close>, and nothing else does.
\<close>

theorem stream_from_client_events:
  "stream_from_client try_from items = map (meaning try_from) items @ [EvClose] \<and>
   EvClose \<notin> set (map (meaning try_from) items)"
proof -
  have "client_event_of (case item of Inl e \<Rightarrow> Inl e | Inr b \<Rightarrow> parse_client_message try_from b) =
      meaning try_from item" for item
    by (auto simp: client_event_of_def parse_client_message_def meaning_def is_heartbeat_def
        StomperError_from_parse_error_def split: sum.split)
  then show ?thesis
    by (auto simp: stream_from_client_def client_item_event_def meaning_def split: sum.splits if_splits)
qed


section \<open>Admission\<close>

definition connect_1_2 :: "ClientEvent option \<Rightarrow> ConnectFrame \<Rightarrow> bool" where
  "connect_1_2 first frame \<longleftrightarrow>
     first = Some (EvClientFrame (Inr (Connect frame))) \<and> V1_2 \<in> set (accept_version frame)"

text \<open>
  C28: a client is admitted if and only if its first event is a well-formed CONNECT that accepts
  version 1.2 and the factory creates a client from exactly the frame's credentials; the
  heartbeats are those of the frame. Without such a CONNECT the client is refused and the
  factory is not asked.
\<close>

theorem validate_and_connect_iff:
  "(validate_and_connect F first factory w = (Ret (Inr (hb, client)), w') \<longleftrightarrow>
     (\<exists>frame. connect_1_2 first frame \<and> hb = heartbeat frame \<and>
        factory_create F factory (login frame) (passcode frame) w = (Ret (Inr client), w'))) \<and>
   ((\<exists>frame. connect_1_2 first frame) \<or>
     (\<exists>e. validate_and_connect F first factory w = (Ret (Inl e), w)))"
proof (cases "\<exists>frame. first = Some (EvClientFrame (Inr (Connect frame)))")
  case True
  then obtain frame where first: "first = Some (EvClientFrame (Inr (Connect frame)))" by blast
  show ?thesis
    by (cases "factory_create F factory (login frame) (passcode frame) w")
      (auto simp: first validate_and_connect_def connect_1_2_def bind_io_def map_ok_def
        split: outcome.splits sum.splits)
next
  case False
  then have "validate_and_connect F first factory w =
      (Ret (Inl (StomperError_new ''First message must be a CONNECT frame'')), w)"
    by (auto simp: validate_and_connect_def split: option.split ClientEvent.split sum.split ClientFrame.split)
  with False show ?thesis by (auto simp: connect_1_2_def)
qed


section \<open>Heartbeats\<close>

lemma buffer_product: "unat (s * (HEARTBEAT_BUFFER_PERCENT + 100)) = unat s * 120 mod 2 ^ 32"
  by (simp add: HEARTBEAT_BUFFER_PERCENT_def unat_word_ariths)

lemma buffered_period: "unat (s * (HEARTBEAT_BUFFER_PERCENT + 100) div 100) = (unat s * 120 mod 2 ^ 32) div 100"
  by (simp add: unat_div buffer_product)

lemma wrapped_period:
  assumes "35791394 < n" "n < (2::nat) ^ 32"
  shows "(n * 120 mod 2 ^ 32) div 100 < n"
proof (cases "n < 42949673")
  case True
  with assms(1) have "n * 120 div 2 ^ 32 = 1" by simp
  then have "n * 120 mod 2 ^ 32 = n * 120 - 2 ^ 32"
    by (simp add: modulo_nat_def)
  with assms(1) show ?thesis by simp
next
  case False
  have "n * 120 mod 2 ^ 32 < 2 ^ 32" by simp
  with False show ?thesis by simp
qed

text \<open>
  C30: up to 35791394 ms (about ten hours) the client is given its own interval and a fifth,
  rounded down, with and without overflow checks, which is never below the interval. For every
  longer one the multiplication overflows: with checks the session's task panics, without them
  the period is below the interval that the client keeps to, and 2 ^ 29 ms even become zero, a
  timer that never fires.
\<close>

theorem heartbeat_buffer_bounds:
  "(if unat s \<le> 35791394
    then \<exists>p. heartbeat_with_buffer checks s = Some p \<and> unat p = unat s * 120 div 100 \<and> unat s \<le> unat p
    else heartbeat_with_buffer True s = None \<and>
      (\<exists>p. heartbeat_with_buffer False s = Some p \<and> unat p < unat s)) \<and>
   heartbeat_with_buffer False (2 ^ 29) = Some 0"
proof (intro conjI)
  have factor: "unat (HEARTBEAT_BUFFER_PERCENT + 100) = 120"
    by (simp add: HEARTBEAT_BUFFER_PERCENT_def)
  show "if unat s \<le> 35791394
    then \<exists>p. heartbeat_with_buffer checks s = Some p \<and> unat p = unat s * 120 div 100 \<and> unat s \<le> unat p
    else heartbeat_with_buffer True s = None \<and>
      (\<exists>p. heartbeat_with_buffer False s = Some p \<and> unat p < unat s)"
  proof (cases "unat s \<le> 35791394")
    case True
    then have "unat s * 120 < 2 ^ 32" by simp
    then show ?thesis
      using True by (simp add: heartbeat_with_buffer_def factor buffered_period)
  next
    case False
    then have "2 ^ 32 \<le> unat s * 120" by simp
    moreover have "unat s < 2 ^ 32" using unsigned_less [of s] by simp
    ultimately show ?thesis
      using False wrapped_period [of "unat s"]
      by (simp add: heartbeat_with_buffer_def factor buffered_period)
  qed
  show "heartbeat_with_buffer False (2 ^ 29) = Some 0"
    by (simp add: heartbeat_with_buffer_def HEARTBEAT_BUFFER_PERCENT_def)
qed


section \<open>The set-up of an admitted client\<close>

text \<open>
  C29: an admitted client is told in its first event, \<open>Connected\<close>, the heartbeats of its own
  request with the two directions exchanged. Its session starts with an empty table and its own
  event channel. The session resets two different timers: the one that drives its heartbeats
  has the period the client expects, and the one that the heartbeat listener waits for has the
  period the client supplies, with the buffer; a direction that the client does not want (zero)
  gets the period zero.
\<close>

theorem open_connection_setup:
  assumes "setup_event_channel setup w = (Ret (tx, rx), w1)"
    and "setup_command_channel setup w1 = (Ret (cx1, crx1), w2)"
    and "setup_command_channel setup w2 = (Ret (cx2, crx2), w3)"
    and "heartbeat_with_buffer (setup_overflow_checks setup) (supplied hb) = Some period"
    and "setup_spawn_listener setup \<lparr>client_sender = tx\<rparr>
      \<lparr>timer_period = from_millis (unat period), timer_receiver = Some crx2, timer_task = None\<rparr> w3 =
        (Ret (), w4)"
  shows "handle_connection_validation_result setup (Inr (hb, client)) dests w =
    (Ret (Accepted
      \<lparr>conn_session =
         \<lparr>destinations = dests, client_proxy = \<lparr>client_sender = tx\<rparr>,
          active_subscriptions_by_client_id = [], server_heartbeat_resetter = \<lparr>resetter_sender = cx1\<rparr>,
          client_heartbeat_resetter = \<lparr>resetter_sender = cx2\<rparr>, session_client = client\<rparr>,
       conn_first_event = EvConnected \<lparr>supplied = expected hb, expected = supplied hb\<rparr>,
       conn_from_server = rx,
       conn_server_heartbeat = \<lparr>timer_period = from_millis (unat (expected hb)),
         timer_receiver = Some crx1, timer_task = None\<rparr>\<rparr>), w4)"
proof -
  have create: "ResettableTimer_create (setup_command_channel setup) p w =
      (Ret (\<lparr>timer_period = p, timer_receiver = Some crx, timer_task = None\<rparr>, \<lparr>resetter_sender = cx\<rparr>), w')"
    if "setup_command_channel setup w = (Ret (cx, crx), w')" for p w cx crx w'
    using that by (simp add: ResettableTimer_create_def bind_io_def)
  have server: "heartbeat_timer setup (expected hb) w1 =
      (Ret (\<lparr>timer_period = from_millis (unat (expected hb)), timer_receiver = Some crx1,
         timer_task = None\<rparr>, \<lparr>resetter_sender = cx1\<rparr>), w2)"
    using create [OF assms(2)]
    by (auto simp: heartbeat_timer_def ResettableTimer_default_def word_gt_0)
  have zero: "period = 0" if "\<not> 0 < supplied hb"
    using that assms(4) by (simp add: heartbeat_with_buffer_def word_gt_0 split: if_splits)
  show ?thesis
    using zero assms(4,5)
    by (auto simp: handle_connection_validation_result_def open_connection_def bind_io_def assms(1)
        server create [OF assms(3)] ResettableTimer_default_def then_io_def ClientSession_new_def
        start_heartbeat_listener_def HeartBeatIntervalls_new_def)
qed


theorem open_connection_setup_witness:
  "\<exists>conn w'. handle_connection_validation_result rt_setup
      (Inr (\<lparr>supplied = 1000, expected = 0\<rparr>, DefaultClient)) rt_registry_handle runtime_start =
        (Ret (Accepted conn), w') \<and>
    conn_first_event conn = EvConnected \<lparr>supplied = 0, expected = 1000\<rparr> \<and>
    rt_listeners w' = [(\<lparr>client_sender = 0\<rparr>, \<lparr>timer_period = from_millis 1200,
      timer_receiver = Some 2, timer_task = None\<rparr>)]"
proof -
  let ?hb = "\<lparr>supplied = 1000, expected = 0\<rparr> :: HeartBeatIntervalls"
  let ?w1 = "runtime_start\<lparr>rt_events := mb_create 0 no_mailboxes, rt_next := 1\<rparr>"
  let ?w2 = "?w1\<lparr>rt_commands := mb_create 1 no_mailboxes, rt_next := 2\<rparr>"
  let ?w3 = "?w2\<lparr>rt_commands := mb_create 2 (mb_create 1 no_mailboxes), rt_next := 3\<rparr>"
  have tx: "setup_event_channel rt_setup runtime_start = (Ret (0, 0), ?w1)"
    by (simp add: rt_event_channel_def runtime_start_def)
  have cx1: "setup_command_channel rt_setup ?w1 = (Ret (1, 1), ?w2)"
    by (simp add: rt_command_channel_def runtime_start_def)
  have cx2: "setup_command_channel rt_setup ?w2 = (Ret (2, 2), ?w3)"
    by (simp add: rt_command_channel_def runtime_start_def)
  have buffer: "heartbeat_with_buffer (setup_overflow_checks rt_setup) (supplied ?hb) = Some 1200"
    by (simp add: heartbeat_with_buffer_def HEARTBEAT_BUFFER_PERCENT_def)
  have spawn: "setup_spawn_listener rt_setup \<lparr>client_sender = 0\<rparr>
      \<lparr>timer_period = from_millis (unat (1200 :: 32 word)), timer_receiver = Some 2, timer_task = None\<rparr> ?w3 =
        (Ret (), ?w3\<lparr>rt_listeners := [(\<lparr>client_sender = 0\<rparr>, \<lparr>timer_period = from_millis 1200,
          timer_receiver = Some 2, timer_task = None\<rparr>)]\<rparr>)"
    by (simp add: rt_spawn_listener_def runtime_start_def)
  from open_connection_setup [OF tx cx1 cx2 buffer spawn, of DefaultClient rt_registry_handle]
  show ?thesis by simp
qed


section \<open>The ends of \<open>process_stream\<close>\<close>

text \<open>
  C32: a client that is refused gets exactly one item, an ERROR frame with the reason, and the
  call ends with \<open>Ok\<close>: no session, channel, timer or subscription has been made.
\<close>

theorem refused_client_gets_one_error:
  assumes "validate_and_connect F first factory w = (Ret (Inl e), w1)"
    and "accepts sink sent"
  shows "\<exists>w2. process_stream setup env F serialise sink dests factory first events w = (Some (Inr ()), w2) \<and>
    sent w2 = sent w1 @ [serialise (ErrorF (message e))] \<and>
    sink (serialise (ErrorF (message e))) w1 = (Ret (Inr ()), w2)"
proof -
  obtain w2 where w2: "sink (serialise (ErrorF (message e))) w1 = (Ret (Inr ()), w2)"
      "sent w2 = sent w1 @ [serialise (ErrorF (message e))]"
    using assms(2) unfolding accepts_def by (metis prod.collapse)
  have item: "forward_item serialise sink (Inr (Dead, Some (Inl (ErrorF (message e))))) w1 =
      (Ret (Inr ()), w2)"
    by (simp add: forward_item_def into_opt_ok_of_bytes_def w2)
  have "forward_item serialise sink linger w2 = (Ret (Inr ()), w2)"
    by (simp add: forward_item_def into_opt_ok_of_bytes_def linger_def)
  with item w2 show ?thesis
    by (simp add: process_stream_def join_response_task_def response_task_def response_task_of_def Let_def bind_io_def assms(1)
        handle_connection_validation_result_def)
qed

theorem refused_client_gets_one_error_witness:
  "\<exists>w2. process_stream rt_setup rt_env default_client_factory (\<lambda>_. [69]) (rt_sink 0) rt_registry_handle
      DefaultClientFactory (Some EvClientHeartbeat) [EvClose] runtime_start = (Some (Inr ()), w2) \<and>
    rt_sent w2 0 = [[69]]"
proof -
  have refused: "validate_and_connect default_client_factory (Some EvClientHeartbeat) DefaultClientFactory
      runtime_start = (Ret (Inl (StomperError_new ''First message must be a CONNECT frame'')), runtime_start)"
    by (simp add: validate_and_connect_def)
  have "accepts (rt_sink 0) (\<lambda>w. rt_sent w 0)"
    by (simp add: accepts_def rt_sink_def)
  from refused_client_gets_one_error [OF refused this, of rt_setup rt_env "\<lambda>_. [69]" rt_registry_handle "[EvClose]"]
  show ?thesis by (auto simp: runtime_start_def)
qed



end
