(* ===== verification/Destination_Spec.thy ===== *)
theory Destination_Spec
  imports Runtime
begin

text \<open>
  What a destination promises, handle and backend together: its invariant, the fan-out of a
  message, the refinement of its task to a topic, what the handle does with the channel open and
  closed, what the registry does with names, and where the code falls short of the contract.
\<close>

section \<open>The backend\<close>

text \<open>
  Whatever subscribers and senders do, each action that is handled without a panic leaves
  the backend of the same destination with one subscription per id, each filed under its own id;
  only \<open>Close\<close> stops the loop, and it changes nothing.
\<close>

theorem backend_invariant:
  assumes "handle_action S K iter u self a w = (Ret r, w')" "backend_wf self"
  shows "(case r of Continue self' \<Rightarrow> a \<noteq> ActClose \<and> backend_wf self' \<and> backend_id self' = backend_id self
          | Break self' \<Rightarrow> a = ActClose \<and> self' = self)"
  using handle_action_wf [OF assms] assms(1)
  by (cases a) (auto simp: bind_io_eq_Ret_iff split: flow.split)

definition demo_backend :: backend where
  "demo_backend = \<lparr>backend_id = DestinationId ''d'',
     subscriptions =
       [(SubscriptionId ''u1'', \<lparr>subscription_id = SubscriptionId ''u1'',
          subscriber_sub_id = Some (SubscriptionId ''c1''), send_fn = SendFn \<lparr>client_sender = 0\<rparr>\<rparr>),
        (SubscriptionId ''u2'', \<lparr>subscription_id = SubscriptionId ''u2'',
          subscriber_sub_id = Some (SubscriptionId ''c2''), send_fn = SendFn \<lparr>client_sender = 1\<rparr>\<rparr>)]\<rparr>"

text \<open>Client 0 is connected, client 1 has left.\<close>

definition demo_clients :: runtime where
  "demo_clients = runtime_start\<lparr>rt_events := mb_create 0 no_mailboxes, rt_next := 2\<rparr>"

abbreviation "demo_hi \<equiv> \<lparr>sender_message_id = None, in_body = [104, 105]\<rparr>"

abbreviation demo_sender :: "pointer SendCallback" where
  "demo_sender \<equiv> SendCallback \<lparr>client_sender = 0\<rparr>"

lemma demo_backend_wf: "backend_wf demo_backend" "client_ids demo_backend"
  by (simp_all add: backend_wf_def client_ids_def demo_backend_def distinct_keys_def)

theorem backend_invariant_witness:
  "\<exists>self' w'. handle_action rt_subscriber async_sender id ''m''
      demo_backend (ActSend demo_hi demo_sender) demo_clients = (Ret (Continue self'), w') \<and>
    backend_wf self'"
proof -
  let ?a = "ActSend demo_hi demo_sender :: action"
  have adm: "admissible (topic_of demo_backend) ?a" by simp
  obtain self' w' where "handle_action (async_subscriber rt_event_send) async_sender id ''m''
      demo_backend ?a demo_clients = (Ret (if ?a = ActClose then Break demo_backend else Continue self'), w')"
    by (rule rt_event.stomp.handle_action_refines [OF demo_backend_wf hash_order_id(1) adm]) (rule that)
  then have "handle_action rt_subscriber async_sender id ''m'' demo_backend ?a demo_clients =
      (Ret (Continue self'), w')"
    by (simp add: rt_subscriber_def del: handle_action.simps)
  moreover from backend_invariant [OF this demo_backend_wf(1)] have "backend_wf self'" by simp
  ultimately show ?thesis by blast
qed

text \<open>
  C18: a message that reaches the backend goes, with the destination's name, a new message id and
  the body unchanged, to every live subscriber once for each subscription it holds, under the
  subscriber's own id and in one iteration order of the map; the dead subscribers'
  subscriptions are dropped, and no others; no subscriber's liveness changes.
\<close>

theorem send_fans_out:
  assumes "messaging_contract S live inbox K"
    and "backend_wf self" "client_ids self" "hash_order iter"
  shows "\<exists>w'. backend_send S K iter u self msg cb w =
      (Ret (self\<lparr>subscriptions :=
         filter (\<lambda>(k, s). live (subscriber_of s) w) (subscriptions self)\<rparr>), w') \<and>
    (\<forall>q. live q w' = live q w \<and> inbox q w' = inbox q w @
       (if live q w
        then map (\<lambda>s. Notice_Message (the (subscriber_sub_id s))
               \<lparr>out_destination = backend_id self, out_message_id = MessageId u, out_body = in_body msg\<rparr>)
             (filter (\<lambda>s. subscriber_of s = q) (map snd (iter (subscriptions self))))
        else []))"
  by (rule messaging_contract.backend_send_spec [OF assms, of u msg cb w])
    (auto simp: delivered_def)

lemma rt_contract:
  "messaging_contract rt_subscriber (\<lambda>p w. mb_open (rt_events w) (client_sender p))
     (\<lambda>p w. List.map_filter notice_of_event (mb_queue (rt_events w) (client_sender p))) async_sender"
  unfolding rt_subscriber_def by (rule rt_event.stomp.messaging_contract_axioms)

theorem send_fans_out_witness:
  "\<exists>self' w'. backend_send rt_subscriber async_sender id ''m'' demo_backend demo_hi
      demo_sender demo_clients = (Ret self', w') \<and>
    map fst (subscriptions self') = [SubscriptionId ''u1''] \<and>
    List.map_filter notice_of_event (mb_queue (rt_events w') 0) =
      [Notice_Message (SubscriptionId ''c1'') \<lparr>out_destination = DestinationId ''d'',
         out_message_id = MessageId ''m'', out_body = [104, 105]\<rparr>]"
proof -
  obtain w' where w': "backend_send rt_subscriber async_sender id ''m'' demo_backend demo_hi
      demo_sender demo_clients =
        (Ret (demo_backend\<lparr>subscriptions := filter (\<lambda>(k, s).
           mb_open (rt_events demo_clients) (client_sender (subscriber_of s))) (subscriptions demo_backend)\<rparr>), w')"
    and inbox: "\<And>q :: pointer. List.map_filter notice_of_event (mb_queue (rt_events w') (client_sender q)) =
      List.map_filter notice_of_event (mb_queue (rt_events demo_clients) (client_sender q)) @
       (if mb_open (rt_events demo_clients) (client_sender q)
        then map (\<lambda>s. Notice_Message (the (subscriber_sub_id s))
               \<lparr>out_destination = backend_id demo_backend, out_message_id = MessageId ''m'', out_body = in_body demo_hi\<rparr>)
             (filter (\<lambda>s. subscriber_of s = q) (map snd (id (subscriptions demo_backend))))
        else [])"
    using send_fans_out [OF rt_contract demo_backend_wf hash_order_id(1), of "''m''" demo_hi
        demo_sender demo_clients]
    by blast
  have "List.map_filter notice_of_event (mb_queue (rt_events w') 0) =
      [Notice_Message (SubscriptionId ''c1'') \<lparr>out_destination = DestinationId ''d'',
         out_message_id = MessageId ''m'', out_body = [104, 105]\<rparr>]"
    using inbox [of "\<lparr>client_sender = 0\<rparr>"]
    by (simp add: demo_backend_def demo_clients_def)
  moreover have "map fst (filter (\<lambda>(k, s). mb_open (rt_events demo_clients)
      (client_sender (subscriber_of s))) (subscriptions demo_backend)) = [SubscriptionId ''u1'']"
    by (simp add: demo_backend_def demo_clients_def)
  ultimately show ?thesis using w' by fastforce
qed


text \<open>
  C17: the task of a destination implements the abstract topic. On any sequence of actions in
  which subscriptions carry the subscriber's id and unsubscriptions name a subscription that is
  there, it runs to its end without a panic; its map of subscriptions abstracts to the topic's;
  and every live subscriber has received exactly the topic's notices, those of an action before
  those of the next one, so that messages arrive in the order in which they were sent.
\<close>

theorem destination_refines_topic:
  assumes "messaging_contract S live inbox K"
    and "hash_order iter" "admissible_run (\<lambda>q. live q w) received Map.empty"
    and "\<And>w. fst (receiver_close w) = Ret ()" "\<And>q w. inbox q (snd (receiver_close w)) = inbox q w"
  shows "\<exists>self' w'. listen_on S K iter receiver_close (backend_start d) received w = (Ret self', w') \<and>
    topic_of self' = topic_run (\<lambda>q. live q w) received Map.empty \<and>
    (\<forall>q. \<exists>new. inbox q w' = inbox q w @ new \<and>
      (if live q w then in_blocks (topic_run_notices (\<lambda>q. live q w) d received Map.empty q) new
       else new = []))"
proof -
  have start: "backend_id (backend_start d) = d" by (simp add: backend_start_def)
  have adm: "admissible_run (\<lambda>q. live q w) received (topic_of (backend_start d))"
    using assms(3) by simp
  show ?thesis
    using messaging_contract.listen_on_refines [OF assms(1) backend_wf_start [of d] assms(2) adm assms(4,5),
        unfolded start topic_of_start]
    by blast
qed

abbreviation demo_actions :: "(string \<times> action) list" where
  "demo_actions \<equiv>
     [(''u1'', ActSubscribe (Some (SubscriptionId ''c1'')) (SubscribeCallback \<lparr>client_sender = 0\<rparr>)
         (SendFn \<lparr>client_sender = 0\<rparr>)),
      (''u2'', ActUnsubscribe (SubscriptionId ''u1'') (UnsubscribeCallback \<lparr>client_sender = 0\<rparr>)),
      (''u3'', ActSend demo_hi demo_sender)]"

theorem destination_refines_topic_witness:
  "\<exists>self' w'. listen_on rt_subscriber async_sender id (ret_io ()) (backend_start (DestinationId ''d''))
      demo_actions demo_clients = (Ret self', w') \<and>
    topic_of self' = Map.empty \<and>
    List.map_filter notice_of_event (mb_queue (rt_events w') 0) =
      [Notice_Subscribed (DestinationId ''d'') (SubscriptionId ''c1'') (Inr (SubscriptionId ''u1'')),
       Notice_Unsubscribed (SubscriptionId ''c1'') (Inr (SubscriptionId ''u1''))]"
proof -
  have adm: "admissible_run (\<lambda>q. mb_open (rt_events demo_clients) (client_sender q)) demo_actions Map.empty"
    by simp
  obtain self' w' where w': "listen_on rt_subscriber async_sender id (ret_io ())
      (backend_start (DestinationId ''d'')) demo_actions demo_clients = (Ret self', w')"
    and topic: "topic_of self' =
      topic_run (\<lambda>q. mb_open (rt_events demo_clients) (client_sender q)) demo_actions Map.empty"
    and inbox: "\<And>q :: pointer. \<exists>new. List.map_filter notice_of_event (mb_queue (rt_events w') (client_sender q)) =
      List.map_filter notice_of_event (mb_queue (rt_events demo_clients) (client_sender q)) @ new \<and>
      (if mb_open (rt_events demo_clients) (client_sender q)
       then in_blocks (topic_run_notices (\<lambda>q. mb_open (rt_events demo_clients) (client_sender q)) (DestinationId ''d'')
         demo_actions Map.empty q) new else new = [])"
    using destination_refines_topic [OF rt_contract hash_order_id(1) adm, of "ret_io ()" "DestinationId ''d''"]
    by auto
  have "topic_of self' = Map.empty"
    using topic by (simp add: fun_eq_iff)
  moreover have "List.map_filter notice_of_event (mb_queue (rt_events w') 0) =
      [Notice_Subscribed (DestinationId ''d'') (SubscriptionId ''c1'') (Inr (SubscriptionId ''u1'')),
       Notice_Unsubscribed (SubscriptionId ''c1'') (Inr (SubscriptionId ''u1''))]"
    using inbox [of "\<lparr>client_sender = 0\<rparr>"]
      append_take_drop_id [of "Suc 0" "List.map_filter notice_of_event (mb_queue (rt_events w') 0)"]
    by (auto simp: demo_clients_def topic_fanout_def mset_single_iff)
  ultimately show ?thesis using w' by (intro exI conjI)
qed


section \<open>Subscribing and unsubscribing\<close>

text \<open>
  C23: subscribing and then unsubscribing with the id that the destination has handed out is a
  round trip: nothing panics, the task's state is the one before, entry for entry, and the
  subscriber has got exactly the two confirmations, both under its own id; nobody else has got
  anything.
\<close>

theorem subscribe_roundtrip:
  assumes "subscriber_contract S live inbox" "map_of (subscriptions self) (SubscriptionId u) = None"
    and "\<And>w. fst (receiver_close w) = Ret ()" "\<And>q w. inbox q (snd (receiver_close w)) = inbox q w"
  shows "\<exists>w'. listen_on S K iter receiver_close self
      [(u, ActSubscribe (Some c) (to_subscribe_callback p) (to_send_fn p)),
       (v, ActUnsubscribe (SubscriptionId u) (to_unsubscribe_callback p))] w = (Ret self, w') \<and>
    (\<forall>q. inbox q w' = inbox q w @ (if q = p \<and> live p w
       then [Notice_Subscribed (backend_id self) c (Inr (SubscriptionId u)),
             Notice_Unsubscribed c (Inr (SubscriptionId u))] else []))"
proof -
  let ?uid = "SubscriptionId u"
  let ?sub = "\<lparr>subscription_id = ?uid, subscriber_sub_id = Some c, send_fn = to_send_fn p\<rparr>"
  note laws = subscriber_contract.contract_simps [OF assms(1)]
  obtain w1 where c1: "subscribe_callback S p (backend_id self) (Some c) (Inr ?uid) w = (Ret (), w1)"
    using laws(1) by (metis prod.collapse)
  obtain w2 where c2: "unsubscribe_callback S p (Some c) (Inr ?uid) w1 = (Ret (), w2)"
    using laws(4) by (metis prod.collapse)
  obtain w3 where c3: "receiver_close w2 = (Ret (), w3)"
    using assms(3) by (metis prod.collapse)
  have inbox: "inbox q w3 = inbox q w @ (if q = p \<and> live p w
       then [Notice_Subscribed (backend_id self) c (Inr ?uid), Notice_Unsubscribed c (Inr ?uid)] else [])" for q
    using laws(2,3) [of _ p "backend_id self" c "Inr ?uid" w] laws(5) [of _ p c "Inr ?uid" w1] assms(4) [of _ w2]
    by (simp add: c1 c2 c3)
  have upd: "AList.update ?uid ?sub (subscriptions self) = subscriptions self @ [(?uid, ?sub)]"
    using assms(2) by (rule update_fresh)
  have del: "AList.delete ?uid (subscriptions self) = subscriptions self"
    using assms(2) by (simp add: map_of_eq_None_iff delete_idem)
  have "handle_action S K iter u self (ActSubscribe (Some c) (to_subscribe_callback p) (to_send_fn p)) w =
      (Ret (Continue (self\<lparr>subscriptions := subscriptions self @ [(?uid, ?sub)]\<rparr>)), w1)"
    by (simp add: add_subscription_def Let_def then_io_def bind_io_def c1 update_conv' upd [symmetric]
        to_subscribe_callback_def)
  moreover have "handle_action S K iter v (self\<lparr>subscriptions := subscriptions self @ [(?uid, ?sub)]\<rparr>)
      (ActUnsubscribe ?uid (to_unsubscribe_callback p)) w1 = (Ret (Continue self), w2)"
    using assms(2) del by (simp add: remove_subscription_def Let_def then_io_def bind_io_def c2 map_add_def
        to_unsubscribe_callback_def delete_eq_filter)
  ultimately have "listen_on S K iter receiver_close self
      [(u, ActSubscribe (Some c) (to_subscribe_callback p) (to_send_fn p)),
       (v, ActUnsubscribe ?uid (to_unsubscribe_callback p))] w = (Ret self, w3)"
    by (simp add: bind_io_def then_io_def c3 del: handle_action.simps)
  with inbox show ?thesis by blast
qed

theorem subscribe_roundtrip_witness:
  "\<exists>w'. listen_on rt_subscriber async_sender id (ret_io ()) demo_backend
      [(''u3'', ActSubscribe (Some (SubscriptionId ''c3'')) (to_subscribe_callback \<lparr>client_sender = 0\<rparr>)
          (to_send_fn \<lparr>client_sender = 0\<rparr>)),
       (''u4'', ActUnsubscribe (SubscriptionId ''u3'') (to_unsubscribe_callback \<lparr>client_sender = 0\<rparr>))]
      demo_clients = (Ret demo_backend, w')"
proof -
  have fresh: "map_of (subscriptions demo_backend) (SubscriptionId ''u3'') = None"
    by (simp add: demo_backend_def)
  have contract: "subscriber_contract rt_subscriber (\<lambda>p w. mb_open (rt_events w) (client_sender p))
      (\<lambda>p w. List.map_filter notice_of_event (mb_queue (rt_events w) (client_sender p)))"
    using rt_contract by (rule messaging_contract.axioms(1))
  from subscribe_roundtrip [OF contract fresh, of "ret_io ()" async_sender id "SubscriptionId ''c3''"
      "\<lparr>client_sender = 0\<rparr>" "''u4''" demo_clients]
  show ?thesis by auto
qed


section \<open>Where the backend crashes\<close>

text \<open>
  An \<open>Unsubscribe\<close> for an id the map does not hold, as a second UNSUBSCRIBE leads to, panics
  inside the callback of a STOMP client. It ends the destination's task on the spot: the actions
  behind it are never handled, and the receiver is not closed by the task.
\<close>

theorem unsubscribe_absent_kills_destination:
  assumes "map_of (subscriptions self) i = None"
  shows "\<exists>msg. listen_on (async_subscriber tx_send) K iter receiver_close self
    ((u, ActUnsubscribe i (to_unsubscribe_callback p)) # received) w = (Panic msg, w)"
  using assms
  by (simp add: remove_subscription_def Let_def then_io_def bind_io_def async_subscriber_def
      asc_unsubscribe_callback_def unwrap_subscriber_sub_id_def to_unsubscribe_callback_def)

theorem unsubscribe_absent_kills_destination_witness:
  "\<exists>msg. listen_on (async_subscriber rt_event_send) async_sender id (ret_io ()) demo_backend
    ((''x'', ActUnsubscribe (SubscriptionId ''gone'') (to_unsubscribe_callback \<lparr>client_sender = 0\<rparr>)) # demo_actions)
    demo_clients = (Panic msg, demo_clients)"
  by (rule unsubscribe_absent_kills_destination) (simp add: demo_backend_def)


section \<open>The handle\<close>

definition enqueued ::
  "('tx \<Rightarrow> 'w \<Rightarrow> ('p, 'k) DestinationAction list) \<Rightarrow> 'tx \<Rightarrow> ('p, 'k) DestinationAction \<Rightarrow> ('w, unit) io \<Rightarrow> 'w \<Rightarrow> bool" where
  "enqueued rx_queue t a m w \<longleftrightarrow> (\<exists>w'. m w = (Ret (), w') \<and> rx_queue t w' = rx_queue t w @ [a])"

text \<open>
  C24: while its backend runs, each operation of the handle appends exactly its action to the
  backend's queue and calls nobody back. Once the backend is gone, nothing is enqueued: a
  subscriber is told "Subscribe failed" under its own id, a sender "Send failed", closing does
  nothing, and unsubscribing calls back without an id, on which a STOMP client panics.
\<close>

theorem handle_operations:
  assumes "unbounded_sender tx_send rx_open rx_queue"
  shows "if rx_open (imd_sender h) w
    then enqueued rx_queue (imd_sender h) (ActSubscribe c (SubscribeCallback p) (SendFn p))
        (imd_subscribe tx_send S h c p client) w \<and>
      enqueued rx_queue (imd_sender h) (ActUnsubscribe i (UnsubscribeCallback p))
        (imd_unsubscribe tx_send S h i p client) w \<and>
      enqueued rx_queue (imd_sender h) (ActSend m (SendCallback k)) (imd_send tx_send K h m k client) w \<and>
      enqueued rx_queue (imd_sender h) ActClose (imd_close tx_send h) w
    else imd_subscribe tx_send S h c p client w =
        subscribe_callback S p (imd_id h) c (Inl (StomperError_new ''Subscribe failed'')) w \<and>
      imd_unsubscribe tx_send S h i p client w =
        unsubscribe_callback S p None (Inl (StomperError_new ''Unsubscribe failed'')) w \<and>
      imd_send tx_send K h m k client w =
        send_callback K k (sender_message_id m) (Inl (StomperError_new ''Send failed'')) w \<and>
      imd_close tx_send h w = (Ret (), w) \<and>
      (\<exists>msg. imd_unsubscribe tx_send (async_subscriber ev_send) h i q client w = (Panic msg, w))"
proof (cases "rx_open (imd_sender h) w")
  case True
  note send = unbounded_sender.bind_send [OF assms] unbounded_sender.queue_send [OF assms]
  from True show ?thesis
    by (simp add: enqueued_def imd_subscribe_def imd_unsubscribe_def imd_send_def imd_close_def
        perform_action_def send to_subscribe_callback_def to_send_fn_def to_unsubscribe_callback_def
        to_send_callback_def)
next
  case False
  then show ?thesis
    by (simp add: imd_subscribe_def imd_unsubscribe_def imd_send_def imd_close_def bind_io_def
        perform_action_def unbounded_sender.send_closed [OF assms] to_subscribe_callback_def
        to_send_fn_def to_unsubscribe_callback_def to_send_callback_def async_subscriber_def
        asc_unsubscribe_callback_def unwrap_subscriber_sub_id_def)
qed


theorem handle_operations_witness:
  "enqueued (\<lambda>t w. mb_queue (rt_actions w) t) 7 ActClose
     (imd_close rt_action_send \<lparr>imd_id = DestinationId ''d'', imd_sender = 7\<rparr>)
     (runtime_start\<lparr>rt_actions := mb_create 7 no_mailboxes\<rparr>) \<and>
   imd_send rt_action_send async_sender \<lparr>imd_id = DestinationId ''d'', imd_sender = 7\<rparr> demo_hi
     (\<lparr>client_sender = 0\<rparr> :: pointer) DefaultClient runtime_start = (Ret (), runtime_start)"
proof -
  let ?h = "\<lparr>imd_id = DestinationId ''d'', imd_sender = 7 :: nat\<rparr>"
  note handle = handle_operations [OF rt_action.unbounded_sender_axioms,
      where h = ?h and S = rt_subscriber and K = "async_sender :: (pointer, runtime) Sender"
        and p = "\<lparr>client_sender = 0\<rparr>" and k = "\<lparr>client_sender = 0\<rparr>" and m = demo_hi
        and client = DefaultClient and ev_send = rt_event_send and q = "\<lparr>client_sender = 0\<rparr>"]
  show ?thesis
    using handle [where w = "runtime_start\<lparr>rt_actions := mb_create 7 no_mailboxes\<rparr>"]
      handle [where w = runtime_start]
    by (simp add: runtime_start_def async_sender_def)
qed


section \<open>The registry\<close>

text \<open>
  SUBSCRIBE finds or creates the destination of that name and hands the subscription to it;
  no other name is created, changed or removed. From then on, as long as the map keeps the name,
  SEND and UNSUBSCRIBE for it go to that same destination.
\<close>

theorem registry_subscribe_then_send:
  assumes "get_or_create_map vm contents invar" "invar (ad_destinations self) w"
  shows "\<exists>d w1. contents (ad_destinations self) w1 =
      (contents (ad_destinations self) w)(task_destination task \<mapsto> d) \<and>
    run_subscribe_task vm D self task w =
      destination_subscribe D d (task_subscriber_sub_id task) (task_subscriber task) (task_client task) w1 \<and>
    (\<forall>w2. invar (ad_destinations self) w2 \<and> contents (ad_destinations self) w2 (task_destination task) = Some d \<longrightarrow>
      ad_send vm D K self (task_destination task) msg sender client w2 =
        destination_send D d msg sender client w2 \<and>
      ad_unsubscribe vm D self (task_destination task) i subscriber client w2 =
        destination_unsubscribe D d i subscriber client w2)"
proof -
  note map_laws = assms(1) [unfolded get_or_create_map_def]
  obtain d w1 where "vm_get vm (ad_destinations self) (task_destination task) (ad_factory self) w = (Ret d, w1)"
      "contents (ad_destinations self) w1 = (contents (ad_destinations self) w)(task_destination task \<mapsto> d)"
    using map_laws assms(2)
    by (cases "contents (ad_destinations self) w (task_destination task)") (metis fun_upd_triv)+
  then show ?thesis
    using get_or_create_map.get_if_present [OF assms(1)]
    by (intro exI [of _ d] exI [of _ w1])
      (simp add: run_subscribe_task_def ad_send_def ad_unsubscribe_def bind_io_def)
qed

theorem registry_subscribe_then_send_witness:
  "\<exists>d w1. rt_registry w1 = [DestinationId ''d'' \<mapsto> d] \<and>
    run_subscribe_task rt_map rt_destination rt_registry_handle
      \<lparr>task_destination = DestinationId ''d'', task_subscriber_sub_id = Some (SubscriptionId ''c''),
       task_subscriber = \<lparr>client_sender = 0\<rparr>, task_client = DefaultClient\<rparr> runtime_start =
      destination_subscribe rt_destination d (Some (SubscriptionId ''c'')) \<lparr>client_sender = 0\<rparr> DefaultClient w1"
proof -
  show ?thesis
    using registry_subscribe_then_send [OF rt_registry.get_or_create_map_axioms, where
        self = rt_registry_handle and w = runtime_start and D = rt_destination and
        task = "\<lparr>task_destination = DestinationId ''d'', task_subscriber_sub_id = Some (SubscriptionId ''c''),
          task_subscriber = \<lparr>client_sender = 0\<rparr>, task_client = DefaultClient\<rparr>" and
        K = "async_sender :: (pointer, runtime) Sender" and msg = demo_hi and
        sender = "\<lparr>client_sender = 0\<rparr>" and client = DefaultClient and i = "SubscriptionId ''u''" and
        subscriber = "\<lparr>client_sender = 0\<rparr>"]
    by (auto simp: runtime_start_def)
qed

text \<open>
  Sending to a name that nobody has subscribed to creates nothing: the sender is called back
  with "Unknown destination", which a STOMP client ignores, and unsubscribing from it is ignored.
\<close>

theorem registry_unknown_name:
  assumes "get_or_create_map vm contents invar" "invar (ad_destinations self) w"
    and "contents (ad_destinations self) w name = None"
  shows "ad_send vm D K self name msg sender client w =
      send_callback K sender (sender_message_id msg)
        (Inl (StomperError_new (''Unknown destination '' @ [CHR 0x27] @ dest_id_str name @ [CHR 0x27]))) w \<and>
    ad_unsubscribe vm D self name i subscriber client w = (Ret (), w) \<and>
    ad_send vm D async_sender self name msg proxy client w = (Ret (), w)"
  using get_or_create_map.get_if_present [OF assms(1,2), of name] assms(3)
  by (simp add: ad_send_def ad_unsubscribe_def bind_io_def async_sender_def)

theorem registry_unknown_name_witness:
  "ad_send rt_map rt_destination async_sender rt_registry_handle (DestinationId ''d'') demo_hi
     (\<lparr>client_sender = 0\<rparr> :: pointer) DefaultClient runtime_start = (Ret (), runtime_start)"
proof -
  have absent: "rt_registry runtime_start (DestinationId ''d'') = None"
    by (simp add: runtime_start_def)
  show ?thesis
    using registry_unknown_name [OF rt_registry.get_or_create_map_axioms TrueI, where
        self = rt_registry_handle and w = runtime_start and name = "DestinationId ''d''" and
        D = rt_destination and msg = demo_hi and client = DefaultClient and i = "SubscriptionId ''u''" and
        subscriber = "\<lparr>client_sender = 0\<rparr>" and sender = "\<lparr>client_sender = 0\<rparr> :: pointer" and
        proxy = "\<lparr>client_sender = 0\<rparr> :: pointer" and K = "async_sender :: (pointer, runtime) Sender", OF absent]
    by blast
qed

end
