(* ===== verification/Broker.thy ===== *)
theory Broker
  imports Connect_Spec Destination_Spec
begin

text \<open>
  The whole server: any number of sessions, the registry and the destinations' tasks, each task
  taking its next event or action whenever the executor lets it. One step is one turn of one
  task, run by the handlers of \<open>Session\<close>, \<open>Registry\<close> and \<open>Backend\<close> in the runtime.
\<close>

section \<open>State\<close>

text \<open>
  \<open>asked\<close>, \<open>spoken\<close>, \<open>said\<close> and \<open>requests\<close> are ghosts that no turn reads: the SUBSCRIBE frames
  (session, subscription id, destination) and the SEND frames (destination, body) that sessions
  have handled, the latter also in their order (by session), and how many SUBSCRIBE frames of a
  session were for a destination. \<open>outbox\<close> is what each session has produced for its client.
\<close>

record broker =
  net :: runtime
  sessions :: "nat \<rightharpoonup> session"
  outbox :: "nat \<Rightarrow> ServerMessage list"
  asked :: "(nat \<times> SubscriptionId \<times> DestinationId) set"
  spoken :: "(DestinationId \<times> bytes) set"
  said :: "DestinationId \<Rightarrow> (nat \<times> bytes) list"
  requests :: "nat \<Rightarrow> DestinationId \<Rightarrow> nat"

definition broker_start :: broker where
  "broker_start = \<lparr>net = runtime_start, sessions = Map.empty, outbox = (\<lambda>_. []), asked = {}, spoken = {},
     said = (\<lambda>_. []), requests = (\<lambda>_ _. 0)\<rparr>"

fun asks :: "nat \<Rightarrow> ClientEvent \<Rightarrow> (nat \<times> SubscriptionId \<times> DestinationId) set" where
  "asks i (EvClientFrame (Inr (Subscribe f))) =
     {(i, SubscriptionId (subscribe_id f), DestinationId (subscribe_destination f))}"
| "asks i _ = {}"

fun speaks :: "ClientEvent \<Rightarrow> (DestinationId \<times> bytes) set" where
  "speaks (EvClientFrame (Inr (Send f))) =
     (case send_body f of Some b \<Rightarrow> {(DestinationId (send_destination f), b)} | None \<Rightarrow> {})"
| "speaks _ = {}"

fun says :: "nat \<Rightarrow> ClientEvent \<Rightarrow> DestinationId \<Rightarrow> (nat \<times> bytes) list" where
  "says i (EvClientFrame (Inr (Send f))) d =
     (case send_body f of
        Some b \<Rightarrow> if d = DestinationId (send_destination f) then [(i, b)] else []
      | None \<Rightarrow> [])"
| "says i _ d = []"

fun requesting :: "nat \<Rightarrow> ClientEvent \<Rightarrow> nat \<Rightarrow> DestinationId \<Rightarrow> nat" where
  "requesting i (EvClientFrame (Inr (Subscribe f))) j d =
     (if j = i \<and> d = DestinationId (subscribe_destination f) then 1 else 0)"
| "requesting i _ j d = 0"

definition note_frames :: "nat \<Rightarrow> ClientEvent \<Rightarrow> broker \<Rightarrow> broker" where
  "note_frames i e b =
     b\<lparr>asked := asked b \<union> asks i e, spoken := spoken b \<union> speaks e,
       said := (\<lambda>d. said b d @ says i e d),
       requests := (\<lambda>j d. requests b j d + requesting i e j d)\<rparr>"

lemma note_frames_simps [simp]:
  "net (note_frames i e b) = net b" "sessions (note_frames i e b) = sessions b"
  "outbox (note_frames i e b) = outbox b" "asked (note_frames i e b) = asked b \<union> asks i e"
  "spoken (note_frames i e b) = spoken b \<union> speaks e"
  "said (note_frames i e b) d = said b d @ says i e d"
  "requests (note_frames i e b) j d = requests b j d + requesting i e j d"
  by (simp_all add: note_frames_def)


section \<open>Turns\<close>

text \<open>
  A session handles one event. When its stream ends, or its task panics, the receiver of its
  events is dropped with what is queued in it.
\<close>

definition end_session :: "nat \<Rightarrow> broker \<Rightarrow> broker" where
  "end_session i b =
     b\<lparr>net := (net b)\<lparr>rt_events := mb_close i (rt_events (net b))\<rparr>, sessions := (sessions b)(i := None)\<rparr>"

definition result_output :: "SessionResult \<Rightarrow> ServerMessage list" where
  "result_output r = (case r of Inr (_, Some m) \<Rightarrow> [m] | _ \<Rightarrow> [])"

definition session_turn :: "nat \<Rightarrow> session \<Rightarrow> ClientEvent \<Rightarrow> broker \<Rightarrow> broker" where
  "session_turn i s e b =
     (let b = note_frames i e b
      in case handle_event rt_env s e (net b) of
           (Panic _, w') \<Rightarrow> end_session i (b\<lparr>net := w'\<rparr>)
         | (Ret (r, s'), w') \<Rightarrow>
             if not_dead r
             then b\<lparr>net := w', sessions := (sessions b)(i \<mapsto> s'),
               outbox := (outbox b)(i := outbox b i @ result_output r)\<rparr>
             else end_session i (b\<lparr>net := w'\<rparr>))"

text \<open>The task of destination \<open>t\<close> handles one action; when it ends or panics, its receiver is dropped.\<close>

definition backend_turn ::
  "((SubscriptionId \<times> pointer Subscription) list \<Rightarrow> (SubscriptionId \<times> pointer Subscription) list) \<Rightarrow>
    nat \<Rightarrow> string \<Rightarrow> backend \<Rightarrow> action \<Rightarrow> runtime \<Rightarrow> runtime" where
  "backend_turn iter t u bk a w =
     (case handle_action rt_subscriber async_sender iter u bk a (w\<lparr>rt_actions := mb_take t (rt_actions w)\<rparr>) of
        (Ret (Continue bk'), w') \<Rightarrow> w'\<lparr>rt_backends := (rt_backends w')(t \<mapsto> bk')\<rparr>
      | (_, w') \<Rightarrow> w'\<lparr>rt_backends := (rt_backends w')(t := None),
          rt_actions := mb_close t (rt_actions w')\<rparr>)"

text \<open>
  The events that do not come from a session's queue: the stream from the client, the server's
  heartbeat, and the first event.
\<close>

fun external :: "ClientEvent \<Rightarrow> bool" where
  "external (EvConnected hb) \<longleftrightarrow> True"
| "external (EvClientFrame r) \<longleftrightarrow> True"
| "external EvClientHeartbeat \<longleftrightarrow> True"
| "external EvHeartbeat \<longleftrightarrow> True"
| "external EvClose \<longleftrightarrow> True"
| "external _ \<longleftrightarrow> False"

text \<open>
  The turns the server takes by itself: a session handles an event from its queue, a task that
  \<open>subscribe\<close> has spawned runs, a destination handles an action from its queue.
\<close>

inductive internal_step :: "broker \<Rightarrow> broker \<Rightarrow> bool" where
  from_server:
    "sessions b i = Some s \<Longrightarrow> mb_queue (rt_events (net b)) i = e # rest \<Longrightarrow>
     internal_step b (session_turn i s e (b\<lparr>net := (net b)\<lparr>rt_events := mb_take i (rt_events (net b))\<rparr>\<rparr>))"
| subscribe_task:
    "rt_spawned (net b) = before @ task # after \<Longrightarrow>
     internal_step b (b\<lparr>net := snd (run_subscribe_task rt_map rt_destination rt_registry_handle task
       ((net b)\<lparr>rt_spawned := before @ after\<rparr>))\<rparr>)"
| backend:
    "rt_backends (net b) t = Some bk \<Longrightarrow> mb_queue (rt_actions (net b)) t = a # rest \<Longrightarrow> hash_order iter \<Longrightarrow>
     internal_step b (b\<lparr>net := backend_turn iter t u bk a (net b)\<rparr>)"

text \<open>
  The other turns need the outside: a client connects, its stream or its server's heartbeat has
  an event for the session, the timer that watches the client fires, a timer's task takes a command,
  or the sink refuses what a session has produced, which ends \<open>forward\<close> and drops the session.
\<close>

inductive broker_step :: "broker \<Rightarrow> broker \<Rightarrow> bool" where
  connect:
    "handle_connection_validation_result rt_setup (Inr (hb, DefaultClient)) rt_registry_handle (net b) =
       (Ret (Accepted conn), w) \<Longrightarrow>
     broker_step b (b\<lparr>net := w, sessions := (sessions b)(conn_from_server conn \<mapsto> conn_session conn)\<rparr>)"
| from_client:
    "sessions b i = Some s \<Longrightarrow> external e \<Longrightarrow> broker_step b (session_turn i s e b)"
| listener:
    "(p, timer) \<in> set (rt_listeners (net b)) \<Longrightarrow>
     broker_step b (b\<lparr>net := snd (heartbeat_listener rt_event_send p (Some ()) (net b))\<rparr>)"
| sink_fails: "sessions b i = Some s \<Longrightarrow> broker_step b (end_session i b)"
| timer_task: "broker_step b (b\<lparr>net := (net b)\<lparr>rt_commands := mb_take t (rt_commands (net b))\<rparr>\<rparr>)"
| internal: "internal_step b b' \<Longrightarrow> broker_step b b'"

inductive reachable :: "broker \<Rightarrow> bool" where
  start: "reachable broker_start"
| step: "reachable b \<Longrightarrow> broker_step b b' \<Longrightarrow> reachable b'"

end
