(* ===== verification/Broker_Spec.thy ===== *)
theory Broker_Spec
  imports Broker
begin

text \<open>
  What the server as a whole promises in every reachable state: whatever the tasks' turns,
  nothing reaches a client that it has not subscribed to and that no client has sent; every
  destination behind a name keeps its invariant; and where it fails, a second UNSUBSCRIBE.
\<close>

section \<open>The invariant of the network\<close>

type_synonym asked_set = "(nat \<times> SubscriptionId \<times> DestinationId) set"
type_synonym spoken_set = "(DestinationId \<times> bytes) set"

fun event_ok :: "asked_set \<Rightarrow> spoken_set \<Rightarrow> nat \<Rightarrow> ClientEvent \<Rightarrow> bool" where
  "event_ok A P i (EvServerMessage c m) \<longleftrightarrow>
     (i, c, out_destination m) \<in> A \<and> (out_destination m, out_body m) \<in> P"
| "event_ok A P i (EvSubscribed d c r) \<longleftrightarrow> (i, c, d) \<in> A"
| "event_ok A P i _ \<longleftrightarrow> True"

fun action_ok :: "asked_set \<Rightarrow> spoken_set \<Rightarrow> DestinationId \<Rightarrow> action \<Rightarrow> bool" where
  "action_ok A P d (ActSubscribe c (SubscribeCallback p) (SendFn q)) \<longleftrightarrow>
     p = q \<and> (\<exists>c'. c = Some c' \<and> (client_sender p, c', d) \<in> A)"
| "action_ok A P d (ActUnsubscribe i cb) \<longleftrightarrow> True"
| "action_ok A P d (ActSend m cb) \<longleftrightarrow> (d, in_body m) \<in> P"
| "action_ok A P d ActClose \<longleftrightarrow> False"

definition backend_ok :: "asked_set \<Rightarrow> backend \<Rightarrow> bool" where
  "backend_ok A bk \<longleftrightarrow> backend_wf bk \<and>
     (\<forall>s \<in> snd ` set (subscriptions bk). \<exists>c. subscriber_sub_id s = Some c \<and>
        (client_sender (subscriber_of s), c, backend_id bk) \<in> A)"

definition task_ok :: "asked_set \<Rightarrow> (pointer, DefaultClient) SubscribeTask \<Rightarrow> bool" where
  "task_ok A task \<longleftrightarrow> (\<exists>c. task_subscriber_sub_id task = Some c \<and>
     (client_sender (task_subscriber task), c, task_destination task) \<in> A)"

text \<open>
  The names of the registry lead to destinations of that name over channels of their own; the
  queues, tasks and subscriptions mention only what was asked for and spoken.
\<close>

definition net_ok :: "asked_set \<Rightarrow> spoken_set \<Rightarrow> runtime \<Rightarrow> bool" where
  "net_ok A P w \<longleftrightarrow>
     (\<forall>i. list_all (event_ok A P i) (mb_queue (rt_events w) i)) \<and>
     (\<forall>d h. rt_registry w d = Some h \<longrightarrow> imd_id h = d \<and> imd_sender h < rt_next w \<and>
        list_all (action_ok A P d) (mb_queue (rt_actions w) (imd_sender h))) \<and>
     (\<forall>d h d' h'. rt_registry w d = Some h \<longrightarrow> rt_registry w d' = Some h' \<longrightarrow>
        imd_sender h = imd_sender h' \<longrightarrow> d = d') \<and>
     (\<forall>t bk. rt_backends w t = Some bk \<longrightarrow> backend_ok A bk \<and>
        rt_registry w (backend_id bk) = Some \<lparr>imd_id = backend_id bk, imd_sender = t\<rparr>) \<and>
     list_all (task_ok A) (rt_spawned w)"

definition session_ok :: "asked_set \<Rightarrow> nat \<Rightarrow> session \<Rightarrow> bool" where
  "session_ok A i s \<longleftrightarrow> client_proxy s = \<lparr>client_sender = i\<rparr> \<and> destinations s = rt_registry_handle \<and>
     distinct_keys (active_subscriptions_by_client_id s) \<and>
     (\<forall>(c, d, u) \<in> set (active_subscriptions_by_client_id s). (i, c, d) \<in> A)"

text \<open>A MESSAGE for a client: it asked for the subscription, and the body was sent there.\<close>

fun message_ok :: "asked_set \<Rightarrow> spoken_set \<Rightarrow> nat \<Rightarrow> ServerMessage \<Rightarrow> bool" where
  "message_ok A P i (Inl (MessageF f)) \<longleftrightarrow>
     (i, SubscriptionId (frame_subscription f), DestinationId (frame_destination f)) \<in> A \<and>
     (DestinationId (frame_destination f), frame_body f) \<in> P"
| "message_ok A P i _ \<longleftrightarrow> True"

definition broker_ok :: "broker \<Rightarrow> bool" where
  "broker_ok b \<longleftrightarrow> net_ok (asked b) (spoken b) (net b) \<and>
     (\<forall>i s. sessions b i = Some s \<longrightarrow> session_ok (asked b) i s) \<and>
     (\<forall>i. list_all (message_ok (asked b) (spoken b) i) (outbox b i))"

lemma event_ok_mono: "event_ok A P i e \<Longrightarrow> A \<subseteq> B \<Longrightarrow> P \<subseteq> Q \<Longrightarrow> event_ok B Q i e"
  by (cases "(A, P, i, e)" rule: event_ok.cases) auto

lemma action_ok_mono: "action_ok A P d a \<Longrightarrow> A \<subseteq> B \<Longrightarrow> P \<subseteq> Q \<Longrightarrow> action_ok B Q d a"
  by (cases "(A, P, d, a)" rule: action_ok.cases) auto

lemma message_ok_mono: "message_ok A P i m \<Longrightarrow> A \<subseteq> B \<Longrightarrow> P \<subseteq> Q \<Longrightarrow> message_ok B Q i m"
  by (cases "(A, P, i, m)" rule: message_ok.cases) auto

lemma backend_ok_mono: "backend_ok A bk \<Longrightarrow> A \<subseteq> B \<Longrightarrow> backend_ok B bk"
  by (fastforce simp: backend_ok_def)

lemma task_ok_mono: "task_ok A task \<Longrightarrow> A \<subseteq> B \<Longrightarrow> task_ok B task"
  by (auto simp: task_ok_def)

lemma session_ok_mono: "session_ok A i s \<Longrightarrow> A \<subseteq> B \<Longrightarrow> session_ok B i s"
  by (auto simp: session_ok_def)

lemma list_all_mono: "list_all p xs \<Longrightarrow> (\<And>x. p x \<Longrightarrow> q x) \<Longrightarrow> list_all q xs"
  by (auto simp: list_all_iff)

lemma net_ok_mono:
  assumes "net_ok A P w" "A \<subseteq> B" "P \<subseteq> Q"
  shows "net_ok B Q w"
proof -
  have "list_all (event_ok B Q i) xs" if "list_all (event_ok A P i) xs" for i xs
    using that event_ok_mono [OF _ assms(2,3)] by (rule list_all_mono)
  moreover have "list_all (action_ok B Q d) xs" if "list_all (action_ok A P d) xs" for d xs
    using that action_ok_mono [OF _ assms(2,3)] by (rule list_all_mono)
  moreover have "list_all (task_ok B) xs" if "list_all (task_ok A) xs" for xs
    using that task_ok_mono [OF _ assms(2)] by (rule list_all_mono)
  ultimately show ?thesis
    using assms backend_ok_mono [OF _ assms(2)] unfolding net_ok_def by (intro conjI) blast+
qed


section \<open>Every operation preserves it\<close>

definition preserves :: "('w \<Rightarrow> bool) \<Rightarrow> ('w, 'a) io \<Rightarrow> bool" where
  "preserves I m \<longleftrightarrow> (\<forall>w. I w \<longrightarrow> I (snd (m w)))"

lemma preservesD: "preserves I m \<Longrightarrow> m w = (r, w') \<Longrightarrow> I w \<Longrightarrow> I w'"
  by (metis preserves_def snd_conv)

lemma preserves_snd: "preserves I m \<Longrightarrow> I w \<Longrightarrow> I (snd (m w))"
  by (simp add: preserves_def)

lemma preserves_simps [simp]: "preserves I (ret_io a)" "preserves I (panic_io msg)"
  by (simp_all add: preserves_def)

lemma preserves_bind_io: "preserves I m \<Longrightarrow> (\<And>a. preserves I (f a)) \<Longrightarrow> preserves I (bind_io m f)"
  unfolding preserves_def
proof (intro allI impI)
  fix w
  assume m: "\<forall>w. I w \<longrightarrow> I (snd (m w))" and f: "\<And>a. \<forall>w. I w \<longrightarrow> I (snd (f a w))" and "I w"
  then have "I (snd (m w))" by blast
  with f show "I (snd (bind_io m f w))"
    by (cases "m w"; cases "fst (m w)") (simp_all add: bind_io_def)
qed

lemma preserves_then_io: "preserves I m \<Longrightarrow> preserves I n \<Longrightarrow> preserves I (then_io m n)"
  by (simp add: then_io_def preserves_bind_io)

lemmas preserves_intros = preserves_bind_io preserves_then_io

text \<open>The parts of the world that the invariant does not read.\<close>

lemma net_ok_frame [simp]:
  "net_ok A P (rt_commands_update f w) = net_ok A P w"
  "net_ok A P (rt_listeners_update g w) = net_ok A P w"
  by (simp_all add: net_ok_def)

lemma net_ok_command_send: "preserves (net_ok A P) (rt_command_send t c)"
  by (simp add: preserves_def rt_command_send_def fifo_send_def)

lemma net_ok_event_send:
  assumes "event_ok A P t e"
  shows "preserves (net_ok A P) (rt_event_send t e)"
  using assms by (auto simp: preserves_def rt_event_send_def fifo_send_def net_ok_def)

lemma net_ok_send_event:
  assumes "event_ok A P (client_sender p) e"
  shows "preserves (net_ok A P) (send_event rt_event_send p e)"
  by (auto simp: send_event_def intro!: preserves_intros net_ok_event_send assms)

lemma net_ok_backend:
  assumes "net_ok A P w" "rt_registry w d = Some h" "rt_backends w (imd_sender h) = Some bk"
  shows "backend_ok A bk" "backend_id bk = d"
proof -
  have reg: "rt_registry w (backend_id bk) = Some \<lparr>imd_id = backend_id bk, imd_sender = imd_sender h\<rparr>"
    and "backend_ok A bk"
    using assms(1,3) unfolding net_ok_def by blast+
  then show "backend_ok A bk" by simp
  have "\<forall>d h d' h'. rt_registry w d = Some h \<longrightarrow> rt_registry w d' = Some h' \<longrightarrow>
      imd_sender h = imd_sender h' \<longrightarrow> d = d'"
    using assms(1) by (simp add: net_ok_def)
  with reg assms(2) show "backend_id bk = d" by fastforce
qed

text \<open>Sending an action over the channel that belongs to a name.\<close>

lemma net_ok_action_send:
  assumes "rt_registry w d = Some h" "action_ok A P d a" "net_ok A P w"
  shows "net_ok A P (snd (rt_action_send (imd_sender h) a w))"
proof -
  let ?w = "snd (rt_action_send (imd_sender h) a w)"
  have same: "rt_events ?w = rt_events w" "rt_registry ?w = rt_registry w" "rt_next ?w = rt_next w"
    "rt_backends ?w = rt_backends w" "rt_spawned ?w = rt_spawned w"
    by (simp_all add: rt_action_send_def fifo_send_def)
  have "list_all (action_ok A P d') (mb_queue (rt_actions ?w) (imd_sender h'))"
    if h': "rt_registry w d' = Some h'" for d' h'
  proof -
    have old: "list_all (action_ok A P d') (mb_queue (rt_actions w) (imd_sender h'))"
      using assms(3) h' unfolding net_ok_def by blast
    have "imd_sender h' = imd_sender h \<Longrightarrow> d' = d"
      using assms(1,3) h' unfolding net_ok_def by metis
    with old assms(2) show ?thesis
      by (auto simp: rt_action_send_def fifo_send_def)
  qed
  with assms(3) show ?thesis
    unfolding net_ok_def same by blast
qed

lemma net_ok_perform:
  assumes "rt_registry w d = Some h" "action_ok A P d a" "net_ok A P w"
    and "preserves (net_ok A P) (f (Inr ()))" "preserves (net_ok A P) (f (Inl a))"
  shows "net_ok A P (snd (bind_io (perform_action rt_action_send h a) f w))"
proof -
  let ?w = "snd (rt_action_send (imd_sender h) a w)"
  have "net_ok A P ?w" using assms(1-3) by (rule net_ok_action_send)
  moreover have "bind_io (perform_action rt_action_send h a) f w =
      f (if mb_open (rt_actions w) (imd_sender h) then Inr () else Inl a) ?w"
    by (simp add: perform_action_def rt_action.bind_send)
  ultimately show ?thesis using assms(4,5) by (simp add: preserves_def)
qed

lemma preserves_unsubscribe_callback:
  "preserves (net_ok A P) (unsubscribe_callback rt_subscriber p c r)"
  by (auto simp: rt_subscriber_def async_subscriber_def asc_unsubscribe_callback_def
      unwrap_subscriber_sub_id_def intro!: preserves_intros net_ok_send_event split: option.split)

lemma preserves_subscribe_callback:
  assumes "(client_sender p, c, d) \<in> A"
  shows "preserves (net_ok A P) (subscribe_callback rt_subscriber p d (Some c) r)"
  using assms
  by (auto simp: rt_subscriber_def async_subscriber_def asc_subscribe_callback_def
      unwrap_subscriber_sub_id_def intro!: preserves_intros net_ok_send_event)

lemma net_ok_rt_send:
  assumes "(d, in_body m) \<in> P"
  shows "preserves (net_ok A P) (ad_send rt_map rt_destination async_sender ds d m k cl)"
  unfolding preserves_def
proof (intro allI impI)
  fix w
  assume ok: "net_ok A P w"
  show "net_ok A P (snd (ad_send rt_map rt_destination async_sender ds d m k cl w))"
  proof (cases "rt_registry w d")
    case None
    with ok show ?thesis
      by (simp add: ad_send_def bind_io_def rt_map_def async_sender_def)
  next
    case (Some h)
    have cb: "preserves (net_ok A P) (call_send_callback async_sender scb i r)" for scb i r
      by (cases scb) (simp add: async_sender_def)
    have "net_ok A P (snd (imd_send rt_action_send async_sender h m k cl w))"
      unfolding imd_send_def
      by (rule net_ok_perform [OF Some _ ok]) (simp_all add: assms cb)
    with Some show ?thesis
      by (simp add: ad_send_def bind_io_def rt_map_def rt_destination_def in_mem_destination_def)
  qed
qed

lemma net_ok_rt_unsubscribe:
  "preserves (net_ok A P) (ad_unsubscribe rt_map rt_destination ds d i p cl)"
  unfolding preserves_def
proof (intro allI impI)
  fix w
  assume ok: "net_ok A P w"
  show "net_ok A P (snd (ad_unsubscribe rt_map rt_destination ds d i p cl w))"
  proof (cases "rt_registry w d")
    case None
    with ok show ?thesis by (simp add: ad_unsubscribe_def bind_io_def rt_map_def)
  next
    case (Some h)
    have cb: "preserves (net_ok A P) (call_unsubscribe_callback rt_subscriber ucb c r)" for ucb c r
      by (cases ucb) (simp add: preserves_unsubscribe_callback)
    have "net_ok A P (snd (imd_unsubscribe rt_action_send rt_subscriber h i p cl w))"
      unfolding imd_unsubscribe_def
      by (rule net_ok_perform [OF Some _ ok]) (simp_all add: cb)
    with Some show ?thesis
      by (simp add: ad_unsubscribe_def bind_io_def rt_map_def rt_destination_def in_mem_destination_def)
  qed
qed


text \<open>A session's turn.\<close>

lemma session_table:
  assumes "session_ok A i s"
    "map_of (active_subscriptions_by_client_id s) c = Some (d, u)"
  shows "(i, c, d) \<in> A"
  using assms by (auto simp: session_ok_def dest!: map_of_SomeD)

lemma rt_destinations_simps [simp]:
  "destinations_subscribe rt_destinations = ad_subscribe rt_spawn"
  "destinations_unsubscribe rt_destinations = ad_unsubscribe rt_map rt_destination"
  "destinations_send rt_destinations = ad_send rt_map rt_destination async_sender"
  by (simp_all add: rt_destinations_def async_destinations_def)

lemma net_ok_rt_subscribe:
  assumes "(client_sender p, c, d) \<in> A"
  shows "preserves (net_ok A P) (ad_subscribe rt_spawn ds d (Some c) p cl)"
  using assms by (auto simp: ad_subscribe_def rt_spawn_def preserves_def net_ok_def task_ok_def)

lemma net_ok_handle_event:
  assumes "session_ok A i s" "asks i e \<subseteq> A" "speaks e \<subseteq> P"
  shows "preserves (net_ok A P) (handle_event rt_env s e)"
proof -
  have proxy: "client_sender (client_proxy s) = i" using assms(1) by (simp add: session_ok_def)
  have reset: "preserves (net_ok A P) (resetter_reset rt_command_send r)" for r
    by (auto simp: resetter_reset_def intro!: preserves_intros net_ok_command_send)
  have received: "preserves (net_ok A P) (client_message_received rt_env s)"
    by (auto simp: client_message_received_def intro!: preserves_intros reset)
  have error: "preserves (net_ok A P) (session_error rt_env s msg)" for msg
    by (auto simp: session_error_def intro!: preserves_intros net_ok_send_event)
  have frame: "preserves (net_ok A P) (handle rt_env s f)" if "e = EvClientFrame (Inr f)" for f
    using assms(2,3) that
    by (cases f) (auto simp: handle_def unsubscribe_def todo_panic_def proxy intro!: preserves_intros
        error net_ok_rt_subscribe net_ok_rt_unsubscribe net_ok_rt_send split: option.split)
  show ?thesis
    by (cases e) (auto simp: handle_event_def client_frame_def intro!: preserves_intros received error
        reset frame split: sum.split)
qed

lemma session_ok_handle_event:
  assumes "session_ok A i s" "event_ok A P i e" "handle_event rt_env s e w = (Ret (r, s'), w')"
  shows "session_ok A i s' \<and> list_all (message_ok A P i) (result_output r)"
proof
  have "set (table_step e t) \<subseteq> set t \<union> {(c, d, u). (i, c, d) \<in> A}" for t
    using assms(2) set_update_subset
    by (cases "(e, t)" rule: table_step.cases) (fastforce simp: delete_eq_filter)+
  with assms(1) handle_event_state [OF assms(3)] show "session_ok A i s'"
    by (fastforce simp: session_ok_def distinct_keys_table_step)
  show "list_all (message_ok A P i) (result_output r)"
  proof (cases e)
    case (EvClientFrame x)
    with assms(3) show ?thesis
      by (auto simp: handler_defs result_output_def then_io_def bind_io_eq_Ret_iff
          split: sum.splits ClientFrame.splits option.splits)
  qed (use assms(2,3) in \<open>auto simp: handler_defs Let_def result_output_def then_io_def
      bind_io_eq_Ret_iff split: sum.splits\<close>)
qed

text \<open>The task that \<open>subscribe\<close> spawns.\<close>

lemma net_ok_rt_get:
  assumes "net_ok A P w"
  obtains h w' where "rt_get d w = (Ret h, w')" "net_ok A P w'" "rt_registry w' d = Some h"
proof (cases "rt_registry w d")
  case (Some h)
  with assms show thesis by (intro that [of h w]) (simp_all add: rt_get_eq)
next
  case None
  let ?h = "\<lparr>imd_id = d, imd_sender = rt_next w\<rparr>"
  let ?w = "w\<lparr>rt_actions := mb_create (rt_next w) (rt_actions w), rt_next := Suc (rt_next w),
    rt_backends := (rt_backends w)(rt_next w \<mapsto> backend_start d), rt_registry := (rt_registry w)(d \<mapsto> ?h)\<rparr>"
  have old: "imd_sender h \<noteq> rt_next w \<and> rt_next w \<noteq> imd_sender h" if "rt_registry w d' = Some h" for d' h
    using assms that unfolding net_ok_def by (metis less_irrefl)
  have "backend_ok A (backend_start d)"
    by (simp add: backend_ok_def) (simp add: backend_start_def)
  moreover have "backend_id (backend_start d) = d" by (simp add: backend_start_def)
  ultimately have "net_ok A P ?w"
    using assms None old unfolding net_ok_def by (auto simp: less_Suc_eq dest: old)
  then show thesis
    by (intro that [of ?h ?w]) (simp_all add: rt_get_eq None)
qed

lemma net_ok_subscribe_task:
  assumes "net_ok A P w" "task_ok A task"
  shows "net_ok A P (snd (run_subscribe_task rt_map rt_destination rt_registry_handle task w))"
proof -
  obtain h w1 where h: "rt_get (task_destination task) w = (Ret h, w1)" "net_ok A P w1"
      "rt_registry w1 (task_destination task) = Some h"
    using net_ok_rt_get [OF assms(1)] .
  obtain c where c: "task_subscriber_sub_id task = Some c"
      "(client_sender (task_subscriber task), c, task_destination task) \<in> A"
    using assms(2) by (auto simp: task_ok_def)
  have "imd_id h = task_destination task"
    using h(2,3) unfolding net_ok_def by blast
  then have "net_ok A P (snd (imd_subscribe rt_action_send rt_subscriber h (Some c) (task_subscriber task)
      (task_client task) w1))"
    unfolding imd_subscribe_def
    by (intro net_ok_perform [OF h(3) _ h(2)])
      (simp_all add: to_subscribe_callback_def to_send_fn_def c(2) preserves_subscribe_callback)
  then show ?thesis
    by (simp add: run_subscribe_task_def bind_io_def rt_map_def h(1) c(1) rt_destination_def
        in_mem_destination_def)
qed


text \<open>A turn of a destination's task.\<close>

lemma net_ok_deliver:
  assumes "(out_destination m, out_body m) \<in> P"
    and "\<forall>s \<in> set ss. \<exists>c. subscriber_sub_id s = Some c \<and> (client_sender (subscriber_of s), c, out_destination m) \<in> A"
  shows "preserves (net_ok A P) (deliver rt_subscriber m ss dead)"
  using assms(2)
proof (induction ss arbitrary: dead)
  case (Cons s ss)
  then obtain c where c: "subscriber_sub_id s = Some c"
      "(client_sender (subscriber_of s), c, out_destination m) \<in> A" by auto
  have "preserves (net_ok A P) (subscription_send rt_subscriber s m)"
    using assms(1) c
    by (auto simp: subscription_send_eq rt_subscriber_def async_subscriber_def asc_send_def
        unwrap_subscriber_sub_id_def intro!: preserves_intros net_ok_event_send)
  with Cons show ?case by (auto intro!: preserves_intros)
qed simp

lemma net_ok_handle_action:
  assumes "backend_ok A bk" "action_ok A P (backend_id bk) a" "hash_order iter"
  shows "preserves (net_ok A P) (handle_action rt_subscriber async_sender iter u bk a)"
proof (cases "(A, P, backend_id bk, a)" rule: action_ok.cases)
  case (1 A' P' d c p q)
  with assms(2) obtain c' where "c = Some c'" "(client_sender p, c', backend_id bk) \<in> A" by auto
  with 1 show ?thesis
    by (auto simp: add_subscription_def Let_def update_conv' intro!: preserves_intros
        preserves_subscribe_callback)
next
  case (2 A' P' d i cb)
  then show ?thesis
    by (cases cb) (auto simp: remove_subscription_def Let_def intro!: preserves_intros
        preserves_unsubscribe_callback)
next
  case (3 A' P' d m cb)
  obtain k where cb: "cb = SendCallback k" by (cases cb)
  let ?m = "\<lparr>out_destination = backend_id bk, out_message_id = MessageId u, out_body = in_body m\<rparr>"
  have "preserves (net_ok A P) (deliver rt_subscriber ?m (map snd (iter (subscriptions bk))) [])"
    using assms 3 by (intro net_ok_deliver) (auto simp: backend_ok_def hash_order_set)
  with 3 show ?thesis
    by (auto simp: backend_send_def Let_def cb async_sender_def intro!: preserves_intros)
qed auto

lemma backend_ok_handle_action:
  assumes "backend_ok A bk" "action_ok A P (backend_id bk) a"
    and "handle_action rt_subscriber async_sender iter u bk a w = (Ret (Continue bk'), w')"
  shows "backend_ok A bk' \<and> backend_id bk' = backend_id bk"
proof -
  have wf: "backend_wf bk'" "backend_id bk' = backend_id bk"
    using handle_action_wf [OF assms(3)] assms(1) by (auto simp: backend_ok_def)
  have "s \<in> snd ` set (subscriptions bk) \<or> (\<exists>c. subscriber_sub_id s = Some c \<and>
      (client_sender (subscriber_of s), c, backend_id bk) \<in> A)" if "s \<in> snd ` set (subscriptions bk')" for s
  proof (cases "(A, P, backend_id bk, a)" rule: action_ok.cases)
    case (1 A' P' d c p q)
    let ?s = "\<lparr>subscription_id = SubscriptionId u, subscriber_sub_id = c, send_fn = SendFn q\<rparr>"
    have "bk' = bk\<lparr>subscriptions := AList.update (SubscriptionId u) ?s (subscriptions bk)\<rparr>"
      using assms(3) 1 by (auto simp: bind_io_eq_Ret_iff dest!: add_subscription_state)
    with that have "s = ?s \<or> s \<in> snd ` set (subscriptions bk)"
      using set_update_subset [of "SubscriptionId u" ?s "subscriptions bk"] by auto
    with assms(2) 1 show ?thesis by (auto simp: subscriber_of_def)
  next
    case (2 A' P' d i cb)
    with assms(3) that show ?thesis
      by (auto simp: bind_io_eq_Ret_iff delete_eq_filter dest!: remove_subscription_state)
  next
    case (3 A' P' d m cb)
    with assms(3) that show ?thesis
      by (auto simp: bind_io_eq_Ret_iff remove_keys_eq_filter elim!: backend_send_state)
  qed (use assms(2) in auto)
  with assms(1) wf show ?thesis unfolding backend_ok_def by metis
qed

text \<open>
  The first event, what comes from the client, and the server's heartbeats have streams of their
  own and never come over a session's queue.
\<close>

fun queued_kind :: "ClientEvent \<Rightarrow> bool" where
  "queued_kind (EvConnected hb) \<longleftrightarrow> False"
| "queued_kind (EvClientFrame r) \<longleftrightarrow> False"
| "queued_kind EvClientHeartbeat \<longleftrightarrow> False"
| "queued_kind EvHeartbeat \<longleftrightarrow> False"
| "queued_kind _ \<longleftrightarrow> True"

text \<open>
  The facts below hold of every property of the world that the sends of a handler preserve, so
  one lemma per handler gives what it keeps and what it preserves.
\<close>

lemma keeps_if_preserves:
  assumes "\<And>x. preserves (\<lambda>w. f w = x) m"
  shows "keeps f m"
  using assms by (auto simp: keeps_def preserves_def)

lemma preserves_callbacks_by_kind:
  "(\<And>t d c r. preserves I (rt_event_send t (EvSubscribed d c r))) \<Longrightarrow>
    preserves I (call_subscribe_callback rt_subscriber scb d c r)"
  "(\<And>t c r. preserves I (rt_event_send t (EvUnsubscribed c r))) \<Longrightarrow>
    preserves I (call_unsubscribe_callback rt_subscriber ucb c r)"
  "(\<And>t c m. preserves I (rt_event_send t (EvServerMessage c m))) \<Longrightarrow>
    preserves I (subscription_send rt_subscriber s m)"
proof -
  have unwrap: "preserves I (unwrap_subscriber_sub_id c)" for c
    by (simp add: unwrap_subscriber_sub_id_def split: option.split)
  note defs = rt_subscriber_def async_subscriber_def send_event_def
  show "preserves I (call_subscribe_callback rt_subscriber scb d c r)"
    if "\<And>t d c r. preserves I (rt_event_send t (EvSubscribed d c r))"
    by (cases scb) (auto simp: defs asc_subscribe_callback_def intro!: preserves_intros that unwrap)
  show "preserves I (call_unsubscribe_callback rt_subscriber ucb c r)"
    if "\<And>t c r. preserves I (rt_event_send t (EvUnsubscribed c r))"
    by (cases ucb) (auto simp: defs asc_unsubscribe_callback_def intro!: preserves_intros that unwrap)
  show "preserves I (subscription_send rt_subscriber s m)"
    if "\<And>t c m. preserves I (rt_event_send t (EvServerMessage c m))"
    by (auto simp: defs subscription_send_eq asc_send_def intro!: preserves_intros that unwrap)
qed

lemma preserves_callbacks:
  assumes send: "\<And>t e. queued_kind e \<Longrightarrow> preserves I (rt_event_send t e)"
  shows "preserves I (call_subscribe_callback rt_subscriber scb d c r)"
    "preserves I (call_unsubscribe_callback rt_subscriber ucb c r)"
    "preserves I (subscription_send rt_subscriber s m)"
  by (rule preserves_callbacks_by_kind, rule send, simp)+

lemma preserves_handle_action:
  assumes send: "\<And>t e. queued_kind e \<Longrightarrow> preserves I (rt_event_send t e)"
  shows "preserves I (handle_action rt_subscriber async_sender iter u bk a)"
proof -
  note callbacks = preserves_callbacks [where I = I, OF send]
  have deliver: "preserves I (deliver rt_subscriber m ss dead)" for m ss dead
    by (induction ss arbitrary: dead) (auto intro!: preserves_intros callbacks)
  have sent: "preserves I (call_send_callback async_sender cb i r)" for cb i r
    by (cases cb) (simp add: async_sender_def)
  show ?thesis
    by (cases a) (auto simp: add_subscription_def remove_subscription_def backend_send_def Let_def
        update_conv' intro!: preserves_intros callbacks deliver sent)
qed

lemma preserves_handle_event_by_kind:
  assumes close: "\<And>t. preserves I (rt_event_send t EvClose)"
    and confirm: "\<And>t c r. preserves I (rt_event_send t (EvUnsubscribed c r))"
    and command: "\<And>t c. preserves I (rt_command_send t c)"
    and unsub: "\<And>t i cb g. e = EvClientFrame (Inr (Unsubscribe g)) \<Longrightarrow>
      preserves I (rt_action_send t (ActUnsubscribe i cb))"
    and post: "\<And>t g body cb. e = EvClientFrame (Inr (Send g)) \<Longrightarrow> send_body g = Some body \<Longrightarrow>
      preserves I (rt_action_send t (ActSend \<lparr>sender_message_id = None, in_body = body\<rparr> cb))"
    and spawn: "\<And>g. e = EvClientFrame (Inr (Subscribe g)) \<Longrightarrow> preserves I (rt_spawn
      \<lparr>task_destination = DestinationId (subscribe_destination g),
       task_subscriber_sub_id = Some (SubscriptionId (subscribe_id g)),
       task_subscriber = client_proxy s, task_client = session_client s\<rparr>)"
  shows "preserves I (handle_event rt_env s e)"
proof -
  have reset: "preserves I (resetter_reset rt_command_send r)" for r
    by (auto simp: resetter_reset_def intro!: preserves_intros command)
  have received: "preserves I (client_message_received rt_env s)"
    by (auto simp: client_message_received_def intro!: preserves_intros reset)
  have error: "preserves I (session_error rt_env s msg)" for msg
    by (auto simp: session_error_def send_event_def intro!: preserves_intros close)
  have unsubscribed: "preserves I (call_unsubscribe_callback rt_subscriber ucb c r)" for ucb c r
    by (rule preserves_callbacks_by_kind) (rule confirm)
  have sent: "preserves I (call_send_callback async_sender cb i r)" for cb i r
    by (cases cb) (simp add: async_sender_def)
  have called: "preserves I (send_callback async_sender k i r)" for k i r
    by (simp add: async_sender_def)
  have lookup: "preserves I (vm_get_if_present rt_map u d)" for u d
    by (simp add: preserves_def rt_map_def)
  have frame: "preserves I (handle rt_env s f)" if e: "e = EvClientFrame (Inr f)" for f
  proof (cases f)
    case (Send g)
    have "preserves I (perform_action rt_action_send h (ActSend \<lparr>sender_message_id = None, in_body = body\<rparr> cb))"
      if "send_body g = Some body" for h body cb
      using post [of g body] e Send that by (simp add: perform_action_def)
    with Send show ?thesis
      by (auto simp: handle_def ad_send_def rt_destination_def in_mem_destination_def imd_send_def
          intro!: preserves_intros lookup sent called split: option.split sum.split DestinationAction.split)
  next
    case (Subscribe g)
    then show ?thesis
      using spawn [of g] e by (auto simp: handle_def ad_subscribe_def intro!: preserves_intros)
  next
    case (Unsubscribe g)
    have "preserves I (perform_action rt_action_send h (ActUnsubscribe i cb))" for h i cb
      using unsub [of g] e Unsubscribe by (simp add: perform_action_def)
    with Unsubscribe show ?thesis
      by (auto simp: handle_def unsubscribe_def ad_unsubscribe_def rt_destination_def
          in_mem_destination_def imd_unsubscribe_def intro!: preserves_intros error lookup unsubscribed
          split: option.split sum.split DestinationAction.split)
  qed (auto simp: handle_def todo_panic_def intro!: preserves_intros error)
  show ?thesis
    by (cases e) (auto simp: handle_event_def client_frame_def intro!: preserves_intros received error
        reset frame split: sum.split)
qed

lemma preserves_handle_event:
  assumes send: "\<And>t e. queued_kind e \<Longrightarrow> preserves I (rt_event_send t e)"
    and command: "\<And>t c. preserves I (rt_command_send t c)"
    and act: "\<And>t a r. e = EvClientFrame r \<Longrightarrow> preserves I (rt_action_send t a)"
    and spawn: "\<And>task r. e = EvClientFrame r \<Longrightarrow> preserves I (rt_spawn task)"
  shows "preserves I (handle_event rt_env s e)"
  by (rule preserves_handle_event_by_kind) (auto intro!: send command act spawn)

lemma keeps_registry_handle_action:
  "keeps rt_registry (handle_action rt_subscriber async_sender iter u bk a)"
  by (rule keeps_if_preserves, rule preserves_handle_action)
    (simp add: preserves_def rt_event_send_def fifo_send_def)


section \<open>The invariant\<close>

lemma list_all_tl: "list_all p xs \<Longrightarrow> list_all p (tl xs)"
  by (cases xs) simp_all

lemma net_ok_close_events:
  "net_ok A P w \<Longrightarrow> net_ok A P (w\<lparr>rt_events := mb_close i (rt_events w)\<rparr>)"
  "net_ok A P w \<Longrightarrow> net_ok A P (w\<lparr>rt_events := mb_take i (rt_events w)\<rparr>)"
  by (auto simp: net_ok_def list_all_tl)

lemma broker_ok_end:
  assumes "broker_ok b"
  shows "broker_ok (end_session i b)"
  using assms net_ok_close_events(1) by (auto simp: broker_ok_def end_session_def)

lemma broker_ok_session_turn:
  assumes "broker_ok b" "sessions b i = Some s" "event_ok (asked b) (spoken b) i e"
  shows "broker_ok (session_turn i s e b)"
proof -
  let ?A = "asked b \<union> asks i e" and ?P = "spoken b \<union> speaks e"
  let ?b = "note_frames i e b"
  have mono: "asked b \<subseteq> ?A" "spoken b \<subseteq> ?P" by auto
  have messages: "list_all (message_ok ?A ?P j) ms" if "list_all (message_ok (asked b) (spoken b) j) ms" for j ms
    using that message_ok_mono [OF _ mono] by (rule list_all_mono)
  have b: "broker_ok ?b"
    using assms(1) net_ok_mono [OF _ mono] session_ok_mono [OF _ mono(1)] messages
    by (auto simp: broker_ok_def)
  have s: "session_ok ?A i s" using b assms(2) by (simp add: broker_ok_def)
  have e: "event_ok ?A ?P i e" using assms(3) mono by (rule event_ok_mono)
  obtain out w' where run: "handle_event rt_env s e (net b) = (out, w')"
    by (cases "handle_event rt_env s e (net b)")
  have "net_ok ?A ?P w'"
    using preservesD [OF net_ok_handle_event [OF s] run] b by (simp add: broker_ok_def)
  then have w': "broker_ok (?b\<lparr>net := w'\<rparr>)" using b by (simp add: broker_ok_def)
  show ?thesis
  proof (cases out)
    case (Panic msg)
    then show ?thesis
      using broker_ok_end [OF w'] run by (simp add: session_turn_def Let_def)
  next
    case (Ret rs)
    obtain r s' where rs: "rs = (r, s')" by (cases rs)
    have "session_ok ?A i s' \<and> list_all (message_ok ?A ?P i) (result_output r)"
      using session_ok_handle_event [OF s e] run Ret rs by simp
    with w' have "broker_ok (?b\<lparr>net := w', sessions := (sessions b)(i \<mapsto> s'),
        outbox := (outbox b)(i := outbox b i @ result_output r)\<rparr>)"
      by (auto simp: broker_ok_def)
    then show ?thesis
      using broker_ok_end [OF w'] run Ret rs by (simp add: session_turn_def Let_def)
  qed
qed

lemma net_ok_backend_turn:
  assumes ok: "net_ok A P w" and bk: "rt_backends w t = Some bk"
    and a: "mb_queue (rt_actions w) t = a # rest" and iter: "hash_order iter"
  shows "net_ok A P (backend_turn iter t u bk a w)"
proof -
  have reg: "rt_registry w (backend_id bk) = Some \<lparr>imd_id = backend_id bk, imd_sender = t\<rparr>"
    and bk_ok: "backend_ok A bk"
    using ok bk unfolding net_ok_def by blast+
  then have "list_all (action_ok A P (backend_id bk)) (mb_queue (rt_actions w) t)"
    using ok unfolding net_ok_def by fastforce
  then have a_ok: "action_ok A P (backend_id bk) a" by (simp add: a)
  let ?w = "w\<lparr>rt_actions := mb_take t (rt_actions w)\<rparr>"
  have taken: "net_ok A P ?w"
    using ok by (auto simp: net_ok_def list_all_tl)
  obtain out w' where run: "handle_action rt_subscriber async_sender iter u bk a ?w = (out, w')"
    by (cases "handle_action rt_subscriber async_sender iter u bk a ?w")
  have w': "net_ok A P w'"
    using preservesD [OF net_ok_handle_action [OF bk_ok a_ok iter] run] taken by simp
  have reg': "rt_registry w' = rt_registry w"
    using keeps_registry_handle_action [of iter u bk a] run
    by (auto simp: keeps_def dest: spec [of _ ?w])
  have stopped: "net_ok A P (w'\<lparr>rt_backends := (rt_backends w')(t := None),
      rt_actions := mb_close t (rt_actions w')\<rparr>)"
    using w' by (auto simp: net_ok_def list_all_iff)
  show ?thesis
  proof (cases "\<exists>bk'. out = Ret (Continue bk')")
    case True
    then obtain bk' where bk': "out = Ret (Continue bk')" by blast
    then have "backend_ok A bk' \<and> backend_id bk' = backend_id bk"
      using backend_ok_handle_action [OF bk_ok a_ok] run by blast
    with w' have "net_ok A P (w'\<lparr>rt_backends := (rt_backends w')(t \<mapsto> bk')\<rparr>)"
      using reg reg' by (auto simp: net_ok_def)
    then show ?thesis by (simp add: backend_turn_def run bk')
  next
    case False
    then show ?thesis
      using stopped by (auto simp: backend_turn_def run split: outcome.split flow.split)
  qed
qed


text \<open>What connecting does to the world: one channel for events and two for timer commands.\<close>

lemma rt_connect_eq:
  obtains conn timer where
    "handle_connection_validation_result rt_setup (Inr (hb, DefaultClient)) rt_registry_handle w =
      (Ret (Accepted conn),
       w\<lparr>rt_events := mb_create (rt_next w) (rt_events w),
         rt_commands := mb_create (rt_next w + 2) (mb_create (rt_next w + 1) (rt_commands w)),
         rt_listeners := rt_listeners w @ [(\<lparr>client_sender = rt_next w\<rparr>, timer)],
         rt_next := rt_next w + 3\<rparr>)"
    "conn_session conn = ClientSession_new rt_registry_handle \<lparr>client_sender = rt_next w\<rparr>
      \<lparr>resetter_sender = rt_next w + 1\<rparr> \<lparr>resetter_sender = rt_next w + 2\<rparr> DefaultClient"
    "conn_from_server conn = rt_next w"
    "conn_server_heartbeat conn = \<lparr>timer_period = from_millis (unat (expected hb)),
      timer_receiver = Some (rt_next w + 1), timer_task = None\<rparr>"
    "timer = \<lparr>timer_period = from_millis (unat (the (heartbeat_with_buffer False (supplied hb)))),
      timer_receiver = Some (rt_next w + 2), timer_task = None\<rparr>"
proof -
  have create: "ResettableTimer_create rt_command_channel p w =
      (Ret (\<lparr>timer_period = p, timer_receiver = Some (rt_next w), timer_task = None\<rparr>,
         \<lparr>resetter_sender = rt_next w\<rparr>),
       w\<lparr>rt_commands := mb_create (rt_next w) (rt_commands w), rt_next := Suc (rt_next w)\<rparr>)"
    for p w
    by (simp add: ResettableTimer_create_def rt_command_channel_def Let_def bind_io_def)
  obtain p where p: "heartbeat_with_buffer False (supplied hb) = Some p"
    by (simp add: heartbeat_with_buffer_def)
  then have zero: "supplied hb = 0 \<Longrightarrow> p = 0"
    by (auto simp: heartbeat_with_buffer_def)
  have server: "heartbeat_timer rt_setup (expected hb) =
      ResettableTimer_create rt_command_channel (from_millis (unat (expected hb)))"
    by (simp add: heartbeat_timer_def ResettableTimer_default_def word_gt_0)
  have client: "(if 0 < supplied hb
      then (case heartbeat_with_buffer (setup_overflow_checks rt_setup) (supplied hb) of
          None \<Rightarrow> panic_io ''attempt to multiply with overflow''
        | Some period \<Rightarrow> ResettableTimer_create (setup_command_channel rt_setup) (from_millis (unat period)))
      else ResettableTimer_default (setup_command_channel rt_setup)) =
      ResettableTimer_create rt_command_channel (from_millis (unat p))"
    using zero by (auto simp: ResettableTimer_default_def p word_gt_0)
  let ?conn = "\<lparr>conn_session = ClientSession_new rt_registry_handle \<lparr>client_sender = rt_next w\<rparr>
        \<lparr>resetter_sender = rt_next w + 1\<rparr> \<lparr>resetter_sender = rt_next w + 2\<rparr> DefaultClient,
      conn_first_event = EvConnected (HeartBeatIntervalls_new (expected hb) (supplied hb)),
      conn_from_server = rt_next w,
      conn_server_heartbeat = \<lparr>timer_period = from_millis (unat (expected hb)),
        timer_receiver = Some (rt_next w + 1), timer_task = None\<rparr>\<rparr>"
  show thesis
    by (rule that [of ?conn "\<lparr>timer_period = from_millis (unat p),
          timer_receiver = Some (rt_next w + 2), timer_task = None\<rparr>"])
      (simp_all add: handle_connection_validation_result_def open_connection_def server client create
        rt_event_channel_def Let_def bind_io_def then_io_def
        start_heartbeat_listener_def rt_spawn_listener_def ClientSession_new_def p)
qed

lemma rt_connectE:
  assumes "handle_connection_validation_result rt_setup (Inr (hb, DefaultClient)) rt_registry_handle w =
    (Ret (Accepted conn), w')"
  obtains timer where
    "w' = w\<lparr>rt_events := mb_create (rt_next w) (rt_events w),
         rt_commands := mb_create (rt_next w + 2) (mb_create (rt_next w + 1) (rt_commands w)),
         rt_listeners := rt_listeners w @ [(\<lparr>client_sender = rt_next w\<rparr>, timer)],
         rt_next := rt_next w + 3\<rparr>"
    "conn_session conn = ClientSession_new rt_registry_handle \<lparr>client_sender = rt_next w\<rparr>
      \<lparr>resetter_sender = rt_next w + 1\<rparr> \<lparr>resetter_sender = rt_next w + 2\<rparr> DefaultClient"
    "conn_from_server conn = rt_next w"
    "conn_server_heartbeat conn = \<lparr>timer_period = from_millis (unat (expected hb)),
      timer_receiver = Some (rt_next w + 1), timer_task = None\<rparr>"
    "timer = \<lparr>timer_period = from_millis (unat (the (heartbeat_with_buffer False (supplied hb)))),
      timer_receiver = Some (rt_next w + 2), timer_task = None\<rparr>"
proof (rule rt_connect_eq [of hb w])
  fix conn' timer
  let ?w = "w\<lparr>rt_events := mb_create (rt_next w) (rt_events w),
         rt_commands := mb_create (rt_next w + 2) (mb_create (rt_next w + 1) (rt_commands w)),
         rt_listeners := rt_listeners w @ [(\<lparr>client_sender = rt_next w\<rparr>, timer)],
         rt_next := rt_next w + 3\<rparr>"
  assume c: "handle_connection_validation_result rt_setup (Inr (hb, DefaultClient)) rt_registry_handle w =
      (Ret (Accepted conn'), ?w)"
    "conn_session conn' = ClientSession_new rt_registry_handle \<lparr>client_sender = rt_next w\<rparr>
      \<lparr>resetter_sender = rt_next w + 1\<rparr> \<lparr>resetter_sender = rt_next w + 2\<rparr> DefaultClient"
    "conn_from_server conn' = rt_next w"
    "conn_server_heartbeat conn' = \<lparr>timer_period = from_millis (unat (expected hb)),
      timer_receiver = Some (rt_next w + 1), timer_task = None\<rparr>"
    "timer = \<lparr>timer_period = from_millis (unat (the (heartbeat_with_buffer False (supplied hb)))),
      timer_receiver = Some (rt_next w + 2), timer_task = None\<rparr>"
  from c(1) assms have "conn' = conn" "w' = ?w" by (simp_all only: prod.inject outcome.inject admission.inject)
  with c(2-5) show thesis by (intro that) simp_all
qed

lemma net_ok_new_channel:
  assumes "net_ok A P w" "rt_next w \<le> n"
  shows "net_ok A P (w\<lparr>rt_events := mb_create t (rt_events w), rt_next := n\<rparr>)"
proof -
  have "imd_id h = d \<and> imd_sender h < n \<and>
      list_all (action_ok A P d) (mb_queue (rt_actions w) (imd_sender h))" if "rt_registry w d = Some h" for d h
    using assms that unfolding net_ok_def by (metis order.strict_trans2)
  with assms(1) show ?thesis unfolding net_ok_def by simp_all
qed

lemma open_connection_world:
  assumes "handle_connection_validation_result rt_setup (Inr (hb, DefaultClient)) rt_registry_handle w =
    (Ret (Accepted conn), w')"
  shows "net_ok A P w \<Longrightarrow> net_ok A P w'" "session_ok A (conn_from_server conn) (conn_session conn)"
proof -
  obtain timer where c:
    "w' = w\<lparr>rt_events := mb_create (rt_next w) (rt_events w),
         rt_commands := mb_create (rt_next w + 2) (mb_create (rt_next w + 1) (rt_commands w)),
         rt_listeners := rt_listeners w @ [(\<lparr>client_sender = rt_next w\<rparr>, timer)],
         rt_next := rt_next w + 3\<rparr>"
    "conn_session conn = ClientSession_new rt_registry_handle \<lparr>client_sender = rt_next w\<rparr>
      \<lparr>resetter_sender = rt_next w + 1\<rparr> \<lparr>resetter_sender = rt_next w + 2\<rparr> DefaultClient"
    "conn_from_server conn = rt_next w"
    using assms by (rule rt_connectE)
  show "session_ok A (conn_from_server conn) (conn_session conn)"
    using c by (simp add: session_ok_def ClientSession_new_def)
  show "net_ok A P w \<Longrightarrow> net_ok A P w'"
    using net_ok_new_channel [of A P w "rt_next w + 3" "rt_next w"] c(1)
    by (simp add: net_ok_def)
qed

lemma broker_start_ok: "broker_ok broker_start"
  by (simp add: broker_ok_def broker_start_def net_ok_def runtime_start_def)

lemma internal_step_ok: "internal_step b b' \<Longrightarrow> broker_ok b \<Longrightarrow> broker_ok b'"
proof (induction rule: internal_step.induct)
  case (from_server b i s e rest)
  let ?b = "b\<lparr>net := (net b)\<lparr>rt_events := mb_take i (rt_events (net b))\<rparr>\<rparr>"
  have "list_all (event_ok (asked b) (spoken b) i) (mb_queue (rt_events (net b)) i)"
    using from_server(3) unfolding broker_ok_def net_ok_def by blast
  then have "event_ok (asked ?b) (spoken ?b) i e" by (simp add: from_server(2))
  moreover have "broker_ok ?b"
    using from_server(3) net_ok_close_events(2) by (simp add: broker_ok_def)
  ultimately show ?case using from_server(1) by (intro broker_ok_session_turn) simp_all
next
  case (subscribe_task b before task after)
  then have "net_ok (asked b) (spoken b) ((net b)\<lparr>rt_spawned := before @ after\<rparr>)"
      "task_ok (asked b) task"
    by (auto simp: broker_ok_def net_ok_def)
  with subscribe_task show ?case
    using net_ok_subscribe_task by (simp add: broker_ok_def)
next
  case (backend b t bk a rest iter u)
  then show ?case
    using net_ok_backend_turn [OF _ backend(1-3)] by (simp add: broker_ok_def)
qed

lemma broker_step_ok: "broker_step b b' \<Longrightarrow> broker_ok b \<Longrightarrow> broker_ok b'"
proof (induction rule: broker_step.induct)
  case (connect hb b conn w)
  then show ?case
    using open_connection_world [OF connect(1)] by (auto simp: broker_ok_def)
next
  case (from_client b i s e)
  moreover from from_client(2) have "event_ok (asked b) (spoken b) i e"
    by (cases e) auto
  ultimately show ?case by (intro broker_ok_session_turn)
next
  case (listener p timer b)
  have "preserves (net_ok (asked b) (spoken b)) (heartbeat_listener rt_event_send p (Some ()))"
    by (simp add: heartbeat_listener_def net_ok_send_event)
  with listener show ?case by (simp add: broker_ok_def preserves_def)
next
  case (timer_task b t)
  then show ?case by (simp add: broker_ok_def)
qed (simp_all add: broker_ok_end internal_step_ok)

lemma reachable_ok: "reachable b \<Longrightarrow> broker_ok b"
  by (induction rule: reachable.induct) (auto intro: broker_start_ok broker_step_ok)


section \<open>Running the server\<close>

text \<open>
  A schedule names the turns; \<open>exec\<close> takes them one after the other, which concrete runs are
  computed with. Maps are iterated in the order of insertion.
\<close>

datatype turn =
    TConnect HeartBeatIntervalls
  | TClient nat ClientEvent
  | TServer nat
  | TTask
  | TBackend nat string

fun exec :: "turn \<Rightarrow> broker \<Rightarrow> broker option" where
  "exec (TConnect hb) b =
     (case handle_connection_validation_result rt_setup (Inr (hb, DefaultClient)) rt_registry_handle (net b) of
        (Ret (Accepted conn), w) \<Rightarrow>
          Some (b\<lparr>net := w, sessions := (sessions b)(conn_from_server conn \<mapsto> conn_session conn)\<rparr>)
      | _ \<Rightarrow> None)"
| "exec (TClient i e) b =
     (case sessions b i of
        Some s \<Rightarrow> if external e then Some (session_turn i s e b) else None
      | None \<Rightarrow> None)"
| "exec (TServer i) b =
     (case (sessions b i, mb_queue (rt_events (net b)) i) of
        (Some s, e # rest) \<Rightarrow>
          Some (session_turn i s e (b\<lparr>net := (net b)\<lparr>rt_events := mb_take i (rt_events (net b))\<rparr>\<rparr>))
      | _ \<Rightarrow> None)"
| "exec TTask b =
     (case rt_spawned (net b) of
        task # rest \<Rightarrow> Some (b\<lparr>net := snd (run_subscribe_task rt_map rt_destination rt_registry_handle task
          ((net b)\<lparr>rt_spawned := rest\<rparr>))\<rparr>)
      | [] \<Rightarrow> None)"
| "exec (TBackend t u) b =
     (case (rt_backends (net b) t, mb_queue (rt_actions (net b)) t) of
        (Some bk, a # rest) \<Rightarrow> Some (b\<lparr>net := backend_turn id t u bk a (net b)\<rparr>)
      | _ \<Rightarrow> None)"

fun exec_all :: "turn list \<Rightarrow> broker \<Rightarrow> broker option" where
  "exec_all [] b = Some b"
| "exec_all (turn # turns) b = Option.bind (exec turn b) (exec_all turns)"

lemma exec_step: "exec turn b = Some b' \<Longrightarrow> broker_step b b'"
  by (cases turn) (auto split: option.splits list.splits prod.splits outcome.splits admission.splits if_splits
      intro: broker_step.intros internal_step.intros hash_order_id
        internal_step.subscribe_task [where before = "[]", simplified])

lemma exec_all_reachable: "exec_all turns b = Some b' \<Longrightarrow> reachable b \<Longrightarrow> reachable b'"
proof (induction turns arbitrary: b)
  case (Cons turn turns)
  then obtain b1 where "exec turn b = Some b1" "exec_all turns b1 = Some b'"
    by (cases "exec turn b") auto
  with Cons show ?case using exec_step reachable.step by blast
qed simp


text \<open>The definitions a concrete run is computed with.\<close>

lemmas session_defs = session_turn_def note_frames_def end_session_def handler_defs then_io_def bind_io_def Let_def not_dead_def
  result_output_def client_message_received_def resetter_reset_def send_event_def rt_command_send_def
  rt_event_send_def fifo_send_def
lemmas connect_defs = handle_connection_validation_result_def open_connection_def
  rt_event_channel_def rt_command_channel_def rt_spawn_listener_def heartbeat_timer_def
  ResettableTimer_default_def ResettableTimer_create_def start_heartbeat_listener_def
  ClientSession_new_def HeartBeatIntervalls_new_def
lemmas registry_defs = ad_subscribe_def ad_send_def ad_unsubscribe_def rt_map_def rt_spawn_def run_subscribe_task_def rt_get_eq
  rt_destination_def in_mem_destination_def imd_subscribe_def imd_send_def imd_unsubscribe_def perform_action_def
  rt_action_send_def to_subscribe_callback_def to_send_fn_def to_send_callback_def to_unsubscribe_callback_def
lemmas task_defs = backend_turn_def backend_start_def add_subscription_def remove_subscription_def backend_send_def
  rt_subscriber_def async_subscriber_def async_sender_def asc_subscribe_callback_def asc_unsubscribe_callback_def
  asc_send_def unwrap_subscriber_sub_id_def subscription_send_def remove_keys_def
lemmas run_defs = session_defs connect_defs registry_defs task_defs broker_start_def runtime_start_def rt_registry_handle_def
  AsyncDestinations_start_def

text \<open>Parts of concrete runs.\<close>

abbreviation no_heartbeats :: HeartBeatIntervalls where
  "no_heartbeats \<equiv> \<lparr>supplied = 0, expected = 0\<rparr>"

abbreviation subscribe_frame :: "string \<Rightarrow> string \<Rightarrow> ClientEvent" where
  "subscribe_frame d c \<equiv>
     EvClientFrame (Inr (Subscribe \<lparr>subscribe_destination = d, subscribe_id = c\<rparr>))"

abbreviation send_frame :: "string \<Rightarrow> bytes \<Rightarrow> ClientEvent" where
  "send_frame d body \<equiv> EvClientFrame (Inr (Send \<lparr>send_destination = d, send_body = Some body\<rparr>))"

abbreviation unsubscribe_frame :: "string \<Rightarrow> ClientEvent" where
  "unsubscribe_frame c \<equiv> EvClientFrame (Inr (Unsubscribe \<lparr>unsubscribe_id = c\<rparr>))"

text \<open>A client connects, subscribes, and sends itself a message; the last turn is left out.\<close>

abbreviation demo_delivery :: "turn list" where
  "demo_delivery \<equiv>
     [TConnect no_heartbeats, TClient 0 (subscribe_frame ''d'' ''c''), TTask, TBackend 3 ''u'', TServer 0,
      TClient 0 (send_frame ''d'' [104, 105])]"

abbreviation demo_message :: MessageFrame where
  "demo_message \<equiv>
     \<lparr>frame_message_id = ''m'', frame_destination = ''d'', frame_subscription = ''c'',
      frame_content_type = ''text/plain'', frame_content_length = 2, frame_body = [104, 105]\<rparr>"

lemma demo_delivery_run:
  "\<exists>b. exec_all (demo_delivery @ [TBackend 3 ''m'', TServer 0]) broker_start = Some b \<and>
     outbox b 0 = [Inl (MessageF demo_message)]"
  by (simp add: run_defs)

end
