(* ===== verification/Broker_Progress.thy ===== *)
theory Broker_Progress
  imports Broker_Spec
begin

text \<open>
  The turns that the server takes by itself end: whatever has come in so far is worked off after
  finitely many turns, in whatever order the executor lets the tasks run, and what was queued for
  a client has then reached it.
\<close>

section \<open>The backlog\<close>

text \<open>
  An event weighs one; the \<open>Error\<close> of a missed heartbeat weighs two, as its handler sends
  \<open>Close\<close> to the session itself.
\<close>

fun event_weight :: "ClientEvent \<Rightarrow> nat" where
  "event_weight (EvError msg) = 2"
| "event_weight _ = 1"

definition event_load :: "runtime \<Rightarrow> nat \<Rightarrow> nat" where
  "event_load w i = sum_list (map event_weight (mb_queue (rt_events w) i))"

definition action_load :: "runtime \<Rightarrow> nat \<Rightarrow> nat" where
  "action_load w t = length (mb_queue (rt_actions w) t)"

lemma event_weight_pos: "0 < event_weight e"
  by (cases e) simp_all

definition backlog_ok :: "runtime \<Rightarrow> bool" where
  "backlog_ok w \<longleftrightarrow> finitely_many (event_load w) \<and> finitely_many (action_load w) \<and>
     (\<forall>i. list_all queued_kind (mb_queue (rt_events w) i))"

lemma event_load_simps [simp]:
  "event_load (w\<lparr>rt_events := mb_post t e (rt_events w)\<rparr>) =
    (event_load w)(t := event_load w t + (if mb_open (rt_events w) t then event_weight e else 0))"
  "event_load (rt_events_update (mb_post t e) w) =
    (event_load w)(t := event_load w t + (if mb_open (rt_events w) t then event_weight e else 0))"
  "event_load (w\<lparr>rt_events := mb_create t (rt_events w)\<rparr>) = (event_load w)(t := 0)"
  "event_load (w\<lparr>rt_events := mb_close t (rt_events w)\<rparr>) = (event_load w)(t := 0)"
  "event_load (w\<lparr>rt_events := mb_take t (rt_events w)\<rparr>) =
    (event_load w)(t := sum_list (map event_weight (tl (mb_queue (rt_events w) t))))"
  by (auto simp: event_load_def)

lemma action_load_simps [simp]:
  "action_load (w\<lparr>rt_actions := mb_post t a (rt_actions w)\<rparr>) =
    (action_load w)(t := action_load w t + (if mb_open (rt_actions w) t then 1 else 0))"
  "action_load (rt_actions_update (mb_post t a) w) =
    (action_load w)(t := action_load w t + (if mb_open (rt_actions w) t then 1 else 0))"
  "action_load (w\<lparr>rt_actions := mb_create t (rt_actions w)\<rparr>) = (action_load w)(t := 0)"
  "action_load (w\<lparr>rt_actions := mb_close t (rt_actions w)\<rparr>) = (action_load w)(t := 0)"
  "action_load (w\<lparr>rt_actions := mb_take t (rt_actions w)\<rparr>) = (action_load w)(t := action_load w t - 1)"
  by (auto simp: action_load_def)

lemma load_frame [simp]:
  "event_load (rt_actions_update fa w) = event_load w" "event_load (rt_commands_update fc w) = event_load w"
  "event_load (rt_registry_update fr w) = event_load w" "event_load (rt_spawned_update fs w) = event_load w"
  "event_load (rt_backends_update fb w) = event_load w" "event_load (rt_listeners_update fl w) = event_load w"
  "event_load (rt_next_update fn w) = event_load w"
  "action_load (rt_events_update fe w) = action_load w" "action_load (rt_commands_update fc w) = action_load w"
  "action_load (rt_registry_update fr w) = action_load w" "action_load (rt_spawned_update fs w) = action_load w"
  "action_load (rt_backends_update fb w) = action_load w" "action_load (rt_listeners_update fl w) = action_load w"
  "action_load (rt_next_update fn w) = action_load w"
  by (simp_all add: event_load_def action_load_def fun_eq_iff)

lemma backlog_ok_frame [simp]:
  "backlog_ok (rt_commands_update fc w) = backlog_ok w"
  "backlog_ok (rt_registry_update fr w) = backlog_ok w" "backlog_ok (rt_spawned_update fs w) = backlog_ok w"
  "backlog_ok (rt_backends_update fb w) = backlog_ok w" "backlog_ok (rt_listeners_update fl w) = backlog_ok w"
  "backlog_ok (rt_next_update fn w) = backlog_ok w"
  by (simp_all add: backlog_ok_def)

lemma backlog_ok_channels:
  assumes "backlog_ok w"
  shows "backlog_ok (w\<lparr>rt_events := mb_create t (rt_events w)\<rparr>)"
    "backlog_ok (w\<lparr>rt_events := mb_close t (rt_events w)\<rparr>)"
    "backlog_ok (w\<lparr>rt_events := mb_take t (rt_events w)\<rparr>)"
    "backlog_ok (w\<lparr>rt_actions := mb_create t (rt_actions w)\<rparr>)"
    "backlog_ok (w\<lparr>rt_actions := mb_close t (rt_actions w)\<rparr>)"
    "backlog_ok (w\<lparr>rt_actions := mb_take t (rt_actions w)\<rparr>)"
  using assms by (simp_all add: backlog_ok_def list_all_tl)


section \<open>Every turn keeps the backlog finite\<close>

lemma backlog_ok_sends:
  "queued_kind e \<Longrightarrow> preserves backlog_ok (rt_event_send t e)"
  "preserves backlog_ok (rt_action_send t a)"
  "preserves backlog_ok (rt_command_send t c)"
  "preserves backlog_ok (rt_spawn task)"
  by (simp_all add: preserves_def rt_send_defs fifo_send_def rt_spawn_def)
    (auto simp: backlog_ok_def)

lemma backlog_ok_handlers:
  "preserves backlog_ok (handle_event rt_env s e)"
  "preserves backlog_ok (handle_action rt_subscriber async_sender iter u bk a)"
  by (rule preserves_handle_event preserves_handle_action; rule backlog_ok_sends; assumption)+

lemma backlog_ok_session_turn:
  assumes "backlog_ok (net b)"
  shows "backlog_ok (net (session_turn i s e b))"
proof -
  have "backlog_ok (snd (handle_event rt_env s e (net b)))"
    using backlog_ok_handlers(1) assms by (auto simp: preserves_def)
  then show ?thesis
    by (auto simp: session_turn_def end_session_def Let_def backlog_ok_channels
        split: prod.split outcome.split)
qed

lemma backlog_ok_backend_turn:
  assumes "backlog_ok w"
  shows "backlog_ok (backend_turn iter t u bk a w)"
proof -
  have "backlog_ok (snd (handle_action rt_subscriber async_sender iter u bk a
      (w\<lparr>rt_actions := mb_take t (rt_actions w)\<rparr>)))"
    by (rule preserves_snd [OF backlog_ok_handlers(2)]) (rule backlog_ok_channels(6) [OF assms])
  moreover have "backlog_ok (w'\<lparr>rt_backends := bks, rt_actions := mb_close t (rt_actions w')\<rparr>)"
    if "backlog_ok w'" for w' bks
    using backlog_ok_channels(5) [of "w'\<lparr>rt_backends := bks\<rparr>" t] that by simp
  ultimately show ?thesis
    by (auto simp: backend_turn_def split: prod.split outcome.split flow.split)
qed

lemma preserves_run_subscribe_task:
  assumes "\<And>d. preserves I (rt_get d)" "\<And>t a. preserves I (rt_action_send t a)"
    and send: "\<And>t e. queued_kind e \<Longrightarrow> preserves I (rt_event_send t e)"
  shows "preserves I (run_subscribe_task rt_map rt_destination rt_registry_handle task)"
proof -
  have called: "preserves I (call_subscribe_callback rt_subscriber scb d c r)" for scb d c r
    by (rule preserves_callbacks) (rule send)
  show ?thesis
    using assms(1,2)
    by (auto simp: run_subscribe_task_def rt_map_def rt_destination_def in_mem_destination_def imd_subscribe_def
        perform_action_def intro!: preserves_intros called split: DestinationAction.split sum.split)
qed

lemma backlog_ok_subscribe_task:
  "preserves backlog_ok (run_subscribe_task rt_map rt_destination rt_registry_handle task)"
proof (rule preserves_run_subscribe_task)
  show "preserves backlog_ok (rt_get d)" for d
    by (auto simp: preserves_def rt_get_eq backlog_ok_channels split: option.split)
qed (use backlog_ok_sends in auto)

lemma backlog_ok_connect:
  assumes "handle_connection_validation_result rt_setup (Inr (hb, DefaultClient)) rt_registry_handle w =
    (Ret (Accepted conn), w')"
  shows "backlog_ok w \<Longrightarrow> backlog_ok w'"
  by (rule rt_connectE [OF assms]) (simp add: backlog_ok_def)

lemma backlog_ok_step: "broker_step b b' \<Longrightarrow> backlog_ok (net b) \<Longrightarrow> backlog_ok (net b')"
proof (induction rule: broker_step.induct)
  case (connect hb b conn w)
  then show ?case using backlog_ok_connect by auto
next
  case (listener p timer b)
  have "preserves backlog_ok (heartbeat_listener rt_event_send p (Some ()))"
    by (auto simp: heartbeat_listener_def send_event_def intro!: preserves_intros backlog_ok_sends)
  with listener show ?case by (simp add: preserves_def)
next
  case (internal b b')
  then show ?case
    using backlog_ok_subscribe_task
    by (induction rule: internal_step.induct)
      (simp_all add: backlog_ok_session_turn backlog_ok_backend_turn backlog_ok_channels preserves_def)
qed (simp_all add: backlog_ok_session_turn end_session_def backlog_ok_channels)

lemma reachable_backlog_ok: "reachable b \<Longrightarrow> backlog_ok (net b)"
proof (induction rule: reachable.induct)
  case start
  show ?case
    by (simp add: broker_start_def runtime_start_def backlog_ok_def finitely_many_def event_load_def
        action_load_def)
qed (rule backlog_ok_step)


section \<open>Every internal turn reduces it\<close>

text \<open>
  Spawned tasks come first, as each leaves an action behind; then the actions, each of which
  leaves an event for every subscription; then the events.
\<close>

definition server_backlog :: "broker \<Rightarrow> nat \<times> nat \<times> nat" where
  "server_backlog b = (length (rt_spawned (net b)), total (action_load (net b)), total (event_load (net b)))"

definition less_backlog :: "((nat \<times> nat \<times> nat) \<times> (nat \<times> nat \<times> nat)) set" where
  "less_backlog = less_than <*lex*> less_than <*lex*> less_than"

lemma wf_less_backlog: "wf less_backlog"
  by (simp add: less_backlog_def wf_lex_prod)

lemma less_backlogI:
  assumes "n < n' \<or> n = n' \<and> (a < a' \<or> a = a' \<and> (e :: nat) < (e' :: nat))"
  shows "((n :: nat, a :: nat, e), (n', a', e')) \<in> less_backlog"
  using assms by (auto simp: less_backlog_def)

lemma internal_event_keeps:
  assumes "queued_kind e"
  shows "keeps rt_spawned (handle_event rt_env s e)" "keeps rt_actions (handle_event rt_env s e)"
  by (rule keeps_if_preserves, rule preserves_handle_event;
      use assms in \<open>simp add: preserves_def rt_send_defs fifo_send_def\<close>)+

lemma event_load_handle_event:
  assumes "backlog_ok w" "queued_kind e" "handle_event rt_env s e w = (r, w')"
  shows "total (event_load w') < total (event_load w) + event_weight e"
proof (cases e)
  case (EvError msg)
  let ?t = "client_sender (client_proxy s)"
  have "event_load w' = (event_load w)(?t := event_load w ?t + (if mb_open (rt_events w) ?t then 1 else 0))"
    using assms(3) EvError
    by (auto simp: handle_event_def session_error_def send_event_def rt_event_send_def fifo_send_def
        bind_io_def then_io_def)
  then show ?thesis
    using total_upd [of "event_load w" ?t "event_load w ?t + (if mb_open (rt_events w) ?t then 1 else 0)"]
      assms(1) EvError by (auto simp: backlog_ok_def)
next
  case (EvServerMessage c m)
  then have "rt_events w' = rt_events w"
    using assms(3)
    by (auto simp: handle_event_def resetter_reset_def rt_command_send_def fifo_send_def bind_io_def
        split: if_splits)
  with EvServerMessage show ?thesis by (simp add: event_load_def [abs_def])
next
  case EvClientHeartbeat
  then have "rt_events w' = rt_events w"
    using assms(3)
    by (auto simp: handle_event_def client_message_received_def resetter_reset_def rt_command_send_def
        fifo_send_def bind_io_def then_io_def)
  with EvClientHeartbeat show ?thesis by (simp add: event_load_def [abs_def])
qed (use assms in \<open>auto simp: handle_event_def\<close>)

lemma from_server_backlog:
  assumes ok: "backlog_ok (net b)" and e: "mb_queue (rt_events (net b)) i = e # rest"
  shows "(server_backlog (session_turn i s e (b\<lparr>net := (net b)\<lparr>rt_events := mb_take i (rt_events (net b))\<rparr>\<rparr>)),
    server_backlog b) \<in> less_backlog"
proof -
  let ?w = "(net b)\<lparr>rt_events := mb_take i (rt_events (net b))\<rparr>" and ?load = "event_load (net b)"
  have kind: "queued_kind e" using ok e by (auto simp: backlog_ok_def dest!: spec [of _ i])
  obtain r w' where run: "handle_event rt_env s e ?w = (r, w')"
    by (cases "handle_event rt_env s e ?w")
  have same: "rt_spawned w' = rt_spawned (net b)" "action_load w' = action_load (net b)"
    using internal_event_keeps [OF kind, of s] run
    by (auto simp: keeps_def action_load_def fun_eq_iff dest!: spec [of _ ?w])
  have "total (event_load w') < total (event_load ?w) + event_weight e"
    by (rule event_load_handle_event [OF backlog_ok_channels(3) [OF ok] kind run])
  also have "\<dots> = total ?load"
  proof -
    have "?load i = event_weight e + sum_list (map event_weight rest)" by (simp add: event_load_def e)
    then show ?thesis
      using total_upd [of ?load i "sum_list (map event_weight rest)"] ok e by (simp add: backlog_ok_def)
  qed
  finally have less: "total (event_load w') < total ?load" .
  have w': "backlog_ok w'"
    using preservesD [OF backlog_ok_handlers(1) run backlog_ok_channels(3) [OF ok]] .
  then have "total ((event_load w')(i := 0)) \<le> total (event_load w')"
    by (intro total_mono_upd) (simp_all add: backlog_ok_def)
  with less same show ?thesis
    by (auto simp: session_turn_def end_session_def Let_def server_backlog_def run
        intro!: less_backlogI split: outcome.split)
qed

lemma subscribe_task_backlog:
  assumes "rt_spawned (net b) = before @ task # after"
  shows "(server_backlog (b\<lparr>net := snd (run_subscribe_task rt_map rt_destination rt_registry_handle task
    ((net b)\<lparr>rt_spawned := before @ after\<rparr>))\<rparr>), server_backlog b) \<in> less_backlog"
proof -
  have "keeps rt_spawned (run_subscribe_task rt_map rt_destination rt_registry_handle task)"
    by (rule keeps_if_preserves, rule preserves_run_subscribe_task)
      (auto simp: preserves_def rt_get_eq rt_send_defs fifo_send_def split: option.split)
  then show ?thesis
    by (auto simp: keeps_def server_backlog_def assms intro: less_backlogI)
qed

lemma backend_backlog:
  assumes ok: "backlog_ok (net b)" and a: "mb_queue (rt_actions (net b)) t = a # rest"
  shows "(server_backlog (b\<lparr>net := backend_turn iter t u bk a (net b)\<rparr>), server_backlog b) \<in> less_backlog"
proof -
  let ?w = "(net b)\<lparr>rt_actions := mb_take t (rt_actions (net b))\<rparr>" and ?load = "action_load (net b)"
  obtain r w' where run: "handle_action rt_subscriber async_sender iter u bk a ?w = (r, w')"
    by (cases "handle_action rt_subscriber async_sender iter u bk a ?w")
  have keeps: "keeps rt_spawned (handle_action rt_subscriber async_sender iter u bk a)"
    "keeps rt_actions (handle_action rt_subscriber async_sender iter u bk a)"
    by (rule keeps_if_preserves, rule preserves_handle_action;
        simp add: preserves_def rt_send_defs fifo_send_def)+
  then have same: "rt_spawned w' = rt_spawned (net b)" "rt_actions w' = rt_actions ?w"
    using run by (auto simp: keeps_def dest!: spec [of _ ?w])
  have load: "?load t = Suc (length rest)" by (simp add: action_load_def a)
  have fin: "finitely_many ?load" using ok by (simp add: backlog_ok_def)
  have "action_load w' = ?load(t := length rest)"
    using same(2) load by (auto simp: action_load_def fun_eq_iff)
  then have "total (action_load w') < total ?load" "total ((action_load w')(t := 0)) < total ?load"
    using total_less_upd [OF fin, of "length rest" t] total_less_upd [OF fin, of 0 t] load by simp_all
  moreover have "action_load (w'\<lparr>rt_backends := bks, rt_actions := mb_close t (rt_actions w')\<rparr>) =
      (action_load w')(t := 0)" for bks
    by (auto simp: action_load_def)
  ultimately show ?thesis
    using same(1)
    by (auto simp: backend_turn_def server_backlog_def run intro!: less_backlogI split: outcome.split flow.split)
qed

lemma internal_step_backlog:
  "internal_step b b' \<Longrightarrow> backlog_ok (net b) \<Longrightarrow> (server_backlog b', server_backlog b) \<in> less_backlog"
  by (induction rule: internal_step.induct)
    (rule from_server_backlog subscribe_task_backlog backend_backlog; assumption)+


section \<open>What is queued arrives\<close>

text \<open>A state in which the server waits for the outside.\<close>

definition settled :: "broker \<Rightarrow> bool" where
  "settled b \<longleftrightarrow> rt_spawned (net b) = [] \<and>
     (\<forall>i. sessions b i \<noteq> None \<longrightarrow> mb_queue (rt_events (net b)) i = []) \<and>
     (\<forall>t. rt_backends (net b) t \<noteq> None \<longrightarrow> mb_queue (rt_actions (net b)) t = [])"

lemma settled_iff: "settled b \<longleftrightarrow> (\<nexists>b'. internal_step b b')"
proof
  assume "\<nexists>b'. internal_step b b'"
  then have "\<not> internal_step b b'" for b' by blast
  note stuck = this
  have "mb_queue (rt_events (net b)) i = []" if "sessions b i = Some s" for i s
    using stuck internal_step.from_server [OF that] by (cases "mb_queue (rt_events (net b)) i") blast+
  moreover have "mb_queue (rt_actions (net b)) t = []" if "rt_backends (net b) t = Some bk" for t bk
    using stuck internal_step.backend [OF that _ hash_order_id(1)]
    by (cases "mb_queue (rt_actions (net b)) t") blast+
  moreover have "rt_spawned (net b) = []"
    using stuck internal_step.subscribe_task [of b "[]"] by (cases "rt_spawned (net b)") auto
  ultimately show "settled b" by (auto simp: settled_def)
qed (auto simp: settled_def elim: internal_step.cases)

lemma internal_run_reachable: "internal_step\<^sup>*\<^sup>* b b' \<Longrightarrow> reachable b \<Longrightarrow> reachable b'"
  by (induction rule: rtranclp_induct) (auto intro: reachable.step broker_step.internal)

lemma no_infinite_run:
  assumes "reachable (f 0)" "\<And>n. internal_step (f n) (f (Suc n))"
  shows False
proof -
  have "reachable (f n)" for n
    by (induction n) (use assms in \<open>auto intro: reachable.step broker_step.internal\<close>)
  then have "(server_backlog (f (Suc n)), server_backlog (f n)) \<in> less_backlog" for n
    using internal_step_backlog assms(2) reachable_backlog_ok by blast
  then show False
    using wf_less_backlog unfolding wf_iff_no_infinite_down_chain by (auto dest!: spec [of _ "server_backlog \<circ> f"])
qed

lemma settling_run:
  assumes "reachable b"
  shows "\<exists>b'. internal_step\<^sup>*\<^sup>* b b' \<and> settled b'"
  using wf_less_backlog assms
proof (induction "server_backlog b" arbitrary: b rule: wf_induct_rule)
  case less
  show ?case
  proof (cases "settled b")
    case False
    then obtain b1 where b1: "internal_step b b1" by (auto simp: settled_iff)
    with less.prems have "reachable b1" by (blast intro: reachable.step broker_step.internal)
    with less.hyps [OF internal_step_backlog [OF b1]] reachable_backlog_ok [OF less.prems]
    obtain b' where "internal_step\<^sup>*\<^sup>* b1 b'" "settled b'" by blast
    with b1 show ?thesis by (blast intro: converse_rtranclp_into_rtranclp)
  qed auto
qed

text \<open>The frame of a message, and the ways it can be underway to its client.\<close>

definition frame_of :: "SubscriptionId \<Rightarrow> OutboundMessage \<Rightarrow> ServerMessage" where
  "frame_of c m = Inl (MessageF
     \<lparr>frame_message_id = msg_id_str (out_message_id m), frame_destination = dest_id_str (out_destination m),
      frame_subscription = sub_id_str c, frame_content_type = ''text/plain'',
      frame_content_length = of_nat (length (out_body m)), frame_body = out_body m\<rparr>)"

definition underway :: "nat \<Rightarrow> SubscriptionId \<Rightarrow> OutboundMessage \<Rightarrow> broker \<Rightarrow> bool" where
  "underway i c m b \<longleftrightarrow> sessions b i = None \<or> frame_of c m \<in> set (outbox b i) \<or>
     EvServerMessage c m \<in> set (mb_queue (rt_events (net b)) i)"

lemma queued_stays:
  fixes i :: nat and x :: ClientEvent
  defines "I \<equiv> \<lambda>w. x \<in> set (mb_queue (rt_events w) i)"
  shows "preserves I (handle_event rt_env s e)"
    "preserves I (handle_action rt_subscriber async_sender iter u bk a)"
    "preserves I (run_subscribe_task rt_map rt_destination rt_registry_handle task)"
  by (rule preserves_handle_event preserves_handle_action preserves_run_subscribe_task;
      simp add: I_def preserves_def rt_send_defs fifo_send_def rt_spawn_def rt_get_eq split: option.split)+

lemma underway_session_turn:
  assumes "underway i c m (b\<lparr>net := (net b)\<lparr>rt_events := mb_take j (rt_events (net b))\<rparr>\<rparr>) \<or>
      j = i \<and> e = EvServerMessage c m"
    and s: "sessions b j = Some s"
  shows "underway i c m
    (session_turn j s e (b\<lparr>net := (net b)\<lparr>rt_events := mb_take j (rt_events (net b))\<rparr>\<rparr>))"
proof -
  let ?w = "(net b)\<lparr>rt_events := mb_take j (rt_events (net b))\<rparr>"
  obtain out w' where run: "handle_event rt_env s e ?w = (out, w')"
    by (cases "handle_event rt_env s e ?w")
  have stays: "EvServerMessage c m \<in> set (mb_queue (rt_events ?w) i) \<Longrightarrow>
      EvServerMessage c m \<in> set (mb_queue (rt_events w') i)"
    using preservesD [OF queued_stays(1) run] .
  have "result_output r = [frame_of c m]" if "e = EvServerMessage c m" "out = Ret (r, s')" for r s'
    using run that
    by (auto simp: handle_event_def bind_io_eq_Ret_iff server_message_def Let_def frame_result_def
        result_output_def frame_of_def split: sum.splits)
  with assms stays show ?thesis
    by (auto simp: session_turn_def end_session_def Let_def run underway_def split: outcome.split)
qed

lemma underway_internal_step: "internal_step b b' \<Longrightarrow> underway i c m b \<Longrightarrow> underway i c m b'"
proof (induction rule: internal_step.induct)
  case (from_server b j s e rest)
  show ?case
    by (rule underway_session_turn [OF _ from_server(1)])
      (use from_server(2,3) in \<open>auto simp: underway_def split: if_splits\<close>)
next
  case (subscribe_task b before task after)
  then show ?case
    using preserves_snd [OF queued_stays(3), of "EvServerMessage c m" "(net b)\<lparr>rt_spawned := before @ after\<rparr>" i]
    by (auto simp: underway_def)
next
  case (backend b t bk a rest iter u)
  let ?w = "(net b)\<lparr>rt_actions := mb_take t (rt_actions (net b))\<rparr>"
  obtain r w' where run: "handle_action rt_subscriber async_sender iter u bk a ?w = (r, w')"
    by (cases "handle_action rt_subscriber async_sender iter u bk a ?w")
  then have "rt_events (backend_turn iter t u bk a (net b)) = rt_events w'"
    by (auto simp: backend_turn_def split: outcome.split flow.split)
  with backend(4) preservesD [OF queued_stays(2) run, of "EvServerMessage c m" i] show ?case
    by (auto simp: underway_def)
qed

lemma underway_run: "internal_step\<^sup>*\<^sup>* b b' \<Longrightarrow> underway i c m b \<Longrightarrow> underway i c m b'"
  by (induction rule: rtranclp_induct) (auto intro: underway_internal_step)


section \<open>Properties\<close>

text \<open>
  C7: the server always comes to rest. From no reachable state can its tasks take turns for
  ever without anything from the outside; however they are scheduled, they reach a state in
  which no task waits to run, no destination has an action left and no session an event, and
  they cannot stop before.
\<close>

theorem server_settles:
  assumes "reachable b"
  shows "(\<nexists>f. f 0 = b \<and> (\<forall>n. internal_step (f n) (f (Suc n)))) \<and>
    (\<exists>b'. internal_step\<^sup>*\<^sup>* b b' \<and> settled b') \<and>
    (\<forall>b'. internal_step\<^sup>*\<^sup>* b b' \<and> (\<nexists>b''. internal_step b' b'') \<longrightarrow> settled b')"
  using no_infinite_run settling_run [OF assms] settled_iff assms by blast

theorem server_settles_witness:
  "\<exists>b b'. reachable b \<and> \<not> settled b \<and> internal_step\<^sup>*\<^sup>* b b' \<and> settled b'"
proof -
  have "\<exists>b bk. exec_all demo_delivery broker_start = Some b \<and> rt_backends (net b) 3 = Some bk \<and>
      mb_queue (rt_actions (net b)) 3 \<noteq> []"
    by (simp add: run_defs)
  then obtain b bk where b: "exec_all demo_delivery broker_start = Some b" "rt_backends (net b) 3 = Some bk"
      "mb_queue (rt_actions (net b)) 3 \<noteq> []"
    by blast
  have r: "reachable b" using b(1) reachable.start by (rule exec_all_reachable)
  have "\<not> settled b" using b(2,3) by (auto simp: settled_def)
  with server_settles [OF r] r show ?thesis by blast
qed

text \<open>
  C8: a message that waits in a session's queue reaches its client: when the server has come to
  rest, in whatever order its tasks took their turns, the frame with the subscription's id, the
  destination, the message id and the body is among what the session has produced for the
  client, or the session is over.
\<close>

theorem queued_messages_arrive:
  assumes "EvServerMessage c m \<in> set (mb_queue (rt_events (net b)) i)"
    and "internal_step\<^sup>*\<^sup>* b b'" "settled b'"
  shows "sessions b' i = None \<or>
    Inl (MessageF
     \<lparr>frame_message_id = msg_id_str (out_message_id m), frame_destination = dest_id_str (out_destination m),
      frame_subscription = sub_id_str c, frame_content_type = ''text/plain'',
      frame_content_length = of_nat (length (out_body m)), frame_body = out_body m\<rparr>) \<in> set (outbox b' i)"
proof -
  have "underway i c m b'"
    by (rule underway_run [OF assms(2)]) (simp add: underway_def assms(1))
  with assms(3) show ?thesis by (auto simp: underway_def settled_def frame_of_def)
qed

theorem queued_messages_arrive_witness:
  "\<exists>b b'. reachable b \<and> internal_step\<^sup>*\<^sup>* b b' \<and> settled b' \<and>
     (sessions b' 0 = None \<or> Inl (MessageF demo_message) \<in> set (outbox b' 0))"
proof -
  let ?m = "\<lparr>out_destination = DestinationId ''d'', out_message_id = MessageId ''m'', out_body = [104, 105]\<rparr>"
  have "\<exists>b. exec_all (demo_delivery @ [TBackend 3 ''m'']) broker_start = Some b \<and>
      EvServerMessage (SubscriptionId ''c'') ?m \<in> set (mb_queue (rt_events (net b)) 0)"
    by (simp add: run_defs)
  then obtain b where b: "exec_all (demo_delivery @ [TBackend 3 ''m'']) broker_start = Some b"
      "EvServerMessage (SubscriptionId ''c'') ?m \<in> set (mb_queue (rt_events (net b)) 0)"
    by blast
  have r: "reachable b" using b(1) reachable.start by (rule exec_all_reachable)
  obtain b' where b': "internal_step\<^sup>*\<^sup>* b b'" "settled b'" using settling_run [OF r] by blast
  from queued_messages_arrive [OF b(2) b'] r b' show ?thesis by auto
qed

end
