(* ===== verification/Broker_Life.thy ===== *)
theory Broker_Life
  imports Broker_Progress
begin

text \<open>
  The lives of the server's tasks: a session and the receiver of its events, a destination's task
  and the receiver of its actions live and die together, and the timers of a session live as long
  as it does. From this it follows which events end a session of the composed server.
\<close>

section \<open>Tasks and their channels\<close>

definition timers_up :: "runtime \<Rightarrow> session \<Rightarrow> bool" where
  "timers_up w s \<longleftrightarrow> mb_open (rt_commands w) (resetter_sender (server_heartbeat_resetter s)) \<and>
     mb_open (rt_commands w) (resetter_sender (client_heartbeat_resetter s))"

definition alive_ok :: "broker \<Rightarrow> bool" where
  "alive_ok b \<longleftrightarrow>
     (\<forall>i. mb_open (rt_events (net b)) i \<longleftrightarrow> sessions b i \<noteq> None) \<and>
     (\<forall>t. mb_open (rt_actions (net b)) t \<longleftrightarrow> rt_backends (net b) t \<noteq> None) \<and>
     (\<forall>i s. sessions b i = Some s \<longrightarrow> timers_up (net b) s)"

text \<open>The receivers that are open, and the destinations' tasks: only turns of their own change them.\<close>

definition lives :: "runtime \<Rightarrow> (nat \<Rightarrow> bool) \<times> (nat \<Rightarrow> bool) \<times> (nat \<Rightarrow> bool) \<times> (nat \<rightharpoonup> backend)" where
  "lives w = (mb_open (rt_events w), mb_open (rt_actions w), mb_open (rt_commands w), rt_backends w)"

lemma keeps_lives:
  "keeps lives (handle_event rt_env s e)"
  "keeps lives (handle_action rt_subscriber async_sender iter u bk a)"
  by (rule keeps_if_preserves, rule preserves_handle_event preserves_handle_action;
      simp add: preserves_def lives_def rt_send_defs fifo_send_def rt_spawn_def)+

lemma handle_event_lives:
  assumes "handle_event rt_env s e w = (r, w')"
  shows "mb_open (rt_events w') = mb_open (rt_events w)" "mb_open (rt_actions w') = mb_open (rt_actions w)"
    "mb_open (rt_commands w') = mb_open (rt_commands w)" "rt_backends w' = rt_backends w"
  using keeps_lives(1) [of s e] assms by (auto simp: keeps_def lives_def dest!: spec [of _ w])

lemma handle_action_lives:
  assumes "handle_action rt_subscriber async_sender iter u bk a w = (r, w')"
  shows "mb_open (rt_events w') = mb_open (rt_events w)" "mb_open (rt_actions w') = mb_open (rt_actions w)"
    "mb_open (rt_commands w') = mb_open (rt_commands w)" "rt_backends w' = rt_backends w"
  using keeps_lives(2) [of iter u bk a] assms by (auto simp: keeps_def lives_def dest!: spec [of _ w])

lemma alive_ok_session_turn:
  assumes "alive_ok b" "sessions b i = Some s"
  shows "alive_ok (session_turn i s e b)"
proof -
  obtain out w' where run: "handle_event rt_env s e (net b) = (out, w')"
    by (cases "handle_event rt_env s e (net b)")
  have "timers_up w' s'" if "timers_up (net b) s'" for s'
    using that handle_event_lives(3) [OF run] by (simp add: timers_up_def)
  moreover have "timers_up w s' = timers_up w s" if "out = Ret (r, s')" for w r s'
    using handle_event_state run that by (fastforce simp: timers_up_def)
  ultimately show ?thesis
    using assms handle_event_lives [OF run]
    by (auto simp: session_turn_def end_session_def Let_def run alive_ok_def timers_up_def
        split: outcome.split)
qed

lemma alive_ok_backend_turn:
  assumes "alive_ok b" "rt_backends (net b) t = Some bk"
  shows "alive_ok (b\<lparr>net := backend_turn iter t u bk a (net b)\<rparr>)"
proof -
  let ?w = "(net b)\<lparr>rt_actions := mb_take t (rt_actions (net b))\<rparr>"
  obtain out w' where run: "handle_action rt_subscriber async_sender iter u bk a ?w = (out, w')"
    by (cases "handle_action rt_subscriber async_sender iter u bk a ?w")
  show ?thesis
    using assms handle_action_lives [OF run]
    by (auto simp: backend_turn_def run alive_ok_def timers_up_def split: outcome.split flow.split)
qed

lemma alive_ok_subscribe_task:
  assumes "alive_ok b"
  shows "alive_ok (b\<lparr>net := snd (run_subscribe_task rt_map rt_destination rt_registry_handle task
    ((net b)\<lparr>rt_spawned := rest\<rparr>))\<rparr>)"
proof -
  let ?I = "\<lambda>w. alive_ok (b\<lparr>net := w\<rparr>)"
  have "preserves ?I (run_subscribe_task rt_map rt_destination rt_registry_handle task)"
  proof (rule preserves_run_subscribe_task)
    show "preserves ?I (rt_get d)" for d
      by (auto simp: preserves_def rt_get_eq alive_ok_def timers_up_def split: option.split)
  qed (auto simp: preserves_def rt_send_defs fifo_send_def alive_ok_def timers_up_def)
  then show ?thesis
    by (rule preserves_snd) (use assms in \<open>simp add: alive_ok_def timers_up_def\<close>)
qed

lemma alive_ok_step: "broker_step b b' \<Longrightarrow> alive_ok b \<Longrightarrow> alive_ok b'"
proof (induction rule: broker_step.induct)
  case (connect hb b conn w)
  show ?case
    by (rule rt_connectE [OF connect(1)])
      (use connect(2) in \<open>simp add: alive_ok_def timers_up_def ClientSession_new_def\<close>)
next
  case (listener p timer b)
  then show ?case
    by (simp add: heartbeat_listener_def send_event_def bind_io_def rt_event_send_def fifo_send_def
        alive_ok_def timers_up_def)
next
  case (internal b b')
  then show ?case
  proof (induction rule: internal_step.induct)
    case (from_server b i s e rest)
    then show ?case
      by (intro alive_ok_session_turn) (simp_all add: alive_ok_def timers_up_def)
  qed (simp_all add: alive_ok_subscribe_task alive_ok_backend_turn)
next
  case (sink_fails b i s)
  then show ?case by (auto simp: end_session_def alive_ok_def timers_up_def)
next
  case (timer_task b t)
  then show ?case by (simp add: alive_ok_def timers_up_def)
qed (rule alive_ok_session_turn)

lemma reachable_alive_ok: "reachable b \<Longrightarrow> alive_ok b"
proof (induction rule: reachable.induct)
  case start
  show ?case by (simp add: alive_ok_def broker_start_def runtime_start_def)
qed (rule alive_ok_step)


section \<open>Properties\<close>


lemma demo_session_run:
  obtains b s where "reachable b" "sessions b 0 = Some s"
    "active_subscriptions_by_client_id s = [(SubscriptionId ''c'', DestinationId ''d'', SubscriptionId ''u'')]"
proof -
  have "\<exists>b s. exec_all demo_delivery broker_start = Some b \<and> sessions b 0 = Some s \<and>
      active_subscriptions_by_client_id s = [(SubscriptionId ''c'', DestinationId ''d'', SubscriptionId ''u'')]"
    by (simp add: run_defs)
  with exec_all_reachable [OF _ reachable.start] that show thesis by blast
qed


lemma returns_rt_unsubscribe:
  "returns (ad_unsubscribe rt_map rt_destination ds d u p cl) w \<longleftrightarrow>
    (\<forall>h. rt_registry w d = Some h \<longrightarrow> mb_open (rt_actions w) (imd_sender h))"
  by (simp add: ad_unsubscribe_def rt_map_def rt_destination_def in_mem_destination_def imd_unsubscribe_def
      perform_action_def rt_action_send_def fifo_send_def returns_def bind_io_def to_unsubscribe_callback_def
      rt_subscriber_def async_subscriber_def asc_unsubscribe_callback_def unwrap_subscriber_sub_id_def
      split: option.split)

lemma session_turn_ends:
  "sessions (session_turn i s e b) i = None \<longleftrightarrow>
    \<not> returns (handle_event rt_env s e) (net b) \<or> ends_session e"
proof -
  obtain out w' where run: "handle_event rt_env s e (net b) = (out, w')"
    by (cases "handle_event rt_env s e (net b)")
  show ?thesis
  proof (cases out)
    case (Ret x)
    obtain r s' where x: "x = (r, s')" by (cases x)
    then show ?thesis
      using run Ret handle_event_ends(1) [of rt_env s e "net b" r s' w']
      by (simp add: session_turn_def end_session_def Let_def returns_def)
  qed (simp add: session_turn_def end_session_def Let_def run returns_def)
qed

text \<open>
  C6: in every reachable state, a turn of a session ends it exactly when the event is \<open>Close\<close> or a
  DISCONNECT frame, which is meant to, or one of the frames it panics on: ABORT, ACK, BEGIN, COMMIT,
  NACK, a SEND without a body, and an UNSUBSCRIBE for a destination whose task is gone. No
  message, no heartbeat, no unreadable frame and no confirmation of a destination ends it. (What
  else ends a session is its sink, when it refuses.)
\<close>

theorem session_dies_iff:
  assumes "reachable b" "sessions b i = Some s"
  shows "sessions (session_turn i s e b) i = None \<longleftrightarrow>
    e = EvClose \<or> e = EvClientFrame (Inr Disconnect) \<or>
    (\<exists>f. e = EvClientFrame (Inr f) \<and>
      (f \<in> {Abort, Ack, Begin, Commit, Nack} \<or> (\<exists>g. f = Send g \<and> send_body g = None) \<or>
       (\<exists>g d u h. f = Unsubscribe g \<and>
         map_of (active_subscriptions_by_client_id s) (SubscriptionId (unsubscribe_id g)) = Some (d, u) \<and>
         rt_registry (net b) d = Some h \<and> rt_backends (net b) (imd_sender h) = None)))"
proof -
  have up: "mb_open (rt_commands (net b)) (resetter_sender (server_heartbeat_resetter s))"
    and task: "mb_open (rt_actions (net b)) t \<longleftrightarrow> rt_backends (net b) t \<noteq> None" for t
    using reachable_alive_ok [OF assms(1)] assms(2) by (auto simp: alive_ok_def timers_up_def)
  have received: "rt_registry (snd (client_message_received rt_env s w)) = rt_registry w"
    "rt_actions (snd (client_message_received rt_env s w)) = rt_actions w" for w
    by (simp_all add: client_message_received_def resetter_reset_def bind_io_def rt_command_send_def fifo_send_def)
  have ev: "event_sender (env_event_send rt_env) (\<lambda>t w. mb_open (rt_events w) t) (\<lambda>t w. mb_queue (rt_events w) t)"
    by (simp add: rt_event.event_sender_axioms)
  have cx: "unbounded_sender (env_command_send rt_env) (\<lambda>t w. mb_open (rt_commands w) t)
      (\<lambda>t w. mb_queue (rt_commands w) t)"
    by (simp add: rt_command.unbounded_sender_axioms)
  have ds: "destinations_return (env_destinations rt_env) (destinations s)"
    by (simp add: rt_destinations_return)
  have "crashing True e \<longleftrightarrow> (\<exists>f. e = EvClientFrame (Inr f) \<and>
      (f \<in> {Abort, Ack, Begin, Commit, Nack} \<or> (\<exists>g. f = Send g \<and> send_body g = None)))"
    by (cases "(True, e)" rule: crashing.cases) (auto elim: crashing_frame.elims)
  with handle_event_returns [OF ev cx ds, of e "net b"] show ?thesis
    unfolding session_turn_ends
    by (auto simp: up received returns_rt_unsubscribe task ends_session_def)
qed

theorem session_dies_iff_witness:
  "\<exists>b s. reachable b \<and> sessions b 0 = Some s \<and>
     sessions (session_turn 0 s (EvClientFrame (Inr Ack)) b) 0 = None \<and>
     sessions (session_turn 0 s (EvClientFrame (Inl (StomperError_new ''bad''))) b) 0 \<noteq> None"
proof -
  obtain b s where "reachable b" "sessions b 0 = Some s" by (rule demo_session_run)
  note run = this
  from session_dies_iff [OF run, of "EvClientFrame (Inr Ack)"]
    session_dies_iff [OF run, of "EvClientFrame (Inl (StomperError_new ''bad''))"] run
  show ?thesis by auto
qed

text \<open>
  C16: the next message to a destination clears away what dead sessions have left there: after a
  turn that handles a SEND, the destination goes on with exactly the subscriptions whose
  sessions still run, in their order.
\<close>

theorem dead_sessions_pruned:
  assumes "reachable b" "rt_backends (net b) t = Some bk"
    and "mb_queue (rt_actions (net b)) t = ActSend m cb # rest" "hash_order iter"
  shows "rt_backends (backend_turn iter t u bk (ActSend m cb) (net b)) t =
    Some (bk\<lparr>subscriptions :=
      filter (\<lambda>(k, s). sessions b (client_sender (subscriber_of s)) \<noteq> None) (subscriptions bk)\<rparr>)"
proof -
  have bk: "backend_wf bk" "client_ids bk"
    using reachable_ok [OF assms(1)] assms(2) unfolding broker_ok_def net_ok_def
    by (fastforce simp: backend_ok_def client_ids_def)+
  have open_iff: "mb_open (rt_events (net b)) i \<longleftrightarrow> sessions b i \<noteq> None" for i
    using reachable_alive_ok [OF assms(1)] by (simp add: alive_ok_def)
  let ?w = "(net b)\<lparr>rt_actions := mb_take t (rt_actions (net b))\<rparr>"
  obtain w' where "backend_send rt_subscriber async_sender iter u bk m cb ?w =
      (Ret (bk\<lparr>subscriptions := filter (\<lambda>(k, s). mb_open (rt_events ?w) (client_sender (subscriber_of s)))
         (subscriptions bk)\<rparr>), w')"
    by (rule messaging_contract.backend_send_spec [OF rt_contract bk assms(4)]) (rule that)
  then show ?thesis by (simp add: backend_turn_def bind_io_def open_iff)
qed

theorem dead_sessions_pruned_witness:
  "\<exists>b bk. reachable b \<and> sessions b 0 = None \<and> rt_backends (net b) 6 = Some bk \<and> subscriptions bk \<noteq> [] \<and>
     rt_backends (backend_turn id 6 ''m'' bk
       (ActSend \<lparr>sender_message_id = None, in_body = [104, 105]\<rparr> (SendCallback \<lparr>client_sender = 3\<rparr>)) (net b)) 6 =
       Some (bk\<lparr>subscriptions := []\<rparr>)"
proof -
  let ?a = "ActSend \<lparr>sender_message_id = None, in_body = [104, 105]\<rparr> (SendCallback \<lparr>client_sender = 3\<rparr>) :: action"
  have "\<exists>b bk. exec_all [TConnect no_heartbeats, TConnect no_heartbeats, TClient 0 (subscribe_frame ''d'' ''c''),
        TTask, TBackend 6 ''u'', TServer 0, TClient 0 (EvClientFrame (Inr Disconnect)),
        TClient 3 (send_frame ''d'' [104, 105])] broker_start = Some b \<and>
      sessions b 0 = None \<and> rt_backends (net b) 6 = Some bk \<and> mb_queue (rt_actions (net b)) 6 = [?a] \<and>
      subscriptions bk \<noteq> [] \<and> (\<forall>(k, s) \<in> set (subscriptions bk). client_sender (subscriber_of s) = 0)"
    by (simp add: run_defs subscriber_of_def)
  then obtain b bk where b: "exec_all [TConnect no_heartbeats, TConnect no_heartbeats,
        TClient 0 (subscribe_frame ''d'' ''c''), TTask, TBackend 6 ''u'', TServer 0,
        TClient 0 (EvClientFrame (Inr Disconnect)), TClient 3 (send_frame ''d'' [104, 105])] broker_start = Some b"
      "sessions b 0 = None" "rt_backends (net b) 6 = Some bk" "mb_queue (rt_actions (net b)) 6 = [?a]"
      "subscriptions bk \<noteq> []" "\<forall>(k, s) \<in> set (subscriptions bk). client_sender (subscriber_of s) = 0"
    by blast
  have r: "reachable b" using b(1) reachable.start by (rule exec_all_reachable)
  have "filter (\<lambda>(k, s). sessions b (client_sender (subscriber_of s)) \<noteq> None) (subscriptions bk) = []"
    using b(2,6) by (auto simp: filter_empty_conv)
  with dead_sessions_pruned [OF r b(3,4) hash_order_id(1), of "''m''"] r b(2,3,5) show ?thesis by auto
qed

end
