(* ===== verification/Broker_Order.thy ===== *)
theory Broker_Order
  imports Broker_Life
begin

text \<open>
  The order of messages through the whole server: a client hears what is said to a destination in
  the order in which it is said, and nothing of it more often than it has subscribed there.
\<close>

section \<open>Selections of a list\<close>

text \<open>
  \<open>heard\<close> is a selection of \<open>source\<close> that keeps the order and repeats no element more than \<open>n\<close>
  times; the elements of \<open>waiting\<close> come after it, each once.
\<close>

definition selects :: "nat \<Rightarrow> nat \<Rightarrow> nat list \<Rightarrow> nat list \<Rightarrow> bool" where
  "selects n len ks qs \<longleftrightarrow> sorted ks \<and> sorted_wrt (<) qs \<and> (\<forall>k \<in> set ks. \<forall>q \<in> set qs. k < q) \<and>
     (\<forall>k \<in> set ks \<union> set qs. k < len) \<and> (\<forall>k. count_list ks k \<le> n)"

definition in_order :: "nat \<Rightarrow> 'a list \<Rightarrow> 'a list \<Rightarrow> 'a list \<Rightarrow> bool" where
  "in_order n source heard waiting \<longleftrightarrow>
     (\<exists>ks qs. heard = map ((!) source) ks \<and> waiting = map ((!) source) qs \<and> selects n (length source) ks qs)"

lemma count_list_replicate: "count_list (replicate m l) k = (if k = l then m else 0)"
  by (induction m) auto

lemma selects_mono: "selects n len ks qs \<Longrightarrow> n \<le> m \<Longrightarrow> len \<le> len' \<Longrightarrow> selects m len' ks qs"
  unfolding selects_def by (meson order_trans less_le_trans)

lemma selects_say: "selects n len ks qs \<Longrightarrow> selects n (Suc len) ks (qs @ [len])"
  unfolding selects_def by (auto simp: sorted_wrt_append intro: less_SucI)

lemma selects_deliver:
  assumes "selects n len ks (l # qs)" "m \<le> n"
  shows "selects n len (ks @ replicate m l) qs"
proof -
  have below: "k < l" if "k \<in> set ks" for k
    using assms(1) that by (simp add: selects_def)
  then have "count_list ks l = 0" by (auto simp: count_list_0_iff)
  then have "count_list (ks @ replicate m l) k \<le> n" for k
    using assms by (auto simp: selects_def count_list_replicate)
  moreover have "sorted (ks @ replicate m l)"
    using assms(1) below by (auto simp: selects_def sorted_append intro: less_imp_le)
  ultimately show ?thesis
    using assms(1) unfolding selects_def by auto
qed

lemma selects_take: "selects n len ks qs \<Longrightarrow> selects n len (take j ks) qs"
proof -
  assume s: "selects n len ks qs"
  have "count_list (take j ks) k \<le> n" for k
  proof -
    have "count_list (take j ks) k + count_list (drop j ks) k = count_list ks k"
      by (metis append_take_drop_id count_list_append)
    then show ?thesis using s unfolding selects_def by (metis add_leE)
  qed
  with s show ?thesis
    unfolding selects_def by (auto intro: sorted_wrt_take dest!: in_set_takeD)
qed

lemma selects_forget: "selects n len ks qs \<Longrightarrow> selects n len ks []"
  by (simp add: selects_def)

lemma in_order_Nil [simp]: "in_order n [] [] []"
  by (simp add: in_order_def selects_def)

lemma in_order_mono: "in_order n source heard waiting \<Longrightarrow> n \<le> m \<Longrightarrow> in_order m source heard waiting"
  unfolding in_order_def using selects_mono by blast

lemma map_nth_append:
  assumes "selects n (length source) ks qs"
  shows "map ((!) (source @ new)) ks = map ((!) source) ks" "map ((!) (source @ new)) qs = map ((!) source) qs"
  using assms by (simp_all add: selects_def nth_append)

lemma in_order_say:
  assumes "in_order n source heard waiting"
  shows "in_order n (source @ [x]) heard (waiting @ [x])" "in_order n (source @ [x]) heard waiting"
proof -
  obtain ks qs where o: "heard = map ((!) source) ks" "waiting = map ((!) source) qs"
    "selects n (length source) ks qs"
    using assms unfolding in_order_def by blast
  have "selects n (length (source @ [x])) ks (qs @ [length source])"
    using selects_say [OF o(3)] by simp
  moreover have "waiting @ [x] = map ((!) (source @ [x])) (qs @ [length source])"
    by (simp add: o(2) map_nth_append [OF o(3)])
  ultimately show "in_order n (source @ [x]) heard (waiting @ [x])"
    unfolding in_order_def using o(1) map_nth_append(1) [OF o(3), of "[x]"] by metis
  have "selects n (length (source @ [x])) ks qs"
    by (rule selects_mono [OF o(3)]) simp_all
  then show "in_order n (source @ [x]) heard waiting"
    unfolding in_order_def using o(1,2) map_nth_append [OF o(3), of "[x]"] by metis
qed

lemma in_order_deliver:
  assumes "in_order n source heard (q # waiting)" "m \<le> n"
  shows "in_order n source (heard @ replicate m q) waiting"
proof -
  obtain ks qs where o: "heard = map ((!) source) ks" "q # waiting = map ((!) source) qs"
    "selects n (length source) ks qs"
    using assms(1) unfolding in_order_def by metis
  then obtain l qs' where qs: "qs = l # qs'" "q = source ! l" "waiting = map ((!) source) qs'"
    by (cases qs) auto
  have "selects n (length source) (ks @ replicate m l) qs'"
    using o(3) assms(2) unfolding qs(1) by (rule selects_deliver)
  moreover have "heard @ replicate m q = map ((!) source) (ks @ replicate m l)"
    by (simp add: o(1) qs(2))
  ultimately show ?thesis unfolding in_order_def using qs(3) by blast
qed

text \<open>What is waiting may be lost, and so may the end of what has been heard.\<close>

lemma in_order_lose:
  assumes "in_order n source (heard @ heard') waiting"
  shows "in_order n source heard waiting"
proof -
  obtain ks qs where o: "heard @ heard' = map ((!) source) ks" "waiting = map ((!) source) qs"
    "selects n (length source) ks qs"
    using assms unfolding in_order_def by blast
  have "heard = map ((!) source) (take (length heard) ks)"
    using arg_cong [OF o(1), of "take (length heard)"] by (simp add: take_map)
  with o(2) selects_take [OF o(3)] show ?thesis unfolding in_order_def by blast
qed

lemma in_order_forget: "in_order n source heard waiting \<Longrightarrow> in_order n source heard []"
  unfolding in_order_def using selects_forget by fastforce


section \<open>What is on its way\<close>

text \<open>
  The bodies of a destination's messages that a client has got and that are in its session's
  queue, and those of the SENDs in the destination's queue. \<open>claims\<close> are the subscriptions of a
  client there: in force, in the queue, and those that a task has yet to make.
\<close>

fun frame_for :: "DestinationId \<Rightarrow> ServerMessage \<Rightarrow> bytes option" where
  "frame_for d (Inl (MessageF f)) = (if DestinationId (frame_destination f) = d then Some (frame_body f) else None)"
| "frame_for d _ = None"

fun event_for :: "DestinationId \<Rightarrow> ClientEvent \<Rightarrow> bytes option" where
  "event_for d (EvServerMessage c m) = (if out_destination m = d then Some (out_body m) else None)"
| "event_for d _ = None"

definition news :: "DestinationId \<Rightarrow> ClientEvent \<Rightarrow> bytes list" where
  "news d e = (case event_for d e of Some body \<Rightarrow> [body] | None \<Rightarrow> [])"

fun sent_body :: "action \<Rightarrow> bytes option" where
  "sent_body (ActSend m cb) = Some (in_body m)"
| "sent_body _ = None"

fun wants :: "nat \<Rightarrow> action \<Rightarrow> bool" where
  "wants i (ActSubscribe c cb (SendFn q)) \<longleftrightarrow> client_sender q = i"
| "wants i _ \<longleftrightarrow> False"

definition got :: "broker \<Rightarrow> nat \<Rightarrow> DestinationId \<Rightarrow> bytes list" where
  "got b i d = List.map_filter (frame_for d) (outbox b i)"

definition coming :: "runtime \<Rightarrow> nat \<Rightarrow> DestinationId \<Rightarrow> bytes list" where
  "coming w i d = List.map_filter (event_for d) (mb_queue (rt_events w) i)"

definition posted :: "runtime \<Rightarrow> DestinationId \<Rightarrow> bytes list" where
  "posted w d = (case rt_registry w d of
      Some h \<Rightarrow> List.map_filter sent_body (mb_queue (rt_actions w) (imd_sender h))
    | None \<Rightarrow> [])"

fun subs_in :: "nat \<Rightarrow> (SubscriptionId, pointer Subscription) hash_map \<Rightarrow> nat" where
  "subs_in i [] = 0"
| "subs_in i ((k, s) # m) = (if client_sender (subscriber_of s) = i then 1 else 0) + subs_in i m"

definition subs_of :: "nat \<Rightarrow> backend \<Rightarrow> nat" where
  "subs_of i bk = subs_in i (subscriptions bk)"

definition for_task :: "nat \<Rightarrow> DestinationId \<Rightarrow> (pointer, DefaultClient) SubscribeTask \<Rightarrow> bool" where
  "for_task i d task \<longleftrightarrow> task_destination task = d \<and> client_sender (task_subscriber task) = i"

definition claims_at :: "runtime \<Rightarrow> nat \<Rightarrow> nat \<Rightarrow> nat" where
  "claims_at w t i = length (filter (wants i) (mb_queue (rt_actions w) t)) +
     (case rt_backends w t of Some bk \<Rightarrow> subs_of i bk | None \<Rightarrow> 0)"

definition claims :: "runtime \<Rightarrow> nat \<Rightarrow> DestinationId \<Rightarrow> nat" where
  "claims w i d = length (filter (for_task i d) (rt_spawned w)) +
     (case rt_registry w d of Some h \<Rightarrow> claims_at w (imd_sender h) i | None \<Rightarrow> 0)"

definition order_ok :: "broker \<Rightarrow> bool" where
  "order_ok b \<longleftrightarrow> (\<forall>i d. claims (net b) i d \<le> requests b i d \<and>
     in_order (requests b i d) (map snd (said b d)) (got b i d @ coming (net b) i d) (posted (net b) d))"

lemma coming_frame [simp]:
  "coming (rt_actions_update fa w) = coming w" "coming (rt_commands_update fc w) = coming w"
  "coming (rt_registry_update fr w) = coming w" "coming (rt_spawned_update fs w) = coming w"
  "coming (rt_backends_update fb w) = coming w" "coming (rt_listeners_update fl w) = coming w"
  "coming (rt_next_update fn w) = coming w"
  by (simp_all add: coming_def fun_eq_iff)

lemma posted_frame [simp]:
  "posted (rt_events_update fe w) = posted w" "posted (rt_commands_update fc w) = posted w"
  "posted (rt_spawned_update fs w) = posted w" "posted (rt_backends_update fb w) = posted w"
  "posted (rt_listeners_update fl w) = posted w" "posted (rt_next_update fn w) = posted w"
  by (simp_all add: posted_def fun_eq_iff cong: option.case_cong)

lemma claims_frame [simp]:
  "claims (rt_events_update fe w) = claims w" "claims (rt_commands_update fc w) = claims w"
  "claims (rt_listeners_update fl w) = claims w" "claims (rt_next_update fn w) = claims w"
  by (simp_all add: claims_def claims_at_def fun_eq_iff cong: option.case_cong)

text \<open>Posting an event and an action.\<close>

lemma coming_event_send:
  "coming (snd (rt_event_send t e w)) i d =
     coming w i d @ (if i = t \<and> mb_open (rt_events w) t then List.map_filter (event_for d) [e] else [])"
  by (simp add: coming_def rt_event_send_def fifo_send_def)

lemma posted_action_send:
  "posted (snd (rt_action_send t a w)) d = posted w d @
     (if (\<exists>h. rt_registry w d = Some h \<and> imd_sender h = t) \<and> mb_open (rt_actions w) t
      then List.map_filter sent_body [a] else [])"
  by (auto simp: posted_def rt_action_send_def fifo_send_def split: option.split)

lemma claims_action_send:
  "claims (snd (rt_action_send t a w)) i d \<le> claims w i d +
     (if (\<exists>h. rt_registry w d = Some h \<and> imd_sender h = t) \<and> wants i a then 1 else 0)"
  by (auto simp: claims_def claims_at_def rt_action_send_def fifo_send_def split: option.split)

lemma silent_event:
  assumes "\<And>d. event_for d e = None"
  shows "preserves (\<lambda>w. coming w = x) (rt_event_send t e)"
  using assms by (simp add: preserves_def coming_event_send fun_eq_iff List.map_filter_def)

lemma map_filter_Nil_iff: "List.map_filter f [x] = [] \<longleftrightarrow> f x = None"
  by (simp add: List.map_filter_def)


section \<open>A session's turn\<close>

lemma rt_send_frame [simp]:
  "posted (snd (rt_event_send t e w)) = posted w" "claims (snd (rt_event_send t e w)) = claims w"
  "coming (snd (rt_action_send t a w)) = coming w" "coming (snd (rt_command_send t c w)) = coming w"
  "posted (snd (rt_command_send t c w)) = posted w" "claims (snd (rt_command_send t c w)) = claims w"
  "coming (snd (rt_spawn task w)) = coming w" "posted (snd (rt_spawn task w)) = posted w"
  by (simp_all add: rt_send_defs fifo_send_def rt_spawn_def)

lemma coming_handle_event: "preserves (\<lambda>w. coming w = x) (handle_event rt_env s e)"
  by (rule preserves_handle_event_by_kind) (simp_all add: silent_event, simp_all add: preserves_def)

lemma posted_handle_event:
  assumes "\<And>g body. e = EvClientFrame (Inr (Send g)) \<Longrightarrow> send_body g = None"
  shows "preserves (\<lambda>w. posted w = x) (handle_event rt_env s e)"
  by (rule preserves_handle_event_by_kind)
    (use assms in \<open>simp_all add: preserves_def fun_eq_iff posted_action_send map_filter_Nil_iff\<close>)

lemma claims_handle_event:
  assumes "\<And>g. e \<noteq> EvClientFrame (Inr (Subscribe g))"
  shows "preserves (\<lambda>w. claims w i d \<le> n) (handle_event rt_env s e)"
proof -
  have post: "preserves (\<lambda>w. claims w i d \<le> n) (rt_action_send t a)" if "\<not> wants i a" for t a
    using claims_action_send [of t a _ i d] that unfolding preserves_def by (fastforce intro: order_trans)
  show ?thesis
    by (rule preserves_handle_event_by_kind) (use assms in \<open>simp_all add: post\<close>, simp_all add: preserves_def)
qed

lemma received_world:
  "client_message_received rt_env s w = (Ret (), snd (rt_command_send (resetter_sender (client_heartbeat_resetter s)) Reset w))"
  by (simp add: client_message_received_def resetter_reset_def bind_io_def rt_command_send_def fifo_send_def)

lemma handle_event_subscribe:
  "snd (handle_event rt_env s (EvClientFrame (Inr (Subscribe g))) w) =
     snd (rt_spawn \<lparr>task_destination = DestinationId (subscribe_destination g),
         task_subscriber_sub_id = Some (SubscriptionId (subscribe_id g)),
         task_subscriber = client_proxy s, task_client = session_client s\<rparr>
       (snd (client_message_received rt_env s w)))"
  by (simp add: handle_event_def client_frame_def handle_def then_io_def bind_io_def received_world
      ad_subscribe_def rt_spawn_def)

lemma handle_event_send:
  assumes "send_body g = Some body"
  shows "snd (handle_event rt_env s (EvClientFrame (Inr (Send g))) w) =
    (let w1 = snd (client_message_received rt_env s w) in
     case rt_registry w (DestinationId (send_destination g)) of
       None \<Rightarrow> w1
     | Some h \<Rightarrow> snd (rt_action_send (imd_sender h)
         (ActSend \<lparr>sender_message_id = None, in_body = body\<rparr> (SendCallback (client_proxy s))) w1))"
  using assms
  by (auto simp: handle_event_def client_frame_def handle_def then_io_def bind_io_def received_world Let_def
      ad_send_def rt_map_def rt_destination_def in_mem_destination_def imd_send_def perform_action_def
      rt_action_send_def rt_command_send_def fifo_send_def to_send_callback_def async_sender_def split: option.split)

text \<open>What the outcome of an event tells the client of a destination.\<close>

lemma result_output_for:
  assumes "handle_event rt_env s e w = (Ret (r, s'), w')"
  shows "List.map_filter (frame_for d) (result_output r) = news d e"
proof (cases e)
  case (EvClientFrame x)
  with assms show ?thesis
    by (auto simp: handler_defs result_output_def then_io_def bind_io_eq_Ret_iff List.map_filter_def news_def
        split: sum.splits ClientFrame.splits option.splits)
next
  case (EvServerMessage c m)
  obtain i where "out_destination m = DestinationId i" by (cases "out_destination m")
  with EvServerMessage assms show ?thesis
    by (auto simp: handler_defs Let_def result_output_def then_io_def bind_io_eq_Ret_iff List.map_filter_def news_def
        split: sum.splits)
qed (use assms in \<open>auto simp: handler_defs Let_def result_output_def then_io_def
      bind_io_eq_Ret_iff List.map_filter_def news_def split: sum.splits\<close>)


definition order_at :: "runtime \<Rightarrow> broker \<Rightarrow> (nat \<Rightarrow> DestinationId \<Rightarrow> bytes list) \<Rightarrow> nat \<Rightarrow> DestinationId \<Rightarrow> bool" where
  "order_at w b heard i d \<longleftrightarrow> claims w i d \<le> requests b i d \<and>
     in_order (requests b i d) (map snd (said b d)) (heard i d @ coming w i d) (posted w d)"

lemma order_ok_iff: "order_ok b \<longleftrightarrow> (\<forall>i d. order_at (net b) b (got b) i d)"
  by (simp add: order_ok_def order_at_def)

lemma session_turn_order:
  assumes net: "net_ok A P (net b)" and proxy: "client_proxy s = \<lparr>client_sender = i\<rparr>"
    and old: "order_at (net b) b heard j d"
  shows "order_at (snd (handle_event rt_env s e (net b))) (note_frames i e b) heard j d"
proof -
  let ?w = "snd (handle_event rt_env s e (net b))"
  have coming: "coming ?w = coming (net b)"
    by (rule preserves_snd [OF coming_handle_event]) simp
  consider (send) g body where "e = EvClientFrame (Inr (Send g))" "send_body g = Some body"
    | (subscribe) g where "e = EvClientFrame (Inr (Subscribe g))"
    | (other) "\<forall>g. e = EvClientFrame (Inr (Send g)) \<longrightarrow> send_body g = None"
      "\<forall>g. e \<noteq> EvClientFrame (Inr (Subscribe g))"
    by (metis option.exhaust)
  then show ?thesis
  proof cases
    case send
    let ?d = "DestinationId (send_destination g)"
    have claims: "claims ?w j d \<le> requests b j d"
      by (rule preserves_snd [OF claims_handle_event]) (use send old in \<open>simp_all add: order_at_def\<close>)
    have other: "posted ?w d = posted (net b) d" if "d \<noteq> ?d"
    proof -
      have "imd_sender h' \<noteq> imd_sender h" if "rt_registry (net b) ?d = Some h" "rt_registry (net b) d = Some h'" for h h'
        using net that \<open>d \<noteq> ?d\<close> unfolding net_ok_def by metis
      then show ?thesis
        unfolding send(1) handle_event_send [OF send(2)] received_world
        by (auto simp: Let_def posted_action_send rt_command_send_def fifo_send_def split: option.split)
    qed
    have "posted ?w d = posted (net b) d \<or> posted ?w d = posted (net b) d @ [body]"
      unfolding send(1) handle_event_send [OF send(2)] received_world
      by (auto simp: Let_def posted_action_send List.map_filter_def split: option.split)
    moreover have "says i e d = (if d = ?d then [(i, body)] else [])" "requesting i e j d = 0"
      by (simp_all add: send)
    ultimately show ?thesis
      using old claims other in_order_say [of "requests b j d" "map snd (said b d)"
          "heard j d @ coming (net b) j d" "posted (net b) d" body]
      by (cases "d = ?d") (auto simp: order_at_def coming)
  next
    case subscribe
    have posted: "posted ?w = posted (net b)"
      by (rule preserves_snd [OF posted_handle_event]) (use subscribe in simp_all)
    have "claims ?w j d \<le> claims (net b) j d + requesting i e j d"
      unfolding subscribe handle_event_subscribe received_world
      by (auto simp: claims_def claims_at_def rt_spawn_def rt_command_send_def fifo_send_def for_task_def proxy
          split: option.split)
    moreover have "in_order (requests b j d + requesting i e j d) (map snd (said b d)) (heard j d @ coming (net b) j d) (posted (net b) d)"
      by (rule in_order_mono [of "requests b j d"]) (use old in \<open>simp_all add: order_at_def\<close>)
    moreover have "says i e d = []" by (simp add: subscribe)
    ultimately show ?thesis
      using old by (simp add: order_at_def coming posted)
  next
    case other
    have "posted ?w = posted (net b)"
      by (rule preserves_snd [OF posted_handle_event]) (use other in simp_all)
    moreover have "claims ?w j d \<le> requests b j d"
      by (rule preserves_snd [OF claims_handle_event]) (use other(2) old in \<open>simp_all add: order_at_def\<close>)
    moreover have "says i e d = []" "requesting i e j d = 0"
      using other by (cases "(i, e, d)" rule: says.cases; simp)
        (use other in \<open>cases "(i, e, j, d)" rule: requesting.cases; simp\<close>)
    ultimately show ?thesis
      using old by (simp add: order_at_def coming)
  qed
qed

lemma coming_close: "coming (w\<lparr>rt_events := mb_close i (rt_events w)\<rparr>) j d = (if j = i then [] else coming w j d)"
  by (simp add: coming_def List.map_filter_def)

lemma order_at_end:
  assumes "order_at w b heard j d"
  shows "order_at (w\<lparr>rt_events := mb_close i (rt_events w)\<rparr>) b heard j d"
  using assms in_order_lose [where heard' = "coming w j d"] by (auto simp: order_at_def coming_close)

lemma order_ok_session_turn:
  assumes net: "net_ok A P (net b)" and proxy: "client_proxy s = \<lparr>client_sender = i\<rparr>"
    and old: "\<And>j d. order_at (net b) b
      (\<lambda>j d. got b j d @ (if j = i then news d e else [])) j d"
  shows "order_ok (session_turn i s e b)"
proof -
  let ?b = "note_frames i e b"
  obtain out w' where run: "handle_event rt_env s e (net b) = (out, w')"
    by (cases "handle_event rt_env s e (net b)")
  have new: "order_at w' ?b (\<lambda>j d. got b j d @ (if j = i then news d e else [])) j d" for j d
    using session_turn_order [OF net proxy old, of e j d] run by simp
  have ended: "order_ok (end_session i (?b\<lparr>net := w'\<rparr>))"
    unfolding order_ok_iff
  proof (intro allI)
    fix j d
    have "order_at (w'\<lparr>rt_events := mb_close i (rt_events w')\<rparr>) ?b
        (\<lambda>j d. got b j d @ (if j = i then news d e else [])) j d"
      using new by (rule order_at_end)
    then show "order_at (net (end_session i (?b\<lparr>net := w'\<rparr>))) (end_session i (?b\<lparr>net := w'\<rparr>))
        (got (end_session i (?b\<lparr>net := w'\<rparr>))) j d"
      using in_order_lose [where heard' = "news d e" and heard = "got b j d"]
      by (auto simp: order_at_def end_session_def got_def coming_close split: if_splits)
  qed
  show ?thesis
  proof (cases out)
    case (Panic msg)
    with ended run show ?thesis by (simp add: session_turn_def Let_def)
  next
    case (Ret rs)
    obtain r s' where rs: "rs = (r, s')" by (cases rs)
    let ?b' = "?b\<lparr>net := w', sessions := (sessions b)(i \<mapsto> s'),
        outbox := (outbox b)(i := outbox b i @ result_output r)\<rparr>"
    have shown: "List.map_filter (frame_for d) (result_output r) = news d e" for d
      using result_output_for [of s e "net b" r s' w'] run Ret rs by simp
    have "order_at (net ?b') ?b' (got ?b') j d" for j d
      using new [of j d] shown by (cases "j = i") (simp_all add: order_at_def got_def)
    then have "order_ok ?b'" by (simp add: order_ok_iff)
    with ended run Ret rs show ?thesis by (simp add: session_turn_def Let_def)
  qed
qed


section \<open>A destination's turn\<close>

text \<open>What an action does to the subscriptions of a client.\<close>

lemma subs_in_update:
  "subs_in i (AList.update k s m) \<le> subs_in i m + (if client_sender (subscriber_of s) = i then 1 else 0)"
  by (induction m) auto

lemma subs_in_filter: "subs_in i (filter Q m) \<le> subs_in i m"
  by (induction m) auto

lemma subs_in_eq: "subs_in i m = size (filter_mset (\<lambda>s. subscriber_of s = \<lparr>client_sender = i\<rparr>) (mset (map snd m)))"
proof -
  have "subscriber_of s = \<lparr>client_sender = i\<rparr> \<longleftrightarrow> client_sender (subscriber_of s) = i" for s :: "pointer Subscription"
    by (cases "subscriber_of s") simp
  then show ?thesis by (induction i m rule: subs_in.induct) simp_all
qed

lemma handle_action_subs:
  assumes "handle_action rt_subscriber async_sender iter u bk a w = (Ret (Continue bk'), w')"
  shows "subs_of i bk' \<le> subs_of i bk + (if wants i a then 1 else 0)"
proof (cases a)
  case (ActSubscribe c cb fn)
  obtain q where q: "fn = SendFn q" by (cases fn)
  have "bk' = bk\<lparr>subscriptions := AList.update (SubscriptionId u)
      \<lparr>subscription_id = SubscriptionId u, subscriber_sub_id = c, send_fn = fn\<rparr> (subscriptions bk)\<rparr>"
    using assms ActSubscribe by (auto simp: bind_io_eq_Ret_iff dest!: add_subscription_state)
  then show ?thesis
    using subs_in_update [of i "SubscriptionId u"
        "\<lparr>subscription_id = SubscriptionId u, subscriber_sub_id = c, send_fn = fn\<rparr>" "subscriptions bk"]
    by (simp add: subs_of_def ActSubscribe q subscriber_of_def)
next
  case (ActUnsubscribe j cb)
  with assms show ?thesis
    by (auto simp: bind_io_eq_Ret_iff delete_eq_filter subs_of_def subs_in_filter dest!: remove_subscription_state)
next
  case (ActSend m cb)
  with assms show ?thesis
    by (auto simp: bind_io_eq_Ret_iff remove_keys_eq_filter subs_of_def subs_in_filter elim!: backend_send_state)
qed (use assms in simp)

text \<open>What it sends to a client's session.\<close>

fun note_for :: "DestinationId \<Rightarrow> notice \<Rightarrow> bytes option" where
  "note_for d (Notice_Message c m) = (if out_destination m = d then Some (out_body m) else None)"
| "note_for d _ = None"

lemma note_for_event: "Option.bind (notice_of_event e) (note_for d) = event_for d e"
  by (cases e) simp_all

lemma coming_notices:
  "coming w i d = List.map_filter (note_for d) (List.map_filter notice_of_event (mb_queue (rt_events w) i))"
proof -
  have "List.map_filter (event_for d) es = List.map_filter (note_for d) (List.map_filter notice_of_event es)" for es
  proof (induction es)
    case (Cons e es)
    then show ?case
      using note_for_event [of e d] by (cases "notice_of_event e") (auto simp: map_filter_Cons split: option.split)
  qed (simp add: List.map_filter_def)
  then show ?thesis by (simp add: coming_def)
qed

lemma delivered_bodies:
  "List.map_filter (note_for d) (delivered m q ss) =
     (if out_destination m = d then replicate (length (filter (\<lambda>s. subscriber_of s = q) ss)) (out_body m) else [])"
proof (induction ss)
  case (Cons s ss)
  then show ?case by (simp add: map_filter_Cons)
qed (simp add: List.map_filter_def)

lemma subs_of_iter:
  assumes "hash_order iter"
  shows "length (filter (\<lambda>s. subscriber_of s = \<lparr>client_sender = i\<rparr>) (map snd (iter (subscriptions bk)))) = subs_of i bk"
proof -
  have "mset (map snd (iter (subscriptions bk))) = mset (map snd (subscriptions bk))"
    using hash_order_mset [OF assms] by simp
  then show ?thesis
    unfolding subs_of_def subs_in_eq by (metis mset_filter size_mset)
qed

lemma handle_action_coming:
  assumes "backend_wf bk" "client_ids bk" "hash_order iter"
    and "handle_action rt_subscriber async_sender iter u bk a w = (out, w')"
  shows "\<exists>n \<le> subs_of i bk. coming w' i d = coming w i d @
    (if d = backend_id bk then (case sent_body a of Some body \<Rightarrow> replicate n body | None \<Rightarrow> []) else [])"
proof (cases a)
  case (ActSend m cb)
  let ?q = "\<lparr>client_sender = i\<rparr>"
  obtain bk' w2 where "backend_send rt_subscriber async_sender iter u bk m cb w = (Ret bk', w2)"
    and inbox: "\<And>q :: pointer. List.map_filter notice_of_event (mb_queue (rt_events w2) (client_sender q)) =
      List.map_filter notice_of_event (mb_queue (rt_events w) (client_sender q)) @
       (if mb_open (rt_events w) (client_sender q)
        then delivered \<lparr>out_destination = backend_id bk, out_message_id = MessageId u, out_body = in_body m\<rparr> q
          (map snd (iter (subscriptions bk))) else [])"
    by (rule messaging_contract.backend_send_spec [OF rt_contract assms(1-3), of u m cb w]) (rule that)
  then have "w2 = w'" using assms(4) ActSend by (simp add: bind_io_def)
  with inbox [of ?q] have "coming w' i d = coming w i d @ (if mb_open (rt_events w) i \<and> backend_id bk = d
      then replicate (subs_of i bk) (in_body m) else [])"
    by (simp add: coming_notices delivered_bodies subs_of_iter [OF assms(3), simplified])
  then show ?thesis
    by (intro exI [of _ "if mb_open (rt_events w) i then subs_of i bk else 0"]) (auto simp: ActSend)
next
  case (ActSubscribe c cb fn)
  have "preserves (\<lambda>w. coming w = x) (call_subscribe_callback rt_subscriber cb d c r)" for x d c r
    by (rule preserves_callbacks_by_kind) (simp add: silent_event)
  then have "preserves (\<lambda>v. coming v = coming w) (handle_action rt_subscriber async_sender iter u bk a)"
    by (auto simp: ActSubscribe add_subscription_def Let_def update_conv' intro!: preserves_intros)
  with assms(4) have "coming w' = coming w" by (auto simp: preserves_def dest!: spec [of _ w])
  then show ?thesis by (auto simp: ActSubscribe)
next
  case (ActUnsubscribe j cb)
  have "preserves (\<lambda>w. coming w = x) (call_unsubscribe_callback rt_subscriber cb c r)" for x c r
    by (rule preserves_callbacks_by_kind) (simp add: silent_event)
  then have "preserves (\<lambda>v. coming v = coming w) (handle_action rt_subscriber async_sender iter u bk a)"
    by (auto simp: ActUnsubscribe remove_subscription_def Let_def intro!: preserves_intros)
  with assms(4) have "coming w' = coming w" by (auto simp: preserves_def dest!: spec [of _ w])
  then show ?thesis by (auto simp: ActUnsubscribe)
qed (use assms(4) in auto)


definition stage :: "runtime \<Rightarrow> action mailboxes \<times> (DestinationId \<rightharpoonup> nat InMemDestination) \<times>
    (pointer, DefaultClient) SubscribeTask list \<times> (nat \<rightharpoonup> backend)" where
  "stage w = (rt_actions w, rt_registry w, rt_spawned w, rt_backends w)"

lemma keeps_stage: "keeps stage (handle_action rt_subscriber async_sender iter u bk a)"
  by (rule keeps_if_preserves, rule preserves_handle_action)
    (simp add: preserves_def stage_def rt_event_send_def fifo_send_def)

lemma handle_action_stage:
  assumes "handle_action rt_subscriber async_sender iter u bk a w = (out, w')"
  shows "rt_actions w' = rt_actions w" "rt_registry w' = rt_registry w" "rt_spawned w' = rt_spawned w"
    "rt_backends w' = rt_backends w"
  using keeps_stage [of iter u bk a] assms by (auto simp: keeps_def stage_def dest!: spec [of _ w])

text \<open>The channel and the task of a destination, and nothing else of the stage, have changed.\<close>

lemma stage_changed:
  assumes "rt_registry w' = rt_registry w" "rt_spawned w' = rt_spawned w"
    and "\<And>t'. t' \<noteq> t \<Longrightarrow> mb_queue (rt_actions w') t' = mb_queue (rt_actions w) t' \<and> rt_backends w' t' = rt_backends w t'"
    and "rt_registry w d0 = Some h0" "imd_sender h0 = t"
    and "\<And>d h. rt_registry w d = Some h \<Longrightarrow> imd_sender h = t \<Longrightarrow> d = d0"
  shows "posted w' d = (if d = d0 then List.map_filter sent_body (mb_queue (rt_actions w') t) else posted w d)"
    "claims w' i d = (if d = d0 then length (filter (for_task i d) (rt_spawned w)) + claims_at w' t i else claims w i d)"
proof -
  have "imd_sender h \<noteq> t" if "rt_registry w d = Some h" "d \<noteq> d0" for h
    using assms(6) that by blast
  then show "posted w' d = (if d = d0 then List.map_filter sent_body (mb_queue (rt_actions w') t) else posted w d)"
    "claims w' i d = (if d = d0 then length (filter (for_task i d) (rt_spawned w)) + claims_at w' t i else claims w i d)"
    using assms(1-5) by (auto simp: posted_def claims_def claims_at_def split: option.split)
qed

lemma backend_outcome:
  obtains (continue) bk' where "r = Ret (Continue bk')" | (break) bk' where "r = Ret (Break bk')"
  | (panic) msg where "r = Panic msg"
  by (metis flow.exhaust outcome.exhaust)

lemma backend_turn_cases:
  assumes "handle_action rt_subscriber async_sender iter u bk a (w\<lparr>rt_actions := mb_take t (rt_actions w)\<rparr>) = (out, w')"
  obtains (goes_on) bk' where "out = Ret (Continue bk')"
      "backend_turn iter t u bk a w = w'\<lparr>rt_backends := (rt_backends w')(t \<mapsto> bk')\<rparr>"
    | (ends) "backend_turn iter t u bk a w =
        w'\<lparr>rt_backends := (rt_backends w')(t := None), rt_actions := mb_close t (rt_actions w')\<rparr>"
proof (cases out rule: backend_outcome)
  case (continue bk')
  then show ?thesis using assms goes_on by (simp add: backend_turn_def)
next
  case (break bk')
  then show ?thesis using assms ends by (simp add: backend_turn_def)
next
  case (panic msg)
  then show ?thesis using assms ends by (simp add: backend_turn_def)
qed

text \<open>What the turn leaves: the rest of its queue, or nothing.\<close>

lemma backend_turn_stage:
  assumes run: "handle_action rt_subscriber async_sender iter u bk a (w\<lparr>rt_actions := mb_take t (rt_actions w)\<rparr>) = (out, w')"
    and bk: "rt_backends w t = Some bk" and a: "mb_queue (rt_actions w) t = a # rest"
    and after: "after = backend_turn iter t u bk a w"
  shows "coming after = coming w'" "rt_registry after = rt_registry w" "rt_spawned after = rt_spawned w"
    "t' \<noteq> t \<Longrightarrow> mb_queue (rt_actions after) t' = mb_queue (rt_actions w) t' \<and> rt_backends after t' = rt_backends w t'"
    "mb_queue (rt_actions after) t = rest \<or> mb_queue (rt_actions after) t = []"
    "claims_at after t i \<le> claims_at w t i"
proof -
  note same = handle_action_stage [OF run, simplified]
  have "coming after = coming w' \<and> rt_registry after = rt_registry w \<and> rt_spawned after = rt_spawned w \<and>
     (t' \<noteq> t \<longrightarrow> mb_queue (rt_actions after) t' = mb_queue (rt_actions w) t' \<and> rt_backends after t' = rt_backends w t') \<and>
     (mb_queue (rt_actions after) t = rest \<or> mb_queue (rt_actions after) t = []) \<and>
     claims_at after t i \<le> claims_at w t i"
    using run
  proof (cases rule: backend_turn_cases)
    case (goes_on bk')
    have "subs_of i bk' \<le> subs_of i bk + (if wants i a then 1 else 0)"
      using run unfolding goes_on(1) by (rule handle_action_subs)
    with goes_on(2) show ?thesis
      unfolding after by (simp add: same a bk claims_at_def split: if_splits)
  next
    case ends
    then show ?thesis unfolding after by (simp add: same a claims_at_def)
  qed
  then show "coming after = coming w'" "rt_registry after = rt_registry w" "rt_spawned after = rt_spawned w"
    "t' \<noteq> t \<Longrightarrow> mb_queue (rt_actions after) t' = mb_queue (rt_actions w) t' \<and> rt_backends after t' = rt_backends w t'"
    "mb_queue (rt_actions after) t = rest \<or> mb_queue (rt_actions after) t = []"
    "claims_at after t i \<le> claims_at w t i"
    by blast+
qed

lemma order_ok_backend_turn:
  assumes ok: "order_ok b" "net_ok A P (net b)" and bk: "rt_backends (net b) t = Some bk"
    and a: "mb_queue (rt_actions (net b)) t = a # rest" and iter: "hash_order iter"
  shows "order_ok (b\<lparr>net := backend_turn iter t u bk a (net b)\<rparr>)"
proof -
  define w where "w = net b"
  define after where "after = backend_turn iter t u bk a w"
  let ?d = "backend_id bk"
  obtain out w' where run: "handle_action rt_subscriber async_sender iter u bk a (w\<lparr>rt_actions := mb_take t (rt_actions w)\<rparr>) = (out, w')"
    by (cases "handle_action rt_subscriber async_sender iter u bk a (w\<lparr>rt_actions := mb_take t (rt_actions w)\<rparr>)")
  have reg: "rt_registry w ?d = Some \<lparr>imd_id = ?d, imd_sender = t\<rparr>" and bk_ok: "backend_ok A bk"
    using ok(2) bk unfolding net_ok_def w_def by blast+
  have unique: "d = ?d" if "rt_registry w d = Some h" "imd_sender h = t" for d h
    using ok(2) reg that unfolding net_ok_def w_def by fastforce
  have wf: "backend_wf bk" "client_ids bk"
    using bk_ok by (fastforce simp: backend_ok_def client_ids_def)+
  note turn = backend_turn_stage [OF run bk [folded w_def] a [folded w_def] after_def]
  have posted: "posted after d = (if d = ?d then List.map_filter sent_body (mb_queue (rt_actions after) t) else posted w d)"
    and claims: "claims after i d = (if d = ?d then length (filter (for_task i d) (rt_spawned w)) + claims_at after t i else claims w i d)"
    for i d
    by (rule stage_changed [where ?h0.0 = "\<lparr>imd_id = ?d, imd_sender = t\<rparr>"]; (rule turn reg unique)?; simp)+
  have "order_at after b (got b) i d" for i d
  proof -
    have old: "claims w i d \<le> requests b i d"
      "in_order (requests b i d) (map snd (said b d)) (got b i d @ coming w i d) (posted w d)"
      using ok(1) by (auto simp: order_ok_def w_def)
    obtain n where n: "n \<le> subs_of i bk" "coming w' i d = coming w i d @
        (if d = ?d then (case sent_body a of Some body \<Rightarrow> replicate n body | None \<Rightarrow> []) else [])"
      using handle_action_coming [OF wf iter run, of i d] by auto
    show ?thesis
    proof (cases "d = ?d")
      case False
      with old n show ?thesis by (simp add: order_at_def turn(1) posted claims)
    next
      case True
      have "n \<le> requests b i d"
        using old(1) True n(1) bk reg by (simp add: claims_def claims_at_def w_def)
      moreover have "posted w d = (case sent_body a of Some body \<Rightarrow> body # List.map_filter sent_body rest
          | None \<Rightarrow> List.map_filter sent_body rest)"
        using a reg by (simp add: posted_def True map_filter_Cons w_def split: option.split)
      ultimately have "in_order (requests b i d) (map snd (said b d)) (got b i d @ coming w' i d) (List.map_filter sent_body rest)"
        using old(2) n(2) True in_order_deliver [of "requests b i d" "map snd (said b d)" "got b i d @ coming w i d"]
        by (auto split: option.splits)
      then have "in_order (requests b i d) (map snd (said b d)) (got b i d @ coming w' i d) (posted after d)"
        using turn(5) True in_order_forget by (auto simp: posted List.map_filter_def)
      moreover have "claims after i d \<le> claims w i d"
        using True turn(6) [of i] by (simp add: claims claims_def [of w] reg)
      ultimately show ?thesis
        using old(1) by (simp add: order_at_def turn(1))
    qed
  qed
  then show ?thesis by (auto simp: order_ok_def order_at_def got_def after_def w_def)
qed


section \<open>The task that \<open>subscribe\<close> spawns\<close>

text \<open>A destination that is made has nothing in its queue and no subscription.\<close>

lemma rt_get_order:
  assumes "net_ok A P w" "rt_get d w = (Ret h, w')"
  shows "coming w' = coming w" "posted w' = posted w" "claims w' = claims w" "rt_spawned w' = rt_spawned w"
proof -
  have old: "imd_sender h' \<noteq> rt_next w" if "rt_registry w d' = Some h'" for d' h'
    using assms(1) that unfolding net_ok_def by (metis less_irrefl)
  have "coming w' = coming w \<and> posted w' = posted w \<and> claims w' = claims w \<and> rt_spawned w' = rt_spawned w"
  proof (cases "rt_registry w d")
    case (Some h0)
    with assms(2) show ?thesis by (simp add: rt_get_eq)
  next
    case None
    let ?h = "\<lparr>imd_id = d, imd_sender = rt_next w\<rparr>"
    have w': "w' = w\<lparr>rt_actions := mb_create (rt_next w) (rt_actions w), rt_next := Suc (rt_next w),
        rt_backends := (rt_backends w)(rt_next w \<mapsto> backend_start d), rt_registry := (rt_registry w)(d \<mapsto> ?h)\<rparr>"
      using assms(2) None by (auto simp: rt_get_eq)
    have "posted w' d' = posted w d'" for d'
      using old by (simp add: posted_def w' None List.map_filter_def split: option.split)
    moreover have "claims w' i d' = claims w i d'" for i d'
      using old by (simp add: claims_def claims_at_def w' None subs_of_def backend_start_def split: option.split)
    ultimately show ?thesis by (simp add: fun_eq_iff) (simp add: w')
  qed
  then show "coming w' = coming w" "posted w' = posted w" "claims w' = claims w" "rt_spawned w' = rt_spawned w"
    by blast+
qed

lemma imd_subscribe_order:
  assumes "imd_subscribe rt_action_send rt_subscriber h c p cl w = (out, w')"
    and "rt_registry w d0 = Some h" "\<forall>d h'. rt_registry w d = Some h' \<longrightarrow> imd_sender h' = imd_sender h \<longrightarrow> d = d0"
  shows "coming w' = coming w" "posted w' = posted w"
    "claims w' i d \<le> claims w i d + (if d = d0 \<and> client_sender p = i then 1 else 0)"
proof -
  let ?a = "ActSubscribe c (to_subscribe_callback p) (to_send_fn p)" and ?t = "imd_sender h"
  let ?w = "snd (rt_action_send ?t ?a w)"
  have same: "coming ?w = coming w" "posted ?w = posted w"
    "claims ?w i d \<le> claims w i d + (if d = d0 \<and> client_sender p = i then 1 else 0)"
  proof -
    show "coming ?w = coming w" by simp
    show "posted ?w = posted w" by (simp add: fun_eq_iff posted_action_send List.map_filter_def)
    have "wants i ?a \<longleftrightarrow> client_sender p = i" by (simp add: to_send_fn_def)
    moreover have "d = d0" if "\<exists>h'. rt_registry w d = Some h' \<and> imd_sender h' = ?t"
      using assms(3) that by blast
    ultimately show "claims ?w i d \<le> claims w i d + (if d = d0 \<and> client_sender p = i then 1 else 0)"
      using claims_action_send [of ?t ?a w i d] by (auto split: if_splits)
  qed
  let ?I = "\<lambda>v. coming v = coming ?w \<and> posted v = posted ?w \<and> claims v = claims ?w"
  have "preserves ?I (call_subscribe_callback rt_subscriber scb d' c' r)" for scb d' c' r
  proof (rule preserves_callbacks_by_kind)
    show "preserves ?I (rt_event_send t (EvSubscribed d' c' r))" for t d' c' r
      using silent_event [of "EvSubscribed d' c' r"] by (simp add: preserves_def)
  qed
  then have "?I (snd (call_subscribe_callback rt_subscriber scb d' c' r ?w))" for scb d' c' r
    by (rule preserves_snd) simp
  moreover have "snd (imd_subscribe rt_action_send rt_subscriber h c p cl w) = ?w \<or>
      snd (imd_subscribe rt_action_send rt_subscriber h c p cl w) = snd (call_subscribe_callback rt_subscriber
        (to_subscribe_callback p) (imd_id h) c (Inl (StomperError_new ''Subscribe failed'')) ?w)"
    by (simp add: imd_subscribe_def perform_action_def bind_io_def rt_action_send_def fifo_send_def)
  ultimately have "?I (snd (imd_subscribe rt_action_send rt_subscriber h c p cl w))" by metis
  then have "?I w'" by (simp add: assms(1))
  with same show "coming w' = coming w" "posted w' = posted w"
    "claims w' i d \<le> claims w i d + (if d = d0 \<and> client_sender p = i then 1 else 0)"
    by simp_all
qed

lemma order_ok_subscribe_task:
  assumes ok: "order_ok b" "net_ok A P (net b)" and spawned: "rt_spawned (net b) = before @ task # after"
  shows "order_ok (b\<lparr>net := snd (run_subscribe_task rt_map rt_destination rt_registry_handle task
    ((net b)\<lparr>rt_spawned := before @ after\<rparr>))\<rparr>)"
proof -
  define w where "w = (net b)\<lparr>rt_spawned := before @ after\<rparr>"
  let ?d = "task_destination task" and ?p = "task_subscriber task"
  have net: "net_ok A P w" using ok(2) spawned by (auto simp: net_ok_def w_def)
  obtain h w1 where h: "rt_get ?d w = (Ret h, w1)" "net_ok A P w1" "rt_registry w1 ?d = Some h"
    using net_ok_rt_get [OF net] .
  obtain out w2 where run: "imd_subscribe rt_action_send rt_subscriber h (task_subscriber_sub_id task) ?p
      (task_client task) w1 = (out, w2)"
    by fastforce
  have unique: "\<forall>d h'. rt_registry w1 d = Some h' \<longrightarrow> imd_sender h' = imd_sender h \<longrightarrow> d = ?d"
    using h(2,3) unfolding net_ok_def by blast
  note got = rt_get_order [OF net h(1)] and posts = imd_subscribe_order [OF run h(3) unique]
  have fewer: "claims (net b) i d = claims w i d + (if d = ?d \<and> client_sender ?p = i then 1 else 0)" for i d
  proof -
    have "claims_at w = claims_at (net b)" by (simp add: fun_eq_iff claims_at_def w_def)
    moreover have "rt_registry w = rt_registry (net b)" "rt_spawned w = before @ after" by (simp_all add: w_def)
    ultimately show ?thesis by (simp add: claims_def spawned for_task_def cong: option.case_cong)
  qed
  have "claims w2 i d \<le> requests b i d" for i d
  proof -
    have "claims (net b) i d \<le> requests b i d" using ok(1) by (simp add: order_ok_def)
    with posts(3) [where i = i and d = d] fewer [of i d] got(3) show ?thesis by simp
  qed
  moreover have "coming w2 = coming (net b)" "posted w2 = posted (net b)"
    by (simp_all only: posts(1,2) got(1,2)) (simp_all add: w_def)
  moreover have "snd (run_subscribe_task rt_map rt_destination rt_registry_handle task w) = w2"
    by (simp add: run_subscribe_task_def bind_io_def rt_map_def h(1) rt_destination_def in_mem_destination_def run)
  ultimately show ?thesis using ok(1) by (simp add: order_ok_def got_def w_def)
qed


section \<open>Every state\<close>

lemma order_ok_event:
  assumes "order_ok b" "net_ok A P (net b)" "client_proxy s = \<lparr>client_sender = i\<rparr>" "\<And>d. event_for d e = None"
  shows "order_ok (session_turn i s e b)"
  by (rule order_ok_session_turn [OF assms(2,3)])
    (use assms(1,4) in \<open>simp add: order_ok_def order_at_def news_def\<close>)

lemma order_ok_from_server:
  assumes ok: "order_ok b" "net_ok A P (net b)" and proxy: "client_proxy s = \<lparr>client_sender = i\<rparr>"
    and e: "mb_queue (rt_events (net b)) i = e # rest"
  shows "order_ok (session_turn i s e (b\<lparr>net := (net b)\<lparr>rt_events := mb_take i (rt_events (net b))\<rparr>\<rparr>))"
proof (rule order_ok_session_turn [OF _ proxy])
  let ?b = "b\<lparr>net := (net b)\<lparr>rt_events := mb_take i (rt_events (net b))\<rparr>\<rparr>"
  show "net_ok A P (net ?b)" using ok(2) net_ok_close_events(2) by simp
  have "coming (net b) j d = (if j = i then news d e else []) @ coming (net ?b) j d" for j d
    by (simp add: coming_def e news_def map_filter_Cons split: option.split)
  then show "order_at (net ?b) ?b (\<lambda>j d. got ?b j d @ (if j = i then news d e else [])) j d" for j d
    using ok(1) by (auto simp: order_ok_def order_at_def got_def)
qed

lemma order_ok_step: "broker_step b b' \<Longrightarrow> broker_ok b \<Longrightarrow> order_ok b \<Longrightarrow> order_ok b'"
proof (induction rule: broker_step.induct)
  case (connect hb b conn w)
  show ?case
  proof (rule rt_connectE [OF connect(1)])
    fix timer
    assume w: "w = (net b)\<lparr>rt_events := mb_create (rt_next (net b)) (rt_events (net b)),
      rt_commands := mb_create (rt_next (net b) + 2) (mb_create (rt_next (net b) + 1) (rt_commands (net b))),
      rt_listeners := rt_listeners (net b) @ [(\<lparr>client_sender = rt_next (net b)\<rparr>, timer)],
      rt_next := rt_next (net b) + 3\<rparr>"
    have "coming w i d = (if i = rt_next (net b) then [] else coming (net b) i d)" for i d
      by (simp add: w coming_def List.map_filter_def)
    moreover have "posted w = posted (net b)" "claims w = claims (net b)" by (simp_all add: w)
    moreover have "in_order (requests b i d) (map snd (said b d)) (got b i d) (posted (net b) d)" for i d
      by (rule in_order_lose [where heard' = "coming (net b) i d"]) (use connect(3) in \<open>simp add: order_ok_def\<close>)
    ultimately show ?thesis
      using connect(3) by (simp add: order_ok_def got_def)
  qed
next
  case (from_client b i s e)
  moreover have "event_for d e = None" for d using from_client(2) by (cases e) simp_all
  ultimately show ?case
    using order_ok_event [of b "asked b" "spoken b" s i e] by (simp add: broker_ok_def session_ok_def)
next
  case (listener p timer b)
  have "coming (snd (heartbeat_listener rt_event_send p (Some ()) (net b))) = coming (net b)"
    by (simp add: fun_eq_iff heartbeat_listener_def send_event_def bind_io_def rt_event_send_def fifo_send_def
        coming_def List.map_filter_def)
  moreover have "posted (snd (heartbeat_listener rt_event_send p (Some ()) (net b))) = posted (net b)"
    "claims (snd (heartbeat_listener rt_event_send p (Some ()) (net b))) = claims (net b)"
    by (simp_all add: heartbeat_listener_def send_event_def bind_io_def rt_event_send_def fifo_send_def)
  ultimately show ?case using listener(3) by (simp add: order_ok_def got_def)
next
  case (sink_fails b i s)
  then show ?case
    using order_at_end [of "net b" b "got b"] by (simp add: order_ok_iff order_at_def end_session_def got_def)
next
  case (timer_task b t)
  then show ?case by (simp add: order_ok_def got_def)
next
  case (internal b b')
  then show ?case
  proof (induction rule: internal_step.induct)
    case (from_server b i s e rest)
    then show ?case
      using order_ok_from_server [of b "asked b" "spoken b"] by (simp add: broker_ok_def session_ok_def)
  next
    case (subscribe_task b before task after)
    then show ?case
      using order_ok_subscribe_task [of b "asked b" "spoken b"] by (simp add: broker_ok_def)
  next
    case (backend b t bk a rest iter u)
    then show ?case
      using order_ok_backend_turn [of b "asked b" "spoken b"] by (simp add: broker_ok_def)
  qed
qed

lemma reachable_order_ok: "reachable b \<Longrightarrow> order_ok b"
proof (induction rule: reachable.induct)
  case start
  show ?case
    by (simp add: order_ok_def broker_start_def runtime_start_def claims_def coming_def posted_def got_def
        List.map_filter_def)
next
  case (step b b')
  then show ?case using order_ok_step reachable_ok by blast
qed


section \<open>Properties\<close>

lemma got_bodies:
  "[frame_body f. Inl (MessageF f) \<leftarrow> outbox b i, DestinationId (frame_destination f) = d] = got b i d"
proof -
  have "[frame_body f. Inl (MessageF f) \<leftarrow> ms, DestinationId (frame_destination f) = d] =
      List.map_filter (frame_for d) ms" for ms
  proof (induction ms)
    case (Cons m ms)
    then show ?case by (cases "(d, m)" rule: frame_for.cases) (simp_all add: map_filter_Cons)
  qed (simp add: List.map_filter_def)
  then show ?thesis by (simp add: got_def)
qed

text \<open>
  C2: in every reachable state, the MESSAGE frames that a client has got for a destination carry
  bodies of SEND frames for this destination in the order in which the sessions handled those
  frames: the frame numbers of what it got never go down, whoever sent them, so that no message
  overtakes another on its way through the destination's queue, the subscriptions and the queue of
  the client's session. And no SEND frame is delivered to a client more often than the client has
  sent SUBSCRIBE frames for the destination.
\<close>

theorem messages_in_order:
  assumes "reachable b"
  shows "\<exists>ks. [frame_body f. Inl (MessageF f) \<leftarrow> outbox b i, DestinationId (frame_destination f) = d] =
        map (\<lambda>k. snd (said b d ! k)) ks \<and>
      sorted ks \<and> (\<forall>k \<in> set ks. k < length (said b d)) \<and> (\<forall>k. count_list ks k \<le> requests b i d)"
proof -
  have "in_order (requests b i d) (map snd (said b d)) (got b i d @ coming (net b) i d) (posted (net b) d)"
    using reachable_order_ok [OF assms] by (simp add: order_ok_def)
  then have "in_order (requests b i d) (map snd (said b d)) (got b i d) (posted (net b) d)"
    by (rule in_order_lose)
  then obtain ks qs where "got b i d = map ((!) (map snd (said b d))) ks"
      "selects (requests b i d) (length (said b d)) ks qs"
    by (auto simp: in_order_def)
  then have "got b i d = map (\<lambda>k. snd (said b d ! k)) ks \<and> sorted ks \<and> (\<forall>k \<in> set ks. k < length (said b d)) \<and>
      (\<forall>k. count_list ks k \<le> requests b i d)"
    by (auto simp: selects_def)
  then show ?thesis unfolding got_bodies by blast
qed

text \<open>Two messages on their way to a client that has subscribed once.\<close>

theorem messages_in_order_witness:
  "\<exists>b ks. exec_all (demo_delivery @ [TBackend 3 ''m'', TClient 0 (send_frame ''d'' [106]), TServer 0,
      TBackend 3 ''n'', TServer 0]) broker_start = Some b \<and> requests b 0 (DestinationId ''d'') = 1 \<and>
    said b (DestinationId ''d'') = [(0, [104, 105]), (0, [106])] \<and> outbox b 0 \<noteq> [] \<and>
    [frame_body f. Inl (MessageF f) \<leftarrow> outbox b 0, DestinationId (frame_destination f) = DestinationId ''d''] =
      map (\<lambda>k. snd (said b (DestinationId ''d'') ! k)) ks \<and>
    sorted ks \<and> (\<forall>k. count_list ks k \<le> 1)"
proof -
  obtain b where run: "exec_all (demo_delivery @ [TBackend 3 ''m'', TClient 0 (send_frame ''d'' [106]), TServer 0,
      TBackend 3 ''n'', TServer 0]) broker_start = Some b" "requests b 0 (DestinationId ''d'') = 1"
      "said b (DestinationId ''d'') = [(0, [104, 105]), (0, [106])]" "outbox b 0 \<noteq> []"
    by (simp add: run_defs)
  have "reachable b" using run(1) reachable.start by (rule exec_all_reachable)
  note ordered = messages_in_order [OF this, where i = 0 and d = "DestinationId ''d''", unfolded run(2)]
  show ?thesis
    by (rule exE [OF ordered]; intro exI conjI; (elim conjE)?; (rule run)?; assumption?)
qed

end
