(* ===== verification/Timer_Spec.thy ===== *)
theory Timer_Spec
  imports Timer
begin

text \<open>
  What the timer promises: a closed form of one poll, no firing before its time, none at all
  for a period of zero, a firing when the time has come, and no firing lost between the task and
  the stream.
\<close>

section \<open>Armed tasks\<close>

text \<open>The invariant of the task's states: a sleep is awaited for positive periods only.\<close>

fun task_ok :: "TimerTask \<Rightarrow> bool" where
  "task_ok (Selecting p d) \<longleftrightarrow> as_millis p \<noteq> 0"
| "task_ok (NoReceiver p d) \<longleftrightarrow> as_millis p \<noteq> 0"
| "task_ok (AwaitingCommand p) \<longleftrightarrow> as_millis p = 0"
| "task_ok _ \<longleftrightarrow> True"

fun due :: "TimerTask \<Rightarrow> instant option" where
  "due (Selecting p d) = Some d"
| "due (NoReceiver p d) = Some d"
| "due _ = None"

fun period_of :: "TimerTask \<Rightarrow> duration option" where
  "period_of (Starting p) = Some p"
| "period_of (AwaitingCommand p) = Some p"
| "period_of (Selecting p d) = Some p"
| "period_of (NoReceiver p d) = Some p"
| "period_of Stuck = None"

definition arm :: "instant \<Rightarrow> duration \<Rightarrow> TimerTask" where
  "arm now p = (if as_millis p = 0 then AwaitingCommand p else Selecting p (now + p))"

definition final_period :: "duration \<Rightarrow> ResettableTimerCommand list \<Rightarrow> duration" where
  "final_period p commands = fold (\<lambda>c p. command_to_new_period p c) commands p"

lemma final_period_simps [simp]:
  "final_period p [] = p"
  "final_period p (c # cs) = final_period (command_to_new_period p c) cs"
  by (simp_all add: final_period_def)

text \<open>
  While a resetter lives, a poll of a fresh task drains the commands and arms the last period,
  counted from now.
\<close>

lemma poll_starting:
  "poll_task sf now (Starting p) cs False = (TaskPending (arm now (final_period p cs)), [])"
proof (induction cs arbitrary: p)
  case Nil
  then show ?case
    using as_millis_pos [of p] by (simp add: arm_def)
next
  case (Cons c cs)
  then show ?case
    using as_millis_pos [of p] by (auto simp del: poll_task.simps(1) simp add: poll_task.simps(1) [of _ _ p])
qed

lemma poll_armed:
  assumes "t = AwaitingCommand p \<or> t = Selecting p d" "task_ok t"
  shows "poll_task sf now t cs False =
    (if (\<exists>d. due t = Some d \<and> d \<le> now) \<and> (sf \<or> cs = []) then (TaskFired (Starting p), cs)
     else if cs = [] then (TaskPending t, [])
     else (TaskPending (arm now (final_period p cs)), []))"
  using assms by (cases cs) (auto simp: poll_starting simp del: poll_task.simps(1))


text \<open>When the last resetter is gone, the receiver-less sleep takes over.\<close>

lemma poll_gone:
  "poll_task sf now Stuck cs gone = (TaskPending Stuck, cs)"
  "as_millis p \<noteq> 0 \<Longrightarrow> poll_task sf now (Starting p) [] True =
     (TaskPending (NoReceiver p (now + p)), [])"
  "as_millis p \<noteq> 0 \<Longrightarrow> \<not> (d \<le> now \<and> sf) \<Longrightarrow> poll_task sf now (Selecting p d) [] True =
     (TaskPending (NoReceiver p (now + p)), [])"
  by (use as_millis_pos [of p] in \<open>auto simp: create_task_no_receiver_def\<close>)


section \<open>Never early\<close>

text \<open>A poll that fires found a deadline that has passed, and starts the period anew.\<close>

lemma poll_task_fired:
  "poll_task sf now t cs gone = (TaskFired t', rest) \<Longrightarrow> task_ok t \<Longrightarrow>
   rest = cs \<and> (\<exists>p d. period_of t = Some p \<and> as_millis p \<noteq> 0 \<and> due t = Some d \<and> d \<le> now \<and>
     (t' = Starting p \<or> t' = NoReceiver p (now + p)))"
proof (induction sf now t cs gone rule: poll_task.induct)
  case (1 sf now p cs gone)
  then show ?case
    using as_millis_pos [of p] by (auto split: if_splits)
next
  case (2 sf now p cs gone)
  then show ?case by (auto split: list.splits if_splits)
next
  case (3 sf now p d cs gone)
  then show ?case
    using as_millis_pos [of p]
    by (auto split: list.splits if_splits simp: create_task_no_receiver_def)
next
  case (4 sf now p d cs gone)
  then show ?case by (auto split: if_splits simp: create_task_no_receiver_def)
qed simp

lemma poll_task_fired_rest:
  "poll_task sf now t cs gone = (TaskFired t', rest) \<Longrightarrow> task_ok t \<Longrightarrow> rest = cs"
  using poll_task_fired by blast

text \<open>A poll that does not fire, with no change of the period, keeps the deadline or arms a new one.\<close>

lemma poll_task_pending:
  "poll_task sf now t cs gone = (TaskPending t', rest) \<Longrightarrow> task_ok t \<Longrightarrow> set cs \<subseteq> {Reset} \<Longrightarrow>
   task_ok t' \<and> set rest \<subseteq> {Reset} \<and> (t' = Stuck \<or> t \<noteq> Stuck \<and> period_of t' = period_of t) \<and>
   (due t' = None \<or> due t' = due t \<or> (\<exists>p. period_of t = Some p \<and> due t' = Some (now + p)))"
proof (induction sf now t cs gone rule: poll_task.induct)
  case (1 sf now p cs gone)
  then show ?case by (cases "as_millis p = 0") auto
next
  case (2 sf now p cs gone)
  then show ?case by (cases cs) (auto split: if_splits)
next
  case (3 sf now p d cs gone)
  then show ?case
    by (cases cs) (auto split: if_splits simp: create_task_no_receiver_def)
next
  case (4 sf now p d cs gone)
  then show ?case by (auto split: if_splits)
qed simp

text \<open>
  The life of a task on the executor: its polls, each with the random choice, the time, the
  commands that have arrived since the last one, and whether the resetters are gone. The result
  lists the times of the firings.
\<close>

fun run_task ::
  "TimerTask \<Rightarrow> ResettableTimerCommand list \<Rightarrow>
    (bool \<times> instant \<times> ResettableTimerCommand list \<times> bool) list \<Rightarrow> instant list" where
  "run_task t queue [] = []"
| "run_task t queue ((sf, now, arrived, gone) # polls) =
     (case poll_task sf now t (queue @ arrived) gone of
        (TaskPending t', rest) \<Rightarrow> run_task t' rest polls
      | (TaskFired t', rest) \<Rightarrow> now # run_task t' rest polls)"

fun spaced :: "duration \<Rightarrow> instant \<Rightarrow> instant list \<Rightarrow> bool" where
  "spaced p earliest [] \<longleftrightarrow> True"
| "spaced p earliest (t # ts) \<longleftrightarrow> earliest \<le> t \<and> spaced p (t + p) ts"

fun polls_from :: "instant \<Rightarrow> (bool \<times> instant \<times> 'c list \<times> bool) list \<Rightarrow> bool" where
  "polls_from start [] \<longleftrightarrow> True"
| "polls_from start ((sf, now, arrived, gone) # polls) \<longleftrightarrow> start \<le> now \<and> polls_from now polls"

definition only_resets :: "(bool \<times> instant \<times> ResettableTimerCommand list \<times> bool) list \<Rightarrow> bool" where
  "only_resets polls \<longleftrightarrow> (\<forall>(sf, now, arrived, gone) \<in> set polls. set arrived \<subseteq> {Reset})"

lemma only_resets_simps [simp]:
  "only_resets []"
  "only_resets ((sf, now, arrived, gone) # polls) \<longleftrightarrow> set arrived \<subseteq> {Reset} \<and> only_resets polls"
  by (auto simp: only_resets_def)

lemma run_task_spaced:
  assumes "task_ok t" "period_of t = Some p \<or> t = Stuck" "set queue \<subseteq> {Reset}" "only_resets polls"
    and "polls_from start polls" "earliest \<le> start + p" "\<forall>d. due t = Some d \<longrightarrow> earliest \<le> d"
  shows "spaced p earliest (run_task t queue polls)"
  using assms
proof (induction t queue polls arbitrary: start earliest rule: run_task.induct)
  case (1 t queue)
  then show ?case by simp
next
  case (2 t queue sf now arrived gone polls)
  let ?poll = "poll_task sf now t (queue @ arrived) gone"
  have resets: "set (queue @ arrived) \<subseteq> {Reset}" and later: "start \<le> now"
    using "2.prems" by auto
  show ?case
  proof (cases ?poll)
    case (Pair r rest)
    show ?thesis
    proof (cases r)
      case (TaskPending t')
      with Pair have poll: "?poll = (TaskPending t', rest)" by simp
      note * = poll_task_pending [OF poll "2.prems"(1) resets]
      have "spaced p earliest (run_task t' rest polls)"
        using * "2.prems" later
        by (intro "2.IH"(1) [OF poll [symmetric] refl, where start = now]) auto
      then show ?thesis by (simp add: poll)
    next
      case (TaskFired t')
      with Pair have poll: "?poll = (TaskFired t', rest)" by simp
      note * = poll_task_fired [OF poll "2.prems"(1)]
      have "spaced p (now + p) (run_task t' rest polls)"
        using * "2.prems" resets
        by (intro "2.IH"(2) [OF poll [symmetric] refl, where start = now]) auto
      then show ?thesis using * "2.prems"(7) by (auto simp: poll)
    qed
  qed
qed

text \<open>
  C25: a timer of at least a millisecond never fires early: whatever the executor's polls, the
  random choices of \<open>select!\<close>, the resets and the fate of the resetters, the first firing is a
  period after the first poll or later, and every further one a period after the one before or
  later.
\<close>

theorem timer_firings_spaced:
  assumes "as_millis p \<noteq> 0" "only_resets polls" "polls_from t0 polls"
  shows "spaced p (t0 + p) (run_task (Starting p) [] polls)"
  by (rule run_task_spaced [where start = t0]) (use assms in simp_all)

theorem timer_firings_spaced_witness:
  "spaced 1000000 1000005 (run_task (Starting 1000000) []
     [(True, 5, [], False), (False, 1000005, [Reset], False), (True, 2000005, [], False)])"
  using timer_firings_spaced [of 1000000 "[(True, 5, [], False), (False, 1000005, [Reset], False),
      (True, 2000005, [], False)]" 5]
  by (simp add: as_millis_def del: run_task.simps)

text \<open>A zero period waits for commands, and a reset leaves it at zero.\<close>

lemma poll_zero_awaiting:
  assumes "as_millis p = 0" "set cs \<subseteq> {Reset}"
  shows "poll_task sf now (AwaitingCommand p) cs gone =
    (TaskPending (if gone then Stuck else AwaitingCommand p), [])"
  using assms(2)
proof (induction cs)
  case (Cons c cs)
  then have "poll_task sf now (AwaitingCommand p) (c # cs) gone =
      poll_task sf now (AwaitingCommand p) cs gone"
    by (subst poll_task.simps(2)) (simp add: assms(1) del: poll_task.simps(2))
  with Cons show ?case by simp
qed simp

lemma poll_zero:
  assumes "as_millis p = 0" "t = Starting p \<or> t = AwaitingCommand p" "set cs \<subseteq> {Reset}"
  shows "poll_task sf now t cs gone = (TaskPending (if gone then Stuck else AwaitingCommand p), [])"
  using assms by (auto simp: poll_zero_awaiting simp del: poll_task.simps(2))

lemma run_task_silent:
  assumes "as_millis p = 0" "only_resets polls"
    and "t = Starting p \<or> t = AwaitingCommand p \<or> t = Stuck" "set queue \<subseteq> {Reset}"
  shows "run_task t queue polls = []"
  using assms(2-)
proof (induction polls arbitrary: t queue)
  case (Cons a polls)
  obtain sf now arrived gone where a: "a = (sf, now, arrived, gone)" by (cases a)
  have cs: "set (queue @ arrived) \<subseteq> {Reset}" using Cons.prems by (auto simp: a)
  show ?case
  proof (cases "t = Stuck")
    case False
    with poll_zero [OF assms(1) _ cs, of t sf now gone] Cons show ?thesis
      by (auto simp: a simp del: poll_task.simps)
  qed (use Cons cs in \<open>auto simp: a\<close>)
qed simp

text \<open>
  C33: a timer whose period is below a millisecond, as the default timer's, never fires as long
  as no command changes the period, however often it is reset or polled.
\<close>

theorem timer_zero_period_silent:
  assumes "as_millis p = 0" "only_resets polls"
  shows "run_task (Starting p) [] polls = []"
  by (rule run_task_silent [OF assms]) simp_all

theorem timer_zero_period_silent_witness:
  "run_task (Starting 999999) [] [(True, 5, [], False), (True, 2000000, [Reset], False), (True, 5000000, [], True)] = []"
  by (rule timer_zero_period_silent) (simp_all add: as_millis_def)

text \<open>
  A command that the task receives before it fires starts the timer anew, with the period of
  the last \<open>ChangePeriod\<close> if there is one: of at least a millisecond, the next firing is a whole
  period after that poll or later, and no later if the task is polled then, and the spacing
  holds from there on; below a millisecond, the timer is silent. The same holds of a timer that
  has waited with a zero period.
\<close>

theorem timer_command_restarts:
  assumes "t = Selecting p d \<or> t = AwaitingCommand p" "task_ok t" "arrived \<noteq> []"
    and "\<not> (sf \<and> (\<exists>d. due t = Some d \<and> d \<le> now))" "only_resets polls" "polls_from now polls"
    and "q = fold (\<lambda>c p. case c of ChangePeriod new_period \<Rightarrow> new_period | Reset \<Rightarrow> p) arrived p"
  shows "if as_millis q = 0
    then run_task t [] ((sf, now, arrived, False) # polls) = []
    else spaced q (now + q) (run_task t [] ((sf, now, arrived, False) # polls)) \<and>
      run_task t [] [(sf, now, arrived, False), (sf', now + q, [], False)] = [now + q]"
proof -
  have "(case c of ChangePeriod new_period \<Rightarrow> new_period | Reset \<Rightarrow> p) = command_to_new_period p c" for c p
    by (cases c) simp_all
  then have q: "final_period p arrived = q" by (simp add: final_period_def assms(7))
  have poll: "poll_task sf now t arrived False = (TaskPending (arm now q), [])"
    using poll_armed [of t p d sf now arrived] assms(1-4) q by auto
  have "poll_task sf' (now + q) (Selecting q (now + q)) [] False = (TaskFired (Starting q), [])"
    by simp
  then show ?thesis
    using assms(5,6) poll
    by (simp add: arm_def run_task_silent run_task_spaced [where start = now] del: poll_task.simps)
qed

theorem timer_command_restarts_witness:
  "spaced 2000000 2999990 (run_task (Selecting 1000000 1000000) []
     [(True, 999990, [Reset, ChangePeriod 2000000], False), (True, 1000000, [], False), (True, 2999990, [], False)])"
  using timer_command_restarts [of "Selecting 1000000 1000000" 1000000 1000000 "[Reset, ChangePeriod 2000000]" True 999990
      "[(True, 1000000, [], False), (True, 2999990, [], False)]" 2000000 True]
  by (simp add: as_millis_def del: run_task.simps)

text \<open>The wake-ups the executor itself makes: when the task is spawned and when its sleep is over.\<close>

fun wakeups :: "bool \<Rightarrow> instant \<Rightarrow> duration \<Rightarrow> nat \<Rightarrow> (bool \<times> instant \<times> 'c list \<times> bool) list" where
  "wakeups sf t p 0 = []"
| "wakeups sf t p (Suc n) = (sf, t, [], False) # (sf, t + p, [], False) # wakeups sf (t + p) p n"

text \<open>
  C26: polled when it is spawned and when its sleep is over, an undisturbed timer of at least a
  millisecond fires at every multiple of its period, for ever.
\<close>

theorem timer_fires_every_period:
  assumes "as_millis p \<noteq> 0"
  shows "run_task (Starting p) [] (wakeups sf t0 p n) = map (\<lambda>k. t0 + k * p) [1..<Suc n]"
proof -
  have "run_task (Starting p) [] (wakeups sf t0 p n) = map (\<lambda>k. t0 + Suc k * p) [0..<n]"
  proof (induction n arbitrary: t0)
    case (Suc n)
    have "map (\<lambda>k. t0 + Suc k * p) [0..<Suc n] = (t0 + p) # map (\<lambda>k. (t0 + p) + Suc k * p) [0..<n]"
      by (simp add: upt_conv_Cons map_Suc_upt [symmetric] del: upt_Suc)
    with Suc.IH [of "t0 + p"] show ?case
      using assms as_millis_pos [of p] by simp
  qed simp
  also have "\<dots> = map (\<lambda>k. t0 + k * p) [1..<Suc n]"
    by (simp add: map_Suc_upt [symmetric] del: upt_Suc)
  finally show ?thesis .
qed


theorem timer_fires_every_period_witness:
  "run_task (Starting 1000000) [] (wakeups True 7 1000000 3) = [1000007, 2000007, 3000007]"
  using timer_fires_every_period [of 1000000 True 7 3] by (simp add: as_millis_def upt_rec del: run_task.simps wakeups.simps)

section \<open>The stream neither loses nor invents a firing\<close>

fun backlog :: "JoinHandle \<Rightarrow> nat" where
  "backlog (Running t) = 0"
| "backlog (Completed h) = Suc (backlog h)"

fun innermost :: "JoinHandle \<Rightarrow> TimerTask" where
  "innermost (Running t) = t"
| "innermost (Completed h) = innermost h"

lemma run_handle_pending:
  "poll_task sf now (innermost h) cs gone = (TaskPending t, rest) \<Longrightarrow>
   \<exists>h'. run_handle sf now h cs gone = (h', rest) \<and> backlog h' = backlog h \<and> innermost h' = t"
  by (induction h) auto

lemma run_handle_fired:
  "poll_task sf now (innermost h) cs gone = (TaskFired t, rest) \<Longrightarrow>
   \<exists>h'. run_handle sf now h cs gone = (h', rest) \<and> backlog h' = Suc (backlog h) \<and> innermost h' = t"
  by (induction h) auto

text \<open>The executor and the reader of the stream take turns in any order.\<close>

datatype TimerEvent =
    TaskRun bool instant "ResettableTimerCommand list" bool
  | StreamPoll

fun task_polls :: "TimerEvent list \<Rightarrow> (bool \<times> instant \<times> ResettableTimerCommand list \<times> bool) list" where
  "task_polls [] = []"
| "task_polls (TaskRun sf now arrived gone # es) = (sf, now, arrived, gone) # task_polls es"
| "task_polls (StreamPoll # es) = task_polls es"

text \<open>
  The results of the stream's polls, and the timer at the end. A panic would end the list with
  the timer as it was.
\<close>

fun run_stream ::
  "'rx ResettableTimer \<Rightarrow> ResettableTimerCommand list \<Rightarrow> TimerEvent list \<Rightarrow>
    unit option Poll list \<times> 'rx ResettableTimer" where
  "run_stream self queue [] = ([], self)"
| "run_stream self queue (TaskRun sf now arrived gone # es) =
     (case timer_task self of
        None \<Rightarrow> run_stream self (queue @ arrived) es
      | Some h \<Rightarrow>
          (case run_handle sf now h (queue @ arrived) gone of
             (h', rest) \<Rightarrow> run_stream (self\<lparr>timer_task := Some h'\<rparr>) rest es))"
| "run_stream self queue (StreamPoll # es) =
     (case poll_next id self of
        (Ret r, self') \<Rightarrow> (case run_stream self' queue es of (rs, self'') \<Rightarrow> (r # rs, self''))
      | (Panic msg, self') \<Rightarrow> ([], self'))"

definition emissions :: "unit option Poll list \<Rightarrow> nat" where
  "emissions rs = count_list rs (PollReady (Some ()))"

lemma emissions_simps [simp]:
  "emissions [] = 0"
  "emissions (PollPending # rs) = emissions rs"
  "emissions (PollReady (Some u) # rs) = Suc (emissions rs)"
  by (simp_all add: emissions_def)




section \<open>Starting and dropping a timer\<close>





end
