(* ===== verification/Heartbeat.thy ===== *)
theory Heartbeat
  imports Broker_Order Timer_Spec
begin

text \<open>
  The server with its clock: the sessions of \<open>Broker\<close>, and for each of them the two timers of
  \<open>Timer\<close>, run by their tasks, read by the session's stream of heartbeats and by the heartbeat
  listener. Time passes only when the sessions have handled their queues and the timers' tasks
  have nothing to do, and never past the time for which a task has asked to be woken: this is
  an executor that is always prompt, and the paused clock of \<open>tokio\<close> that the crate's tests use.
\<close>

section \<open>State\<close>

text \<open>
  \<open>timers\<close> are the timers that somebody reads, under the number of the channel of their commands;
  \<open>waiting\<close> are the listeners that have not fired (session, channel). What a dropped timer leaves
  running (\<open>drop_timer\<close>) nobody reads, and a reset that does not reach its timer any more is
  logged only, so both leave no trace here. \<open>intervals\<close> and the rest are ghosts: the heartbeats a
  client has asked for, when its session handled something from it, when it got a message or a
  heartbeat (or was admitted), when its watch fired (while it ran) and when heartbeats were
  sent, latest first.
\<close>

record timed =
  srv :: broker
  clock :: instant
  timers :: "(nat \<times> nat ResettableTimer) list"
  waiting :: "(nat \<times> nat) list"
  admitted :: "nat list"
  intervals :: "nat \<Rightarrow> HeartBeatIntervalls"
  heard :: "nat \<Rightarrow> instant list"
  told :: "nat \<Rightarrow> instant list"
  alarms :: "nat \<Rightarrow> instant list"
  beats :: "nat \<Rightarrow> instant list"

definition timed_start :: timed where
  "timed_start = \<lparr>srv = broker_start, clock = 0, timers = [], waiting = [], admitted = [],
     intervals = (\<lambda>_. \<lparr>supplied = 0, expected = 0\<rparr>), heard = (\<lambda>_. []), told = (\<lambda>_. []),
     alarms = (\<lambda>_. []), beats = (\<lambda>_. [])\<rparr>"

text \<open>The channels of a session's timers: the one behind its heartbeats, and the one that watches its client.\<close>

definition heart :: "session \<Rightarrow> nat" where
  "heart s = resetter_sender (server_heartbeat_resetter s)"

definition watch :: "session \<Rightarrow> nat" where
  "watch s = resetter_sender (client_heartbeat_resetter s)"

abbreviation commands_at :: "timed \<Rightarrow> nat \<Rightarrow> ResettableTimerCommand list" where
  "commands_at t c \<equiv> mb_queue (rt_commands (net (srv t))) c"

text \<open>A timer's resetter lives in its session; when the session is over, the receiver sees the end.\<close>

definition resetter_gone :: "timed \<Rightarrow> nat \<Rightarrow> bool" where
  "resetter_gone t c \<longleftrightarrow> \<not> (\<exists>i \<in> set (admitted t).
     case sessions (srv t) i of Some s \<Rightarrow> c = heart s \<or> c = watch s | None \<Rightarrow> False)"


section \<open>Turns\<close>

text \<open>An admitted client: its session, the stream of its heartbeats, and the listener with its timer.\<close>

definition admit ::
  "HeartBeatIntervalls \<Rightarrow> (nat, nat, nat, nat, registry, DefaultClient) Connection \<Rightarrow> runtime \<Rightarrow> timed \<Rightarrow> timed" where
  "admit hb conn w t =
     (let i = conn_from_server conn; s = conn_session conn
      in t\<lparr>srv := (srv t)\<lparr>net := w, sessions := (sessions (srv t))(i \<mapsto> s)\<rparr>,
        timers := AList.update (heart s) (conn_server_heartbeat conn)
          (AList.update (watch s) (snd (last (rt_listeners w))) (timers t)),
        waiting := (i, watch s) # waiting t, admitted := i # admitted t,
        intervals := (intervals t)(i := hb), heard := (heard t)(i := [clock t]),
        told := (told t)(i := [clock t]), alarms := (alarms t)(i := []), beats := (beats t)(i := [])\<rparr>)"

text \<open>A session handles an event; if this ends it, its stream of heartbeats goes with it.\<close>

fun is_beat :: "ServerMessage \<Rightarrow> bool" where
  "is_beat (Inr b) \<longleftrightarrow> True"
| "is_beat _ \<longleftrightarrow> False"

fun tells :: "ServerMessage \<Rightarrow> bool" where
  "tells (Inl (MessageF f)) \<longleftrightarrow> True"
| "tells m \<longleftrightarrow> is_beat m"

definition timed_turn :: "nat \<Rightarrow> session \<Rightarrow> ClientEvent \<Rightarrow> broker \<Rightarrow> timed \<Rightarrow> timed" where
  "timed_turn i s e b t =
     (let b' = session_turn i s e b; items = drop (length (outbox b i)) (outbox b' i)
      in t\<lparr>srv := b',
        timers := (if sessions b' i = None then AList.delete (heart s) (timers t) else timers t),
        heard := (if resets_client e then (heard t)(i := clock t # heard t i) else heard t),
        told := (if \<exists>m \<in> set items. tells m then (told t)(i := clock t # told t i) else told t),
        beats := (if \<exists>m \<in> set items. is_beat m then (beats t)(i := clock t # beats t i) else beats t)\<rparr>)"

definition timed_end :: "nat \<Rightarrow> session \<Rightarrow> timed \<Rightarrow> timed" where
  "timed_end i s t = t\<lparr>srv := end_session i (srv t), timers := AList.delete (heart s) (timers t)\<rparr>"

text \<open>The task of a timer is polled.\<close>

definition run_timer :: "bool \<Rightarrow> nat \<Rightarrow> nat ResettableTimer \<Rightarrow> JoinHandle \<Rightarrow> timed \<Rightarrow> timed" where
  "run_timer sleep_first c timer h t =
     (case run_handle sleep_first (clock t) h (commands_at t c) (resetter_gone t c) of
        (h', rest) \<Rightarrow>
          t\<lparr>srv := (srv t)\<lparr>net := (net (srv t))\<lparr>rt_commands := (rt_commands (net (srv t)))\<lparr>mb_queue :=
              (mb_queue (rt_commands (net (srv t))))(c := rest)\<rparr>\<rparr>\<rparr>,
            timers := AList.update c (timer\<lparr>timer_task := Some h'\<rparr>) (timers t)\<rparr>)"

text \<open>
  \<open>select_all\<close> polls the stream of heartbeats: an item becomes the event \<open>Heartbeat\<close>, a stream that
  has ended is dropped.
\<close>

definition poll_heart :: "nat \<Rightarrow> session \<Rightarrow> nat ResettableTimer \<Rightarrow> timed \<Rightarrow> timed" where
  "poll_heart i s timer t =
     (case poll_next id timer of
        (Ret PollPending, timer') \<Rightarrow> t\<lparr>timers := AList.update (heart s) timer' (timers t)\<rparr>
      | (Ret (PollReady (Some _)), timer') \<Rightarrow>
          timed_turn i s EvHeartbeat (srv t) (t\<lparr>timers := AList.update (heart s) timer' (timers t)\<rparr>)
      | (Ret (PollReady None), timer') \<Rightarrow> t\<lparr>timers := AList.delete (heart s) (timers t)\<rparr>
      | (Panic _, timer') \<Rightarrow> timed_end i s t)"

text \<open>The heartbeat listener polls its timer; the first item ends it, and the timer is dropped.\<close>

definition poll_watch :: "nat \<Rightarrow> nat \<Rightarrow> nat ResettableTimer \<Rightarrow> timed \<Rightarrow> timed" where
  "poll_watch i c timer t =
     (case poll_next id timer of
        (Ret PollPending, timer') \<Rightarrow> t\<lparr>timers := AList.update c timer' (timers t)\<rparr>
      | (Ret (PollReady fired), timer') \<Rightarrow>
          t\<lparr>srv := (srv t)\<lparr>net :=
              snd (heartbeat_listener rt_event_send \<lparr>client_sender = i\<rparr> fired (net (srv t)))\<rparr>,
            timers := AList.delete c (timers t), waiting := removeAll (i, c) (waiting t),
            alarms := (if sessions (srv t) i = None then alarms t
              else (alarms t)(i := clock t # alarms t i))\<rparr>
      | (Panic _, timer') \<Rightarrow>
          t\<lparr>timers := AList.delete c (timers t), waiting := removeAll (i, c) (waiting t)\<rparr>)"


section \<open>Time\<close>

fun asleep :: "TimerTask \<Rightarrow> bool" where
  "asleep (Starting p) \<longleftrightarrow> False"
| "asleep _ \<longleftrightarrow> True"

definition at_rest :: "timed \<Rightarrow> bool" where
  "at_rest t \<longleftrightarrow>
     (\<forall>i \<in> set (admitted t). sessions (srv t) i = None \<or> mb_queue (rt_events (net (srv t))) i = []) \<and>
     (\<forall>(c, timer) \<in> set (timers t). commands_at t c = [] \<and>
        (case timer_task timer of Some (Running task) \<Rightarrow> asleep task | _ \<Rightarrow> False))"

definition may_pass :: "duration \<Rightarrow> timed \<Rightarrow> bool" where
  "may_pass dt t \<longleftrightarrow> (\<forall>(c, timer) \<in> set (timers t).
     case timer_task timer of
       Some (Running task) \<Rightarrow> (case due task of Some d \<Rightarrow> clock t + dt \<le> d | None \<Rightarrow> True)
     | _ \<Rightarrow> False)"

text \<open>The turns that the server takes by itself.\<close>

inductive prompt_step :: "timed \<Rightarrow> timed \<Rightarrow> bool" where
  from_server:
    "sessions (srv t) i = Some s \<Longrightarrow> mb_queue (rt_events (net (srv t))) i = e # rest \<Longrightarrow>
     prompt_step t (timed_turn i s e
       ((srv t)\<lparr>net := (net (srv t))\<lparr>rt_events := mb_take i (rt_events (net (srv t)))\<rparr>\<rparr>) t)"
| subscribe_task:
    "rt_spawned (net (srv t)) = before @ task # after \<Longrightarrow>
     prompt_step t (t\<lparr>srv := (srv t)\<lparr>net := snd (run_subscribe_task rt_map rt_destination rt_registry_handle task
       ((net (srv t))\<lparr>rt_spawned := before @ after\<rparr>))\<rparr>\<rparr>)"
| backend:
    "rt_backends (net (srv t)) d = Some bk \<Longrightarrow> mb_queue (rt_actions (net (srv t))) d = a # rest \<Longrightarrow>
     hash_order iter \<Longrightarrow>
     prompt_step t (t\<lparr>srv := (srv t)\<lparr>net := backend_turn iter d u bk a (net (srv t))\<rparr>\<rparr>)"
| timer:
    "map_of (timers t) c = Some timer \<Longrightarrow> timer_task timer = Some h \<Longrightarrow>
     prompt_step t (run_timer sleep_first c timer h t)"
| heartbeat:
    "sessions (srv t) i = Some s \<Longrightarrow> map_of (timers t) (heart s) = Some timer \<Longrightarrow>
     prompt_step t (poll_heart i s timer t)"
| listener:
    "(i, c) \<in> set (waiting t) \<Longrightarrow> map_of (timers t) c = Some timer \<Longrightarrow>
     prompt_step t (poll_watch i c timer t)"

text \<open>The others need the outside: clients, their sinks, and time.\<close>

inductive timed_step :: "timed \<Rightarrow> timed \<Rightarrow> bool" where
  connect:
    "handle_connection_validation_result rt_setup (Inr (hb, DefaultClient)) rt_registry_handle (net (srv t)) =
       (Ret (Accepted conn), w) \<Longrightarrow> timed_step t (admit hb conn w t)"
| from_client:
    "sessions (srv t) i = Some s \<Longrightarrow> external e \<Longrightarrow> e \<noteq> EvHeartbeat \<Longrightarrow>
     timed_step t (timed_turn i s e (srv t) t)"
| sink_fails: "sessions (srv t) i = Some s \<Longrightarrow> timed_step t (timed_end i s t)"
| time: "at_rest t \<Longrightarrow> may_pass dt t \<Longrightarrow> timed_step t (t\<lparr>clock := clock t + dt\<rparr>)"
| prompt: "prompt_step t t' \<Longrightarrow> timed_step t t'"

inductive timed_run :: "timed \<Rightarrow> bool" where
  start: "timed_run timed_start"
| step: "timed_run t \<Longrightarrow> timed_step t t' \<Longrightarrow> timed_run t'"


section \<open>Running it\<close>

text \<open>A schedule names the turns, as in \<open>Broker_Spec\<close>; \<open>HWait\<close> lets some milliseconds pass.\<close>

datatype timed_choice =
    HConnect HeartBeatIntervalls
  | HClient nat ClientEvent
  | HServer nat
  | HTask
  | HBackend nat string
  | HTimer nat bool
  | HBeat nat
  | HListen nat nat
  | HWait nat

fun texec :: "timed_choice \<Rightarrow> timed \<Rightarrow> timed option" where
  "texec (HConnect hb) t =
     (case handle_connection_validation_result rt_setup (Inr (hb, DefaultClient)) rt_registry_handle (net (srv t)) of
        (Ret (Accepted conn), w) \<Rightarrow> Some (admit hb conn w t)
      | _ \<Rightarrow> None)"
| "texec (HClient i e) t =
     (case sessions (srv t) i of
        Some s \<Rightarrow> if external e \<and> e \<noteq> EvHeartbeat then Some (timed_turn i s e (srv t) t) else None
      | None \<Rightarrow> None)"
| "texec (HServer i) t =
     (case (sessions (srv t) i, mb_queue (rt_events (net (srv t))) i) of
        (Some s, e # rest) \<Rightarrow> Some (timed_turn i s e
          ((srv t)\<lparr>net := (net (srv t))\<lparr>rt_events := mb_take i (rt_events (net (srv t)))\<rparr>\<rparr>) t)
      | _ \<Rightarrow> None)"
| "texec HTask t =
     (case rt_spawned (net (srv t)) of
        task # rest \<Rightarrow> Some (t\<lparr>srv := (srv t)\<lparr>net := snd (run_subscribe_task rt_map rt_destination
          rt_registry_handle task ((net (srv t))\<lparr>rt_spawned := rest\<rparr>))\<rparr>\<rparr>)
      | [] \<Rightarrow> None)"
| "texec (HBackend d u) t =
     (case (rt_backends (net (srv t)) d, mb_queue (rt_actions (net (srv t))) d) of
        (Some bk, a # rest) \<Rightarrow> Some (t\<lparr>srv := (srv t)\<lparr>net := backend_turn id d u bk a (net (srv t))\<rparr>\<rparr>)
      | _ \<Rightarrow> None)"
| "texec (HTimer c sleep_first) t =
     (case map_of (timers t) c of
        Some timer \<Rightarrow> map_option (\<lambda>h. run_timer sleep_first c timer h t) (timer_task timer)
      | None \<Rightarrow> None)"
| "texec (HBeat i) t =
     (case sessions (srv t) i of
        Some s \<Rightarrow> map_option (\<lambda>timer. poll_heart i s timer t) (map_of (timers t) (heart s))
      | None \<Rightarrow> None)"
| "texec (HListen i c) t =
     (if (i, c) \<in> set (waiting t)
      then map_option (\<lambda>timer. poll_watch i c timer t) (map_of (timers t) c) else None)"
| "texec (HWait ms) t =
     (if at_rest t \<and> may_pass (from_millis ms) t then Some (t\<lparr>clock := clock t + from_millis ms\<rparr>) else None)"

fun texec_all :: "timed_choice list \<Rightarrow> timed \<Rightarrow> timed option" where
  "texec_all [] t = Some t"
| "texec_all (c # cs) t = Option.bind (texec c t) (texec_all cs)"

lemma texec_step: "texec c t = Some t' \<Longrightarrow> timed_step t t'"
  by (cases c) (auto split: option.splits list.splits prod.splits outcome.splits admission.splits if_splits
      intro: timed_step.intros prompt_step.intros hash_order_id
        prompt_step.subscribe_task [where before = "[]", simplified])

lemma texec_all_run: "texec_all cs t = Some t' \<Longrightarrow> timed_run t \<Longrightarrow> timed_run t'"
proof (induction cs arbitrary: t)
  case (Cons c cs)
  then obtain t1 where "texec c t = Some t1" "texec_all cs t1 = Some t'"
    by (cases "texec c t") auto
  with Cons show ?case using texec_step timed_run.step by blast
qed simp

lemmas timed_defs = timed_start_def admit_def timed_turn_def timed_end_def run_timer_def poll_heart_def
  poll_watch_def heart_def watch_def resetter_gone_def at_rest_def may_pass_def poll_next_def
  poll_existing_task_def initialise_def from_millis_def as_millis_def heartbeat_listener_def

end
