(* ===== verification/Heartbeat_Invariant.thy ===== *)
theory Heartbeat_Invariant
  imports Heartbeat
begin

text \<open>
  The invariant of the composed server with its clock: each channel belongs to one timer, each timer
  is on time for what its session has said or heard (\<open>timer_ok\<close>), a watch that has fired has posted
  the event that ends its session, and the firings so far were on time. One lemma per turn keeps it.
\<close>

section \<open>A timer and its marks\<close>

text \<open>
  \<open>marks\<close> are the times when a timer of period \<open>p\<close> was started, reset or read. Its next firing is a
  period after one of them, and no mark other than one made just now lies within the period
  before a firing.
\<close>

definition on_time :: "duration \<Rightarrow> instant list \<Rightarrow> instant \<Rightarrow> bool" where
  "on_time p marks d \<longleftrightarrow> as_millis p \<noteq> 0 \<and> (\<exists>x \<in> set marks. d = x + p)"

definition due_after :: "duration \<Rightarrow> instant list \<Rightarrow> bool \<Rightarrow> instant \<Rightarrow> instant \<Rightarrow> bool" where
  "due_after p marks pending now d \<longleftrightarrow> (\<forall>x \<in> set marks. x + p \<le> d \<or> x = now \<and> pending)"

fun handle_ok :: "instant \<Rightarrow> duration \<Rightarrow> instant list \<Rightarrow> bool \<Rightarrow> JoinHandle \<Rightarrow> bool" where
  "handle_ok now p marks pending (Running (Starting q)) \<longleftrightarrow> q = p \<and> now \<in> set marks"
| "handle_ok now p marks pending (Running (AwaitingCommand q)) \<longleftrightarrow> q = p \<and> as_millis p = 0"
| "handle_ok now p marks pending (Running (Selecting q d)) \<longleftrightarrow>
     q = p \<and> now \<le> d \<and> on_time p marks d \<and> due_after p marks pending now d"
| "handle_ok now p marks pending (Completed (Running (Starting q))) \<longleftrightarrow>
     q = p \<and> on_time p marks now \<and> due_after p marks True now now"
| "handle_ok now p marks pending (Completed (Running (Selecting q d))) \<longleftrightarrow>
     q = p \<and> d = now + p \<and> on_time p marks now \<and> due_after p marks True now now"
| "handle_ok now p marks pending _ \<longleftrightarrow> False"

definition timer_ok :: "instant \<Rightarrow> duration \<Rightarrow> instant list \<Rightarrow> ResettableTimerCommand list \<Rightarrow> 'rx ResettableTimer \<Rightarrow> bool" where
  "timer_ok now p marks queue timer \<longleftrightarrow>
     timer_period timer = p \<and> set queue \<subseteq> {Reset} \<and> marks \<noteq> [] \<and> (\<forall>x \<in> set marks. x \<le> now) \<and>
     (queue \<noteq> [] \<longrightarrow> now \<in> set marks) \<and>
     (case timer_task timer of
        None \<Rightarrow> timer_receiver timer \<noteq> None \<and> now \<in> set marks
      | Some h \<Rightarrow> handle_ok now p marks (queue \<noteq> []) h)"

lemma final_period_reset: "set cs \<subseteq> {Reset} \<Longrightarrow> final_period p cs = p"
  by (induction cs) auto

text \<open>The timer's task runs.\<close>

lemma timer_ok_run:
  assumes ok: "timer_ok now p marks queue timer" and h: "timer_task timer = Some h"
    and run: "run_handle sf now h queue False = (h', rest)"
  shows "timer_ok now p marks rest (timer\<lparr>timer_task := Some h'\<rparr>)"
proof -
  have cs: "final_period p queue = p" using ok by (intro final_period_reset) (simp add: timer_ok_def)
  have armed: "handle_ok now p marks False (Running (arm now p))" if "now \<in> set marks"
    using that ok as_millis_pos [of p]
    by (auto simp: timer_ok_def arm_def on_time_def due_after_def)
  have hok: "handle_ok now p marks (queue \<noteq> []) h" using ok h by (simp add: timer_ok_def)
  have "handle_ok now p marks (rest \<noteq> []) h' \<and> (rest = [] \<or> rest = queue)"
    using hok
  proof (cases "(now, p, marks, queue \<noteq> [], h)" rule: handle_ok.cases)
    case (1 now' p' marks' pending q)
    with run hok armed cs show ?thesis by (auto simp: poll_starting simp del: poll_task.simps)
  next
    case (2 now' p' marks' pending q)
    then have poll: "poll_task sf now (AwaitingCommand p) queue False = (TaskPending (AwaitingCommand p), [])"
      using ok hok by (subst poll_zero) (simp_all add: timer_ok_def)
    then show ?thesis using run hok 2 by (auto simp del: poll_task.simps)
  next
    case (3 now' p' marks' pending q d)
    then have "Timer_Spec.task_ok (Selecting p d)" using hok by (simp add: on_time_def)
    with 3 run hok cs armed ok show ?thesis
      using poll_armed [of "Selecting p d" p d sf now queue]
      by (auto simp: timer_ok_def due_after_def split: if_splits simp del: poll_task.simps)
  next
    case (4 now' p' marks' pending q)
    with run hok cs show ?thesis
      by (auto simp: poll_starting arm_def on_time_def simp del: poll_task.simps)
  next
    case (5 now' p' marks' pending q d)
    then have "Timer_Spec.task_ok (Selecting p d)" "\<not> d \<le> now" using hok as_millis_pos [of p] by (auto simp: on_time_def)
    with 5 run hok cs show ?thesis
      using poll_armed [of "Selecting p d" p d sf now queue]
      by (auto simp: arm_def on_time_def split: if_splits simp del: poll_task.simps)
  qed simp_all
  with ok show ?thesis by (auto simp: timer_ok_def)
qed

text \<open>The timer is read: nothing yet, or a firing on time, which starts it anew.\<close>

lemma timer_ok_poll:
  assumes ok: "timer_ok now p marks queue timer" and poll: "poll_next id timer = (out, timer')"
  obtains (pending) "out = Ret PollPending" "timer_ok now p marks queue timer'"
  | (fired) "out = Ret (PollReady (Some ()))" "timer_ok now p (now # marks) queue timer'"
      "on_time p marks now" "due_after p marks True now now"
proof (cases "timer_task timer")
  case None
  with ok poll show thesis
    by (intro pending) (auto simp: timer_ok_def poll_next_def initialise_def Let_def split: option.splits)
next
  case (Some h)
  then have hok: "handle_ok now p marks (queue \<noteq> []) h" using ok by (simp add: timer_ok_def)
  show thesis
  proof (cases h)
    case (Running task)
    with ok poll Some show thesis
      by (intro pending) (auto simp: poll_next_def poll_existing_task_def)
  next
    case (Completed h')
    with poll Some have out: "out = Ret (PollReady (Some ()))" "timer' = timer\<lparr>timer_task := Some h'\<rparr>"
      by (simp_all add: poll_next_def poll_existing_task_def)
    have "on_time p marks now \<and> due_after p marks True now now \<and> handle_ok now p (now # marks) (queue \<noteq> []) h'"
      using hok ok unfolding Completed
      by (cases "(now, p, marks, queue \<noteq> [], Completed h')" rule: handle_ok.cases)
        (auto simp: on_time_def due_after_def timer_ok_def)
    with ok out show thesis by (intro fired) (auto simp: timer_ok_def)
  qed
qed

text \<open>It is reset, and time passes.\<close>

lemma timer_ok_mark:
  assumes "timer_ok now p marks queue timer" "queue' = queue @ [Reset]"
  shows "timer_ok now p (now # marks) queue' timer"
proof -
  have "handle_ok now p (now # marks) True h" if "handle_ok now p marks (queue \<noteq> []) h" for h
    using that by (cases "(now, p, marks, queue \<noteq> [], h)" rule: handle_ok.cases)
      (auto simp: on_time_def due_after_def)
  with assms show ?thesis by (auto simp: timer_ok_def split: option.splits)
qed

lemma timer_ok_time:
  assumes "timer_ok now p marks [] timer" "timer_task timer = Some (Running task)" "asleep task"
    and "case due task of Some d \<Rightarrow> now + dt \<le> d | None \<Rightarrow> True"
  shows "timer_ok (now + dt) p marks [] timer"
proof -
  have "handle_ok now p marks False (Running task)" using assms(1,2) by (simp add: timer_ok_def)
  with assms(3,4) have "handle_ok (now + dt) p marks False (Running task)"
    by (cases task) (auto simp: due_after_def)
  with assms(1,2) show ?thesis by (fastforce simp: timer_ok_def)
qed

lemma timer_ok_bound:
  assumes "timer_ok now p marks queue timer" "as_millis p \<noteq> 0"
  shows "\<exists>x \<in> set marks. now \<le> x + p"
proof (cases "timer_task timer")
  case None
  with assms show ?thesis by (force simp: timer_ok_def)
next
  case (Some h)
  then have "handle_ok now p marks (queue \<noteq> []) h" using assms(1) by (simp add: timer_ok_def)
  then show ?thesis
    using assms(2) by (cases "(now, p, marks, queue \<noteq> [], h)" rule: handle_ok.cases) (force simp: on_time_def)+
qed


section \<open>What the turns do to the timers' queues\<close>

text \<open>\<open>roles\<close> are the channels of a running session's timers; no turn changes them.\<close>

definition roles :: "broker \<Rightarrow> nat \<Rightarrow> (nat \<times> nat) option" where
  "roles b i = map_option (\<lambda>s. (heart s, watch s)) (sessions b i)"

definition rest_of :: "runtime \<Rightarrow> nat \<times> (pointer \<times> nat ResettableTimer) list" where
  "rest_of w = (rt_next w, rt_listeners w)"

lemma keeps_rest_of:
  "keeps rest_of (handle_event rt_env s e)"
  "keeps rest_of (handle_action rt_subscriber async_sender iter u bk a)"
  by (rule keeps_if_preserves, rule preserves_handle_event preserves_handle_action;
      simp add: preserves_def rest_of_def rt_send_defs fifo_send_def rt_spawn_def)+

lemma keeps_commands: "keeps rt_commands (handle_action rt_subscriber async_sender iter u bk a)"
  by (rule keeps_if_preserves, rule preserves_handle_action) (simp add: preserves_def rt_send_defs fifo_send_def)

lemma session_turn_net:
  obtains (on) "net (session_turn i s e b) = snd (handle_event rt_env s e (net b))"
      "roles (session_turn i s e b) i = Some (heart s, watch s)"
  | (off) "net (session_turn i s e b) = (snd (handle_event rt_env s e (net b)))
        \<lparr>rt_events := mb_close i (rt_events (snd (handle_event rt_env s e (net b))))\<rparr>"
      "roles (session_turn i s e b) i = None"
proof -
  obtain out w' where run: "handle_event rt_env s e (net b) = (out, w')"
    by (cases "handle_event rt_env s e (net b)")
  show thesis
  proof (cases out)
    case (Panic msg)
    with run show thesis by (intro off) (simp_all add: session_turn_def Let_def end_session_def roles_def)
  next
    case (Ret rs)
    obtain r s' where rs: "rs = (r, s')" by (cases rs)
    then have "heart s' = heart s" "watch s' = watch s"
      using handle_event_state [of rt_env s e "net b" r s' w'] run Ret by (simp_all add: heart_def watch_def)
    then show thesis
      using run Ret rs on off
      by (cases "not_dead r") (simp_all add: session_turn_def Let_def end_session_def roles_def)
  qed
qed

lemma session_turn_others [simp]: "j \<noteq> i \<Longrightarrow> sessions (session_turn i s e b) j = sessions b j"
  by (simp add: session_turn_def end_session_def Let_def split: prod.split outcome.split)

lemma handle_event_rest:
  "rt_next (snd (handle_event rt_env s e w)) = rt_next w"
  "rt_listeners (snd (handle_event rt_env s e w)) = rt_listeners w"
  using keeps_rest_of(1) [of s e] by (auto simp: keeps_def rest_of_def)

lemma handle_event_queues:
  "mb_queue (rt_commands (snd (handle_event rt_env s e w))) c = mb_queue (rt_commands w) c @
    (if mb_open (rt_commands w) c \<and> (resets_client e \<and> c = watch s \<or> resets_server e \<and> c = heart s)
     then [Reset] else [])"
proof -
  have "unbounded_sender (env_command_send rt_env) (\<lambda>t w. mb_open (rt_commands w) t) (\<lambda>t w. mb_queue (rt_commands w) t)"
    by (simp add: rt_command.unbounded_sender_axioms)
  from handle_event_commands [OF this rt_outside, of c s e w] show ?thesis
    by (simp add: heart_def watch_def)
qed

lemma session_turn_commands:
  "mb_queue (rt_commands (net (session_turn i s e b))) c = mb_queue (rt_commands (net b)) c @
    (if mb_open (rt_commands (net b)) c \<and> (resets_client e \<and> c = watch s \<or> resets_server e \<and> c = heart s)
     then [Reset] else [])"
  "rt_next (net (session_turn i s e b)) = rt_next (net b)"
  "rt_listeners (net (session_turn i s e b)) = rt_listeners (net b)"
  by (rule session_turn_net [of i s e b]; simp add: handle_event_queues handle_event_rest)+

text \<open>A queue of events only grows, but for the session that takes from it or ends.\<close>

lemma session_turn_events:
  assumes "x \<in> set (mb_queue (rt_events (net b)) j)" "j \<noteq> i \<or> roles (session_turn i s e b) i \<noteq> None"
  shows "x \<in> set (mb_queue (rt_events (net (session_turn i s e b))) j)"
proof -
  have "preserves (\<lambda>w. x \<in> set (mb_queue (rt_events w) j)) (handle_event rt_env s e)"
    by (rule preserves_handle_event)
      (simp_all add: preserves_def rt_send_defs fifo_send_def rt_spawn_def)
  then have "x \<in> set (mb_queue (rt_events (snd (handle_event rt_env s e (net b)))) j)"
    using assms(1) by (rule preserves_snd)
  with assms(2) show ?thesis by (cases rule: session_turn_net [of i s e b]) auto
qed

text \<open>The turns of the destinations leave the timers alone.\<close>

lemma backend_turn_keeps:
  "rt_commands (backend_turn iter d u bk a w) = rt_commands w"
  "rt_next (backend_turn iter d u bk a w) = rt_next w"
  "rt_listeners (backend_turn iter d u bk a w) = rt_listeners w"
  "x \<in> set (mb_queue (rt_events w) j) \<Longrightarrow> x \<in> set (mb_queue (rt_events (backend_turn iter d u bk a w)) j)"
proof -
  let ?w = "w\<lparr>rt_actions := mb_take d (rt_actions w)\<rparr>"
  obtain out w' where run: "handle_action rt_subscriber async_sender iter u bk a ?w = (out, w')"
    by (cases "handle_action rt_subscriber async_sender iter u bk a ?w")
  have same: "rt_commands w' = rt_commands w" "rt_next w' = rt_next w" "rt_listeners w' = rt_listeners w"
    using keeps_commands [of iter u bk a] keeps_rest_of(2) [of iter u bk a] run
    by (auto simp: keeps_def rest_of_def dest!: spec [of _ ?w])
  have "preserves (\<lambda>w. x \<in> set (mb_queue (rt_events w) j)) (handle_action rt_subscriber async_sender iter u bk a)"
    by (rule preserves_handle_action) (simp add: preserves_def rt_send_defs fifo_send_def)
  then have more: "x \<in> set (mb_queue (rt_events w) j) \<Longrightarrow> x \<in> set (mb_queue (rt_events w') j)"
    using run by (auto simp: preserves_def dest!: spec [of _ ?w])
  show "rt_commands (backend_turn iter d u bk a w) = rt_commands w"
    "rt_next (backend_turn iter d u bk a w) = rt_next w"
    "rt_listeners (backend_turn iter d u bk a w) = rt_listeners w"
    "x \<in> set (mb_queue (rt_events w) j) \<Longrightarrow> x \<in> set (mb_queue (rt_events (backend_turn iter d u bk a w)) j)"
    by (cases rule: backend_turn_cases [OF run]; simp add: same more)+
qed

lemma subscribe_task_keeps:
  fixes task w
  defines "w' \<equiv> snd (run_subscribe_task rt_map rt_destination rt_registry_handle task w)"
  shows "rt_commands w' = rt_commands w" "rt_next w \<le> rt_next w'" "rt_listeners w' = rt_listeners w"
    "x \<in> set (mb_queue (rt_events w) j) \<Longrightarrow> x \<in> set (mb_queue (rt_events w') j)"
proof -
  let ?I = "\<lambda>v. rt_commands v = rt_commands w \<and> rt_next w \<le> rt_next v \<and> rt_listeners v = rt_listeners w \<and>
    (x \<in> set (mb_queue (rt_events w) j) \<longrightarrow> x \<in> set (mb_queue (rt_events v) j))"
  have "preserves ?I (run_subscribe_task rt_map rt_destination rt_registry_handle task)"
    by (rule preserves_run_subscribe_task)
      (auto simp: preserves_def rt_get_eq rt_send_defs fifo_send_def split: option.split)
  then have "?I w'" unfolding w'_def by (rule preserves_snd) simp
  then show "rt_commands w' = rt_commands w" "rt_next w \<le> rt_next w'" "rt_listeners w' = rt_listeners w"
    "x \<in> set (mb_queue (rt_events w) j) \<Longrightarrow> x \<in> set (mb_queue (rt_events w') j)"
    by blast+
qed


section \<open>The invariant\<close>

text \<open>The periods a client has asked for: between what it is told, and, with the buffer, between what it says.\<close>

definition heart_period :: "timed \<Rightarrow> nat \<Rightarrow> duration" where
  "heart_period t i = from_millis (unat (expected (intervals t i)))"

definition watch_period :: "timed \<Rightarrow> nat \<Rightarrow> duration" where
  "watch_period t i = from_millis (unat (the (heartbeat_with_buffer False (supplied (intervals t i)))))"

text \<open>Channels belong to one timer, and a waiting listener to the watch of its session.\<close>

definition channels_ok :: "timed \<Rightarrow> bool" where
  "channels_ok t \<longleftrightarrow>
     (\<forall>i h w. roles (srv t) i = Some (h, w) \<longrightarrow>
        i \<in> set (admitted t) \<and> i < rt_next (net (srv t)) \<and> h < rt_next (net (srv t)) \<and> w < rt_next (net (srv t)) \<and> h \<noteq> w) \<and>
     (\<forall>i j h w h' w'. roles (srv t) i = Some (h, w) \<longrightarrow> roles (srv t) j = Some (h', w') \<longrightarrow> i \<noteq> j \<longrightarrow>
        h \<noteq> h' \<and> h \<noteq> w' \<and> w \<noteq> w') \<and>
     (\<forall>i c. (i, c) \<in> set (waiting t) \<longrightarrow> i < rt_next (net (srv t)) \<and> c < rt_next (net (srv t)) \<and>
        (\<exists>timer. (\<lparr>client_sender = i\<rparr>, timer) \<in> set (rt_listeners (net (srv t)))) \<and>
        (\<forall>j h w. roles (srv t) j = Some (h, w) \<longrightarrow> c \<noteq> h \<and> (c = w \<longleftrightarrow> j = i)))"

definition served :: "timed \<Rightarrow> nat \<Rightarrow> duration \<Rightarrow> instant list \<Rightarrow> bool" where
  "served t c p marks \<longleftrightarrow> (\<exists>timer. map_of (timers t) c = Some timer \<and> timer_ok (clock t) p marks (commands_at t c) timer)"

fun ending :: "ClientEvent \<Rightarrow> bool" where
  "ending EvClose \<longleftrightarrow> True"
| "ending (EvError m) \<longleftrightarrow> True"
| "ending _ \<longleftrightarrow> False"

definition watched :: "timed \<Rightarrow> nat \<Rightarrow> nat \<Rightarrow> bool" where
  "watched t i c \<longleftrightarrow>
     (if (i, c) \<in> set (waiting t) then served t c (watch_period t i) (heard t i)
      else as_millis (watch_period t i) \<noteq> 0 \<and> (\<exists>x \<in> set (heard t i). clock t \<le> x + watch_period t i) \<and>
        (\<exists>e \<in> set (mb_queue (rt_events (net (srv t))) i). ending e))"

definition history_ok :: "timed \<Rightarrow> bool" where
  "history_ok t \<longleftrightarrow> (\<forall>i.
     (\<forall>a \<in> set (beats t i). a \<le> clock t \<and> (\<forall>x \<in> set (told t i). x + heart_period t i \<le> a \<or> a \<le> x)) \<and>
     (\<forall>a \<in> set (alarms t i). a \<le> clock t \<and> (\<forall>x \<in> set (heard t i). x + watch_period t i \<le> a \<or> a \<le> x)))"

definition timed_ok :: "timed \<Rightarrow> bool" where
  "timed_ok t \<longleftrightarrow> reachable (srv t) \<and> channels_ok t \<and> history_ok t \<and>
     (\<forall>i h w. roles (srv t) i = Some (h, w) \<longrightarrow>
        served t h (heart_period t i) (told t i) \<and> watched t i w)"

lemma periods_simps [simp]:
  "heart_period (srv_update f t) = heart_period t" "heart_period (clock_update g t) = heart_period t"
  "heart_period (timers_update k t) = heart_period t" "heart_period (waiting_update l t) = heart_period t"
  "heart_period (heard_update m t) = heart_period t" "heart_period (told_update m t) = heart_period t"
  "heart_period (alarms_update m t) = heart_period t" "heart_period (beats_update m t) = heart_period t"
  "watch_period (srv_update f t) = watch_period t" "watch_period (clock_update g t) = watch_period t"
  "watch_period (timers_update k t) = watch_period t" "watch_period (waiting_update l t) = watch_period t"
  "watch_period (heard_update m t) = watch_period t" "watch_period (told_update m t) = watch_period t"
  "watch_period (alarms_update m t) = watch_period t" "watch_period (beats_update m t) = watch_period t"
  by (simp_all add: heart_period_def watch_period_def fun_eq_iff)

lemma channels_okD:
  assumes "channels_ok t" "roles (srv t) i = Some (h, w)"
  shows "i \<in> set (admitted t)" "i < rt_next (net (srv t))" "h < rt_next (net (srv t))" "w < rt_next (net (srv t))"
    "h \<noteq> w" "roles (srv t) j = Some (h', w') \<Longrightarrow> i \<noteq> j \<Longrightarrow> h \<noteq> h' \<and> h \<noteq> w' \<and> w \<noteq> h' \<and> w \<noteq> w'"
    "(k, c) \<in> set (waiting t) \<Longrightarrow> c \<noteq> h \<and> (c = w \<longleftrightarrow> i = k)"
  using assms unfolding channels_ok_def by metis+

lemma channels_ok_mono:
  assumes "channels_ok t" "\<And>j. roles (srv t') j = None \<or> roles (srv t') j = roles (srv t) j"
    and "admitted t' = admitted t" "rt_next (net (srv t)) \<le> rt_next (net (srv t'))"
    and "set (waiting t') \<subseteq> set (waiting t)" "rt_listeners (net (srv t')) = rt_listeners (net (srv t))"
  shows "channels_ok t'"
proof -
  have old: "roles (srv t) j = Some r" if "roles (srv t') j = Some r" for j r
    using assms(2) [of j] that by auto
  have waits: "(\<exists>timer. (\<lparr>client_sender = i\<rparr>, timer) \<in> set (rt_listeners (net (srv t)))) \<and>
      i < rt_next (net (srv t)) \<and> c < rt_next (net (srv t))" if "(i, c) \<in> set (waiting t')" for i c
    using assms(1,5) that unfolding channels_ok_def by blast
  have later: "n < rt_next (net (srv t'))" if "n < rt_next (net (srv t))" for n
    using that assms(4) by simp
  note at = channels_okD [OF assms(1) old]
  show ?thesis
    unfolding channels_ok_def assms(3,6)
  proof (intro conjI allI impI)
    fix i h w j h' w'
    assume "roles (srv t') i = Some (h, w)" "roles (srv t') j = Some (h', w')" "i \<noteq> j"
    then show "h \<noteq> h'" "h \<noteq> w'" "w \<noteq> w'" using at(6) old by blast+
  next
    fix i c j h w
    assume "(i, c) \<in> set (waiting t')" "roles (srv t') j = Some (h, w)"
    then show "c \<noteq> h" "c = w \<longleftrightarrow> j = i" using at(7) assms(5) by blast+
  qed (use at(1-5) later waits in blast)+
qed

lemma served_cong:
  assumes "map_of (timers t') c = map_of (timers t) c" "commands_at t' c = commands_at t c" "clock t' = clock t"
  shows "served t' c = served t c"
  using assms by (simp add: served_def fun_eq_iff)

lemma served_mark:
  assumes "served t c p marks" "map_of (timers t') c = map_of (timers t) c" "clock t' = clock t"
    and "commands_at t' c = commands_at t c @ [Reset]"
  shows "served t' c p (clock t # marks)"
  using assms timer_ok_mark [OF _ assms(4)] unfolding served_def by metis

lemma history_frame [simp]:
  "served (told_update f t) = served t" "watched (told_update f t) = watched t"
  "served (beats_update f t) = served t" "served (alarms_update f t) = served t"
  "watched (beats_update f t) = watched t" "watched (alarms_update f t) = watched t"
  "channels_ok (beats_update f t) = channels_ok t" "channels_ok (alarms_update f t) = channels_ok t"
  by (simp_all add: served_def watched_def channels_ok_def fun_eq_iff)

lemma watched_mono:
  assumes "watched t i c" "map_of (timers t') c = map_of (timers t) c" "commands_at t' c = commands_at t c"
    and "clock t' = clock t" "intervals t' = intervals t" "heard t' i = heard t i"
    and "(i, c) \<in> set (waiting t') \<longleftrightarrow> (i, c) \<in> set (waiting t)"
    and "\<And>x. x \<in> set (mb_queue (rt_events (net (srv t))) i) \<Longrightarrow> ending x \<Longrightarrow>
      \<exists>y \<in> set (mb_queue (rt_events (net (srv t'))) i). ending y"
  shows "watched t' i c"
proof -
  have "watch_period t' = watch_period t" by (simp add: watch_period_def assms(5) fun_eq_iff)
  with served_cong [OF assms(2-4)] assms show ?thesis by (auto simp: watched_def)
qed

text \<open>A turn that leaves sessions and timers alone.\<close>

lemma timed_ok_world:
  assumes ok: "timed_ok t" and reach: "reachable (srv t\<lparr>net := v\<rparr>)" and commands: "rt_commands v = rt_commands (net (srv t))"
    and next_channel: "rt_next (net (srv t)) \<le> rt_next v" and listeners: "rt_listeners v = rt_listeners (net (srv t))"
    and events: "\<And>x j. x \<in> set (mb_queue (rt_events (net (srv t))) j) \<Longrightarrow> x \<in> set (mb_queue (rt_events v) j)"
  shows "timed_ok (t\<lparr>srv := (srv t)\<lparr>net := v\<rparr>\<rparr>)"
proof -
  let ?t = "t\<lparr>srv := (srv t)\<lparr>net := v\<rparr>\<rparr>"
  have roles: "roles (srv ?t) = roles (srv t)" by (simp add: roles_def fun_eq_iff)
  have "channels_ok ?t"
    by (rule channels_ok_mono [of t]) (use ok next_channel listeners in \<open>simp_all add: timed_ok_def roles [simplified]\<close>)
  moreover have "history_ok ?t" using ok by (simp add: timed_ok_def history_ok_def)
  moreover have "served ?t = served t" by (simp add: served_def fun_eq_iff commands)
  moreover have "watched ?t i w" if "watched t i w" for i w
    by (rule watched_mono [OF that]) (use events in \<open>auto simp: commands\<close>)
  ultimately show ?thesis
    using ok reach by (auto simp: timed_ok_def roles [simplified])
qed


section \<open>A session's turn\<close>

lemma ending_turn:
  assumes "ending e" "client_proxy s = \<lparr>client_sender = i\<rparr>" "mb_open (rt_events (net b)) i"
    and "roles (session_turn i s e b) i \<noteq> None"
  shows "EvClose \<in> set (mb_queue (rt_events (net (session_turn i s e b))) i)"
proof (cases rule: session_turn_net [of i s e b])
  case on
  from assms(1) show ?thesis
  proof (cases e rule: ending.cases)
    case 1
    then show ?thesis
      using assms(4) by (simp add: session_turn_def handle_event_def Let_def not_dead_def end_session_def roles_def)
  next
    case (2 m)
    then show ?thesis
      unfolding on(1) using assms(2,3)
      by (simp add: handle_event_def session_error_def send_event_def then_io_def bind_io_def
          rt_event_send_def fifo_send_def)
  qed simp_all
qed (use assms(4) in simp)

lemma history_ok_mark:
  assumes "history_ok t" "clock t' = clock t" "intervals t' = intervals t" "alarms t' = alarms t" "beats t' = beats t"
    and "\<And>j. set (heard t' j) \<subseteq> insert (clock t) (set (heard t j))"
    and "\<And>j. set (told t' j) \<subseteq> insert (clock t) (set (told t j))"
  shows "history_ok t'"
proof -
  have "heart_period t' = heart_period t" "watch_period t' = watch_period t"
    by (simp_all add: heart_period_def watch_period_def assms(3) fun_eq_iff)
  then show ?thesis
    using assms(1) assms(6,7)
    unfolding history_ok_def assms(2,4,5) by (metis insert_iff subset_iff)
qed

text \<open>What a turn adds to the client's items.\<close>

lemma session_turn_items:
  assumes "items = drop (length (outbox b i)) (outbox (session_turn i s e b) i)"
  shows "\<exists>m \<in> set items. tells m \<Longrightarrow> resets_server e \<or> e = EvHeartbeat"
    "\<exists>m \<in> set items. is_beat m \<Longrightarrow> e = EvHeartbeat"
    "resets_server e \<or> e = EvHeartbeat \<Longrightarrow> roles (session_turn i s e b) i \<noteq> None \<Longrightarrow> \<exists>m \<in> set items. tells m"
    "e = EvHeartbeat \<Longrightarrow> \<exists>m \<in> set items. is_beat m"
proof -
  obtain out w' where run: "handle_event rt_env s e (net b) = (out, w')"
    by (cases "handle_event rt_env s e (net b)")
  consider (on) r s' where "out = Ret (r, s')" "not_dead r" "items = result_output r"
    | (off) "items = []" "roles (session_turn i s e b) i = None"
  proof (cases out)
    case (Panic msg)
    then show thesis
      using run by (intro off) (simp_all add: assms session_turn_def Let_def end_session_def roles_def)
  next
    case (Ret rs)
    obtain r s' where rs: "rs = (r, s')" by (cases rs)
    show thesis
    proof (cases "not_dead r")
      case True
      then show thesis using run Ret rs by (intro on) (simp_all add: assms session_turn_def Let_def)
    next
      case False
      then show thesis
        using run Ret rs by (intro off) (simp_all add: assms session_turn_def Let_def end_session_def roles_def)
    qed
  qed
  note cases = this
  have items: "(\<exists>m \<in> set (result_output r). tells m) \<longleftrightarrow> resets_server e \<or> e = EvHeartbeat"
    "(\<exists>m \<in> set (result_output r). is_beat m) \<longleftrightarrow> e = EvHeartbeat" if "out = Ret (r, s')" for r s'
    using run that
    by (cases e; auto simp: handler_defs Let_def result_output_def then_io_def bind_io_eq_Ret_iff
        split: sum.splits ClientFrame.splits option.splits)+
  show "\<exists>m \<in> set items. tells m \<Longrightarrow> resets_server e \<or> e = EvHeartbeat"
    "\<exists>m \<in> set items. is_beat m \<Longrightarrow> e = EvHeartbeat"
    "resets_server e \<or> e = EvHeartbeat \<Longrightarrow> roles (session_turn i s e b) i \<noteq> None \<Longrightarrow> \<exists>m \<in> set items. tells m"
    by (rule cases; use items in auto)+
  show "e = EvHeartbeat \<Longrightarrow> \<exists>m \<in> set items. is_beat m"
    using run by (auto simp: assms session_turn_def Let_def handle_event_def send_heartbeat_def not_dead_def result_output_def)
qed

text \<open>What the lemmas on \<open>timed_turn\<close> rest on: the session \<open>s\<close> handles \<open>e\<close> in \<open>b\<close>, from whose queue it has been taken.\<close>

definition turn_fits :: "timed \<Rightarrow> nat \<Rightarrow> session \<Rightarrow> ClientEvent \<Rightarrow> broker \<Rightarrow> bool" where
  "turn_fits t i s e b \<longleftrightarrow> channels_ok t \<and> history_ok t \<and> reachable (srv t) \<and> sessions (srv t) i = Some s \<and>
     sessions b = sessions (srv t) \<and> rt_commands (net b) = rt_commands (net (srv t)) \<and>
     rt_next (net b) = rt_next (net (srv t)) \<and> rt_listeners (net b) = rt_listeners (net (srv t)) \<and>
     mb_open (rt_events (net b)) = mb_open (rt_events (net (srv t))) \<and>
     (\<forall>j. \<forall>x \<in> set (mb_queue (rt_events (net (srv t))) j). x \<in> set (mb_queue (rt_events (net b)) j) \<or> j = i \<and> x = e)"

lemma turn_fitsD:
  assumes "turn_fits t i s e b"
  shows "channels_ok t" "history_ok t" "sessions b = sessions (srv t)" "rt_commands (net b) = rt_commands (net (srv t))"
    "rt_next (net b) = rt_next (net (srv t))" "rt_listeners (net b) = rt_listeners (net (srv t))"
    "x \<in> set (mb_queue (rt_events (net (srv t))) j) \<Longrightarrow> x \<in> set (mb_queue (rt_events (net b)) j) \<or> j = i \<and> x = e"
    "roles (srv t) i = Some (heart s, watch s)" "client_proxy s = \<lparr>client_sender = i\<rparr>" "mb_open (rt_events (net b)) i"
    "mb_open (rt_commands (net (srv t))) (heart s)" "mb_open (rt_commands (net (srv t))) (watch s)"
proof -
  have s: "sessions (srv t) i = Some s" "reachable (srv t)" using assms by (simp_all add: turn_fits_def)
  then show "roles (srv t) i = Some (heart s, watch s)" by (simp add: roles_def)
  from s reachable_alive_ok reachable_ok
  show "client_proxy s = \<lparr>client_sender = i\<rparr>" "mb_open (rt_events (net b)) i"
    "mb_open (rt_commands (net (srv t))) (heart s)" "mb_open (rt_commands (net (srv t))) (watch s)"
    using assms by (auto simp: turn_fits_def alive_ok_def timers_up_def heart_def watch_def broker_ok_def session_ok_def)
qed (use assms in \<open>auto simp: turn_fits_def\<close>)

lemma timed_turn_frame:
  "srv (timed_turn i s e b t) = session_turn i s e b" "clock (timed_turn i s e b t) = clock t"
  "waiting (timed_turn i s e b t) = waiting t" "admitted (timed_turn i s e b t) = admitted t"
  "intervals (timed_turn i s e b t) = intervals t" "alarms (timed_turn i s e b t) = alarms t"
  "heard (timed_turn i s e b t) j = (if j = i \<and> resets_client e then clock t # heard t j else heard t j)"
  "heart_period (timed_turn i s e b t) = heart_period t" "watch_period (timed_turn i s e b t) = watch_period t"
  by (simp_all add: timed_turn_def Let_def heart_period_def watch_period_def fun_eq_iff)

lemma turn_roles:
  assumes "turn_fits t i s e b"
  shows "roles (session_turn i s e b) j = None \<or> roles (session_turn i s e b) j = roles (srv t) j"
proof (cases "j = i")
  case True
  then show ?thesis using turn_fitsD(8) [OF assms] by (auto intro: session_turn_net [of i s e b])
next
  case False
  then show ?thesis using turn_fitsD(3) [OF assms] by (simp add: roles_def)
qed

lemma turn_told:
  assumes "roles (session_turn i s e b) j = Some r"
  shows "told (timed_turn i s e b t) j =
    (if j = i \<and> (resets_server e \<or> e = EvHeartbeat) then clock t # told t j else told t j)"
  using session_turn_items(1,3) [OF refl, where b = b and i = i and s = s and e = e] assms by (auto simp: timed_turn_def Let_def)

lemma turn_timers:
  assumes fits: "turn_fits t i s e b" and now: "roles (session_turn i s e b) j = Some (h, w)" and "c = h \<or> c = w"
  shows "map_of (timers (timed_turn i s e b t)) c = map_of (timers t) c"
proof (cases "sessions (session_turn i s e b) i")
  case None
  then have j: "j \<noteq> i" using now by (auto simp: roles_def)
  have "roles (srv t) j = Some (h, w)" using turn_roles [OF fits, of j] now by auto
  then have "heart s \<noteq> c"
    using channels_okD(6) [OF turn_fitsD(1) [OF fits] _ turn_fitsD(8) [OF fits]] j assms(3) by auto
  then show ?thesis using None by (simp add: timed_turn_def Let_def delete_conv')
qed (simp add: timed_turn_def Let_def)

lemma turn_commands:
  assumes fits: "turn_fits t i s e b" and was: "roles (srv t) j = Some (h, w)"
  shows "commands_at (timed_turn i s e b t) h = commands_at t h @ (if j = i \<and> resets_server e then [Reset] else [])"
    "commands_at (timed_turn i s e b t) w = commands_at t w @ (if j = i \<and> resets_client e then [Reset] else [])"
proof -
  note ch = channels_okD [OF turn_fitsD(1) [OF fits] was]
  have own: "h = heart s \<and> w = watch s \<and> heart s \<noteq> watch s" if "j = i"
    using that turn_fitsD(8) [OF fits] was ch(5) by simp
  have other: "heart s \<noteq> h \<and> heart s \<noteq> w \<and> watch s \<noteq> h \<and> watch s \<noteq> w" if "j \<noteq> i"
    using ch(6) [OF turn_fitsD(8) [OF fits] that] by auto
  show "commands_at (timed_turn i s e b t) h = commands_at t h @ (if j = i \<and> resets_server e then [Reset] else [])"
    "commands_at (timed_turn i s e b t) w = commands_at t w @ (if j = i \<and> resets_client e then [Reset] else [])"
    unfolding timed_turn_frame session_turn_commands turn_fitsD(4) [OF fits]
    using own other turn_fitsD(11,12) [OF fits] by (cases "j = i"; auto)+
qed

lemma history_ok_turn:
  assumes hist: "history_ok t"
    and beat: "e = EvHeartbeat \<Longrightarrow> due_after (heart_period t i) (told t i) True (clock t) (clock t)"
  shows "history_ok (timed_turn i s e b t)"
proof -
  let ?t = "timed_turn i s e b t"
  define items where "items = drop (length (outbox b i)) (outbox (session_turn i s e b) i)"
  have told: "told ?t = (if \<exists>m \<in> set items. tells m then (told t)(i := clock t # told t i) else told t)"
    and beats: "beats ?t = (if \<exists>m \<in> set items. is_beat m then (beats t)(i := clock t # beats t i) else beats t)"
    by (simp_all add: timed_turn_def Let_def items_def)
  let ?u = "?t\<lparr>beats := beats t\<rparr>"
  have old: "history_ok ?u"
    by (rule history_ok_mark [OF hist]) (auto simp: timed_turn_def Let_def split: if_splits)
  show ?thesis
  proof (cases "\<exists>m \<in> set items. is_beat m")
    case True
    then have "due_after (heart_period t i) (told t i) True (clock t) (clock t)"
      using session_turn_items(2) [OF items_def] beat by blast
    then show ?thesis
      using old True by (auto simp: history_ok_def beats told timed_turn_frame due_after_def)
  next
    case False
    then have "?u = ?t" using beats by simp
    with old show ?thesis by simp
  qed
qed

lemma served_turn:
  assumes fits: "turn_fits t i s e b" and now: "roles (session_turn i s e b) j = Some (h, w)"
    and old: "served t h (heart_period t j) (if j = i \<and> e = EvHeartbeat then clock t # told t j else told t j)"
  shows "served (timed_turn i s e b t) h (heart_period t j) (told (timed_turn i s e b t) j)"
proof -
  let ?t = "timed_turn i s e b t"
  have was: "roles (srv t) j = Some (h, w)" using turn_roles [OF fits, of j] now by auto
  note timers = turn_timers [OF fits now disjI1 [OF refl]]
  show ?thesis
  proof (cases "j = i \<and> resets_server e")
    case True
    then have "served t h (heart_period t j) (told t j)" using old by (cases e) auto
    then have "served ?t h (heart_period t j) (clock t # told t j)"
      by (rule served_mark [OF _ timers timed_turn_frame(2)]) (use turn_commands(1) [OF fits was] True in simp)
    then show ?thesis unfolding turn_told [OF now] using True by simp
  next
    case False
    then have "served ?t h = served t h"
      by (intro ext served_cong [OF timers _ timed_turn_frame(2)]) (use turn_commands(1) [OF fits was] in simp)
    with old False show ?thesis unfolding turn_told [OF now] by (auto split: if_splits)
  qed
qed

lemma ending_kept:
  assumes fits: "turn_fits t i s e b" and now: "roles (session_turn i s e b) j = Some r"
    and x: "x \<in> set (mb_queue (rt_events (net (srv t))) j)" "ending x"
  shows "\<exists>y \<in> set (mb_queue (rt_events (net (session_turn i s e b))) j). ending y"
proof (cases "x \<in> set (mb_queue (rt_events (net b)) j)")
  case True
  then have "x \<in> set (mb_queue (rt_events (net (session_turn i s e b))) j)"
    by (rule session_turn_events) (use now in auto)
  with x(2) show ?thesis by auto
next
  case False
  with turn_fitsD(7) [OF fits x(1)] have "j = i" "x = e" by auto
  then have "EvClose \<in> set (mb_queue (rt_events (net (session_turn i s e b))) i)"
    using ending_turn [OF _ turn_fitsD(9,10) [OF fits]] x(2) now by simp
  then show ?thesis by (auto simp: \<open>j = i\<close> intro: bexI [of _ EvClose])
qed

lemma watched_turn:
  assumes fits: "turn_fits t i s e b" and now: "roles (session_turn i s e b) j = Some (h, w)" and old: "watched t j w"
  shows "watched (timed_turn i s e b t) j w"
proof -
  let ?t = "timed_turn i s e b t"
  have was: "roles (srv t) j = Some (h, w)" using turn_roles [OF fits, of j] now by auto
  note timers = turn_timers [OF fits now disjI2 [OF refl]]
  note queue = turn_commands(2) [OF fits was]
  note ends = ending_kept [OF fits now]
  show ?thesis
  proof (cases "j = i \<and> resets_client e")
    case True
    show ?thesis
    proof (cases "(j, w) \<in> set (waiting t)")
      case waits: True
      with old have "served t w (watch_period t j) (heard t j)" by (simp add: watched_def)
      then have "served ?t w (watch_period t j) (clock t # heard t j)"
        by (rule served_mark [OF _ timers timed_turn_frame(2)]) (use queue True in simp)
      then show ?thesis unfolding watched_def timed_turn_frame using True waits by simp
    next
      case False
      with old True ends show ?thesis unfolding watched_def timed_turn_frame by auto
    qed
  next
    case False
    then show ?thesis
      by (intro watched_mono [OF old timers]) (use queue ends in \<open>auto simp: timed_turn_frame\<close>)
  qed
qed

lemma timed_turn_ok:
  assumes fits: "turn_fits t i s e b" and reach: "reachable (session_turn i s e b)"
    and each: "\<And>j h w. roles (srv t) j = Some (h, w) \<Longrightarrow>
      served t h (heart_period t j) (if j = i \<and> e = EvHeartbeat then clock t # told t j else told t j) \<and> watched t j w"
    and beat: "e = EvHeartbeat \<Longrightarrow> due_after (heart_period t i) (told t i) True (clock t) (clock t)"
  shows "timed_ok (timed_turn i s e b t)"
proof -
  let ?t = "timed_turn i s e b t"
  have "channels_ok ?t"
    by (rule channels_ok_mono [OF turn_fitsD(1) [OF fits]])
      (use turn_roles [OF fits] turn_fitsD(3-6) [OF fits] in \<open>simp_all add: timed_turn_frame session_turn_commands\<close>)
  moreover have "history_ok ?t" using turn_fitsD(2) [OF fits] beat by (rule history_ok_turn)
  moreover have "served ?t h (heart_period t j) (told ?t j) \<and> watched ?t j w"
    if now: "roles (session_turn i s e b) j = Some (h, w)" for j h w
  proof -
    have "roles (srv t) j = Some (h, w)" using turn_roles [OF fits, of j] now by auto
    then show ?thesis using each served_turn [OF fits now] watched_turn [OF fits now] by blast
  qed
  ultimately show ?thesis using reach by (simp add: timed_ok_def timed_turn_frame)
qed


section \<open>The other turns\<close>

text \<open>The tasks of the timers take commands one after the other.\<close>

lemma poll_task_rest: "\<exists>n. snd (poll_task sf now task cs gone) = drop n cs"
proof (induction sf now task cs gone rule: poll_task.induct)
  case (2 sf now p cs gone)
  show ?case
  proof (cases cs)
    case (Cons c rest)
    with 2 obtain n where "snd (poll_task sf now (Starting (command_to_new_period p c)) rest gone) = drop n rest"
      by blast
    with Cons show ?thesis
      by (intro exI [of _ "Suc n"]) (simp del: poll_task.simps add: poll_task.simps(2))
  qed simp
next
  case (3 sf now p d cs gone)
  show ?case
  proof (cases "d \<le> now \<and> (sf \<or> cs = [] \<and> \<not> gone)")
    case True
    then show ?thesis by (auto intro: exI [of _ 0])
  next
    case False
    show ?thesis
    proof (cases cs)
      case Nil
      with False show ?thesis by (auto simp: create_task_no_receiver_def)
    next
      case (Cons c rest)
      with 3(2) [OF False Cons] obtain n
        where "snd (poll_task sf now (Starting (command_to_new_period p c)) rest gone) = drop n rest" by blast
      with Cons False show ?thesis
        by (intro exI [of _ "Suc n"]) (auto simp del: poll_task.simps(1,2))
    qed
  qed
next
  case (4 sf now p d cs gone)
  then show ?case by (auto intro: exI [of _ 0])
qed (auto intro: exI [of _ 0])

lemma run_handle_rest: "\<exists>n. snd (run_handle sf now h cs gone) = drop n cs"
proof (induction h)
  case (Running task)
  then show ?case
    using poll_task_rest [of sf now task cs gone]
    by (auto split: prod.split TaskPoll.split simp del: poll_task.simps)
qed (auto split: prod.split)

lemma reachable_commands_taken:
  assumes "reachable b"
  shows "reachable (b\<lparr>net := (net b)\<lparr>rt_commands := (rt_commands (net b))\<lparr>mb_queue :=
    (mb_queue (rt_commands (net b)))(c := drop n (mb_queue (rt_commands (net b)) c))\<rparr>\<rparr>\<rparr>)"
proof (induction n)
  case 0
  then show ?case using assms by simp
next
  case (Suc n)
  from reachable.step [OF Suc broker_step.timer_task [of _ c]] show ?case
    by (simp add: mb_take_def drop_Suc drop_tl fun_upd_def if_distrib cong: if_cong)
qed

lemma timed_ok_run_timer:
  assumes ok: "timed_ok t" and c: "map_of (timers t) c = Some timer" "timer_task timer = Some h"
  shows "timed_ok (run_timer sf c timer h t)"
proof -
  let ?t = "run_timer sf c timer h t"
  obtain h' rest where run: "run_handle sf (clock t) h (commands_at t c) (resetter_gone t c) = (h', rest)"
    by (cases "run_handle sf (clock t) h (commands_at t c) (resetter_gone t c)")
  obtain n where rest: "rest = drop n (commands_at t c)"
    using run_handle_rest [of sf "clock t" h "commands_at t c" "resetter_gone t c"] run by auto
  have t': "?t = t\<lparr>srv := (srv t)\<lparr>net := (net (srv t))\<lparr>rt_commands := (rt_commands (net (srv t)))\<lparr>mb_queue :=
        (mb_queue (rt_commands (net (srv t))))(c := rest)\<rparr>\<rparr>\<rparr>,
      timers := AList.update c (timer\<lparr>timer_task := Some h'\<rparr>) (timers t)\<rparr>"
    by (simp add: run_timer_def run)
  have "reachable (srv ?t)"
    using ok reachable_commands_taken [of "srv t" c n] by (simp add: t' rest timed_ok_def)
  moreover have roles: "roles (srv ?t) = roles (srv t)" by (simp add: t' roles_def fun_eq_iff)
  have "channels_ok ?t"
    by (rule channels_ok_mono [of t]) (use ok in \<open>simp_all add: timed_ok_def roles\<close>, simp_all add: t')
  moreover have "history_ok ?t" using ok by (simp add: t' timed_ok_def history_ok_def)
  moreover have "served ?t h' (heart_period t i) (told t i) \<and> watched ?t i w" if r: "roles (srv t) i = Some (h', w)" for i h' w
  proof -
    have old: "served t h' (heart_period t i) (told t i)" "watched t i w" "channels_ok t"
      using ok r by (simp_all add: timed_ok_def)
    have kept: "served ?t c p marks" if "served t c p marks" "c = h' \<or> c = w" for p marks
    proof -
      have "\<not> resetter_gone t c"
        using that(2) r channels_okD(1) [OF old(3) r] by (force simp: resetter_gone_def roles_def split: option.split)
      then show ?thesis
        using that(1) c timer_ok_run [of "clock t" p marks "commands_at t c" timer h sf] run
        by (auto simp: served_def t' update_conv')
    qed
    have other: "served ?t x = served t x" if "x \<noteq> c" for x
      by (rule served_cong) (use that in \<open>simp_all add: t' update_conv'\<close>)
    have "served ?t x p marks" if "served t x p marks" "x = h' \<or> x = w" for x p marks
      using that kept other by (cases "x = c") auto
    with old show ?thesis by (auto simp: watched_def t' watch_period_def)
  qed
  moreover have "heart_period ?t = heart_period t" "told ?t = told t" by (simp_all add: t')
  ultimately show ?thesis unfolding timed_ok_def roles by simp
qed


lemma timed_ok_end:
  assumes ok: "timed_ok t" and s: "sessions (srv t) i = Some s"
  shows "timed_ok (timed_end i s t)"
proof -
  let ?t = "timed_end i s t"
  have t': "srv ?t = end_session i (srv t)" "timers ?t = AList.delete (heart s) (timers t)" "clock ?t = clock t"
      "waiting ?t = waiting t" "admitted ?t = admitted t" "intervals ?t = intervals t" "heard ?t = heard t"
      "told ?t = told t" "alarms ?t = alarms t" "beats ?t = beats t"
    by (simp_all add: timed_end_def)
  have periods: "heart_period ?t = heart_period t" "watch_period ?t = watch_period t"
    by (simp_all add: timed_end_def)
  have roles: "roles (srv ?t) j = (if j = i then None else roles (srv t) j)" for j
    by (simp add: t' roles_def end_session_def)
  have mine: "roles (srv t) i = Some (heart s, watch s)" by (simp add: roles_def s)
  have "reachable (srv ?t)"
    unfolding t' using ok s by (auto simp: timed_ok_def intro: reachable.step broker_step.sink_fails)
  moreover have "channels_ok ?t"
    by (rule channels_ok_mono [of t]) (use ok in \<open>simp_all add: timed_ok_def roles\<close>, simp_all add: t' end_session_def)
  moreover have "history_ok ?t" using ok by (simp add: timed_ok_def history_ok_def t' periods)
  moreover have "served ?t h (heart_period ?t j) (told ?t j) \<and> watched ?t j w" if "roles (srv ?t) j = Some (h, w)" for j h w
  proof -
    have r: "j \<noteq> i" "roles (srv t) j = Some (h, w)" using that by (auto simp: roles split: if_splits)
    have old: "served t h (heart_period t j) (told t j)" "watched t j w" "channels_ok t"
      using ok r(2) by (simp_all add: timed_ok_def)
    have "heart s \<noteq> h \<and> heart s \<noteq> w" using channels_okD(6) [OF old(3) r(2) mine] r(1) by auto
    then have timers: "map_of (timers ?t) h = map_of (timers t) h" "map_of (timers ?t) w = map_of (timers t) w"
      by (simp_all add: t' delete_conv')
    have "served ?t h = served t h"
      by (rule served_cong [OF timers(1)]) (simp_all add: t' end_session_def)
    moreover have "watched ?t j w"
      by (rule watched_mono [OF old(2) timers(2)]) (use r(1) in \<open>auto simp: t' end_session_def\<close>)
    ultimately show ?thesis using old(1) by (simp add: periods t')
  qed
  ultimately show ?thesis unfolding timed_ok_def by blast
qed

text \<open>
  A client is admitted: three new channels, the session's and those of its two timers, \<open>beat\<close> of the
  stream of heartbeats and \<open>listen\<close> of the listener.
\<close>

lemma admitE:
  fixes t hb conn v
  defines "u \<equiv> admit hb conn v t"
  assumes run: "handle_connection_validation_result rt_setup (Inr (hb, DefaultClient)) rt_registry_handle (net (srv t)) =
      (Ret (Accepted conn), v)"
  obtains n beat listen where "n = rt_next (net (srv t))"
    "beat = \<lparr>timer_period = from_millis (unat (expected hb)), timer_receiver = Some (n + 1), timer_task = None\<rparr>"
    "listen = \<lparr>timer_period = from_millis (unat (the (heartbeat_with_buffer False (supplied hb)))),
      timer_receiver = Some (n + 2), timer_task = None\<rparr>"
    "\<And>j. roles (srv u) j = (if j = n then Some (n + 1, n + 2) else roles (srv t) j)"
    "timers u = AList.update (n + 1) beat (AList.update (n + 2) listen (timers t))"
    "clock u = clock t" "waiting u = (n, n + 2) # waiting t" "admitted u = n # admitted t"
    "intervals u = (intervals t)(n := hb)" "heard u = (heard t)(n := [clock t])" "told u = (told t)(n := [clock t])"
    "alarms u = (alarms t)(n := [])" "beats u = (beats t)(n := [])"
    "rt_next (net (srv u)) = n + 3"
    "rt_listeners (net (srv u)) = rt_listeners (net (srv t)) @ [(\<lparr>client_sender = n\<rparr>, listen)]"
    "\<And>c. commands_at u c = (if c = n + 1 \<or> c = n + 2 then [] else commands_at t c)"
    "\<And>j. j \<noteq> n \<Longrightarrow> mb_queue (rt_events (net (srv u))) j = mb_queue (rt_events (net (srv t))) j"
    "broker_step (srv t) (srv u)"
proof (rule rt_connectE [OF run])
  let ?n = "rt_next (net (srv t))"
  fix listen
  assume v: "v = (net (srv t))\<lparr>rt_events := mb_create ?n (rt_events (net (srv t))),
      rt_commands := mb_create (?n + 2) (mb_create (?n + 1) (rt_commands (net (srv t)))),
      rt_listeners := rt_listeners (net (srv t)) @ [(\<lparr>client_sender = ?n\<rparr>, listen)], rt_next := ?n + 3\<rparr>"
    and session: "conn_session conn = ClientSession_new rt_registry_handle \<lparr>client_sender = ?n\<rparr>
      \<lparr>resetter_sender = ?n + 1\<rparr> \<lparr>resetter_sender = ?n + 2\<rparr> DefaultClient"
    and i: "conn_from_server conn = ?n"
    and beat: "conn_server_heartbeat conn = \<lparr>timer_period = from_millis (unat (expected hb)),
      timer_receiver = Some (?n + 1), timer_task = None\<rparr>"
    and listen: "listen = \<lparr>timer_period = from_millis (unat (the (heartbeat_with_buffer False (supplied hb)))),
      timer_receiver = Some (?n + 2), timer_task = None\<rparr>"
  have own: "heart (conn_session conn) = ?n + 1" "watch (conn_session conn) = ?n + 2"
    by (simp_all add: session ClientSession_new_def heart_def watch_def)
  have srv: "srv u = (srv t)\<lparr>net := v, sessions := (sessions (srv t))(?n \<mapsto> conn_session conn)\<rparr>"
    by (simp add: u_def admit_def Let_def i)
  show thesis
  proof (rule that [OF refl beat listen])
    show "broker_step (srv t) (srv u)" unfolding srv using broker_step.connect [OF run] by (simp add: i)
    show "timers u = AList.update (?n + 1) (conn_server_heartbeat conn) (AList.update (?n + 2) listen (timers t))"
      by (simp add: u_def admit_def Let_def own) (simp add: v)
  qed (simp_all add: srv roles_def own, simp_all add: u_def admit_def Let_def i own v)
qed

lemma channels_ok_new:
  assumes chan: "channels_ok t" and n: "n = rt_next (net (srv t))"
    and roles: "\<And>j. roles (srv t') j = (if j = n then Some (n + 1, n + 2) else roles (srv t) j)"
    and waiting: "waiting t' = (n, n + 2) # waiting t" and admitted: "admitted t' = n # admitted t"
    and next_channel: "rt_next (net (srv t')) = n + 3"
    and listeners: "rt_listeners (net (srv t')) = rt_listeners (net (srv t)) @ [(\<lparr>client_sender = n\<rparr>, listen)]"
  shows "channels_ok t'"
  unfolding channels_ok_def next_channel listeners
proof (intro conjI allI impI)
  note old = channels_okD [OF chan, folded n]
  have waits: "k < n \<and> c < n \<and> (\<exists>timer. (\<lparr>client_sender = k\<rparr>, timer) \<in> set (rt_listeners (net (srv t))))"
    if "(k, c) \<in> set (waiting t)" for k c
    using chan that unfolding channels_ok_def n by blast
  {
    fix j h w k h' w'
    assume "roles (srv t') j = Some (h, w)" "roles (srv t') k = Some (h', w')" "j \<noteq> k"
    then show "h \<noteq> h'" "h \<noteq> w'" "w \<noteq> w'"
      using old(3,4,6) by (fastforce simp: roles split: if_splits)+
  next
    fix k c
    assume kc: "(k, c) \<in> set (waiting t')"
    show "k < n + 3" "c < n + 3"
      "\<exists>timer'. (\<lparr>client_sender = k\<rparr>, timer') \<in> set (rt_listeners (net (srv t)) @ [(\<lparr>client_sender = n\<rparr>, listen)])"
      using kc by (auto simp: waiting dest!: waits)
    fix j h w
    assume r: "roles (srv t') j = Some (h, w)"
    have "c \<noteq> h \<and> (c = w \<longleftrightarrow> j = k)"
    proof (cases "j = n")
      case True
      with r kc show ?thesis by (auto simp: roles waiting dest!: waits)
    next
      case False
      with r have "roles (srv t) j = Some (h, w)" by (simp add: roles)
      from old(2-4) [OF this] old(7) [OF this, of k c] kc False show ?thesis by (auto simp: waiting)
    qed
    then show "c \<noteq> h" "c = w \<longleftrightarrow> j = k" by blast+
  next
    fix j h w
    assume r: "roles (srv t') j = Some (h, w)"
    have "j \<in> set (admitted t') \<and> j < n + 3 \<and> h < n + 3 \<and> w < n + 3 \<and> h \<noteq> w"
    proof (cases "j = n")
      case False
      with r have "roles (srv t) j = Some (h, w)" by (simp add: roles)
      from old(1-5) [OF this] show ?thesis by (simp add: admitted)
    qed (use r in \<open>auto simp: roles admitted\<close>)
    then show "j \<in> set (admitted t')" "j < n + 3" "h < n + 3" "w < n + 3" "h \<noteq> w" by blast+
  }
qed

lemma timed_ok_admit:
  assumes ok: "timed_ok t"
    and run: "handle_connection_validation_result rt_setup (Inr (hb, DefaultClient)) rt_registry_handle (net (srv t)) =
      (Ret (Accepted conn), v)"
  shows "timed_ok (admit hb conn v t)"
proof -
  let ?t = "admit hb conn v t"
  from run obtain n beat listen where n: "n = rt_next (net (srv t))"
    and timer: "beat = \<lparr>timer_period = from_millis (unat (expected hb)), timer_receiver = Some (n + 1), timer_task = None\<rparr>"
      "listen = \<lparr>timer_period = from_millis (unat (the (heartbeat_with_buffer False (supplied hb)))),
        timer_receiver = Some (n + 2), timer_task = None\<rparr>"
    and roles: "\<And>j. roles (srv ?t) j = (if j = n then Some (n + 1, n + 2) else roles (srv t) j)"
    and t': "timers ?t = AList.update (n + 1) beat (AList.update (n + 2) listen (timers t))"
      "clock ?t = clock t" "waiting ?t = (n, n + 2) # waiting t" "admitted ?t = n # admitted t"
      "intervals ?t = (intervals t)(n := hb)" "heard ?t = (heard t)(n := [clock t])" "told ?t = (told t)(n := [clock t])"
      "alarms ?t = (alarms t)(n := [])" "beats ?t = (beats t)(n := [])"
    and world: "rt_next (net (srv ?t)) = n + 3"
      "rt_listeners (net (srv ?t)) = rt_listeners (net (srv t)) @ [(\<lparr>client_sender = n\<rparr>, listen)]"
      "\<And>c. commands_at ?t c = (if c = n + 1 \<or> c = n + 2 then [] else commands_at t c)"
      "\<And>j. j \<noteq> n \<Longrightarrow> mb_queue (rt_events (net (srv ?t))) j = mb_queue (rt_events (net (srv t))) j"
    and step: "broker_step (srv t) (srv ?t)"
    by (rule admitE) (rule that)
  have periods: "heart_period ?t j = (if j = n then from_millis (unat (expected hb)) else heart_period t j)"
    "watch_period ?t j = (if j = n then from_millis (unat (the (heartbeat_with_buffer False (supplied hb))))
      else watch_period t j)" for j
    by (simp_all add: heart_period_def watch_period_def t')
  have chan: "channels_ok t" using ok by (simp add: timed_ok_def)
  have "reachable (srv ?t)" using ok step reachable.step by (auto simp: timed_ok_def)
  moreover have "channels_ok ?t" using chan n roles t'(3,4) world(1,2) by (rule channels_ok_new)
  moreover have "history_ok ?t" using ok by (simp add: timed_ok_def history_ok_def t' periods)
  moreover have "served ?t h (heart_period ?t j) (told ?t j) \<and> watched ?t j w" if r: "roles (srv ?t) j = Some (h, w)" for j h w
  proof (cases "j = n")
    case True
    with r have "h = n + 1" "w = n + 2" by (simp_all add: roles)
    with True show ?thesis
      unfolding watched_def served_def periods world
      by (simp add: t' update_conv' timer_ok_def timer)
  next
    case False
    with r have r': "roles (srv t) j = Some (h, w)" by (simp add: roles)
    have old: "served t h (heart_period t j) (told t j)" "watched t j w"
      using ok r' by (simp_all add: timed_ok_def)
    have less: "h < n" "w < n" using channels_okD(3,4) [OF chan r'] by (simp_all add: n)
    have timers: "map_of (timers ?t) h = map_of (timers t) h" "map_of (timers ?t) w = map_of (timers t) w"
      using less by (simp_all add: t' update_conv')
    have same: "served ?t h = served t h" "served ?t w = served t w"
      using less by (intro served_cong timers t'(2); simp add: world)+
    then show ?thesis
      using old False by (simp add: watched_def periods t'(2,3,6,7) world(4))
  qed
  ultimately show ?thesis unfolding timed_ok_def by blast
qed


text \<open>One timer is polled.\<close>

lemma served_update:
  "served (t\<lparr>timers := AList.update c timer' (timers t)\<rparr>) x p marks =
     (if x = c then timer_ok (clock t) p marks (commands_at t c) timer' else served t x p marks)"
  by (simp add: served_def update_conv')

lemma watched_update:
  "x \<noteq> c \<Longrightarrow> watched (t\<lparr>timers := AList.update c timer' (timers t)\<rparr>) i x = watched t i x"
  by (simp add: watched_def served_update)

lemma timed_ok_update:
  assumes ok: "timed_ok t"
    and timer: "\<And>i h w. roles (srv t) i = Some (h, w) \<Longrightarrow> c = h \<Longrightarrow>
      timer_ok (clock t) (heart_period t i) (told t i) (commands_at t c) timer'"
      "\<And>i h w. roles (srv t) i = Some (h, w) \<Longrightarrow> c = w \<Longrightarrow> (i, c) \<in> set (waiting t) \<Longrightarrow>
        timer_ok (clock t) (watch_period t i) (heard t i) (commands_at t c) timer'"
  shows "timed_ok (t\<lparr>timers := AList.update c timer' (timers t)\<rparr>)"
proof -
  let ?t = "t\<lparr>timers := AList.update c timer' (timers t)\<rparr>"
  have "served ?t h (heart_period t i) (told t i) \<and> watched ?t i w" if r: "roles (srv t) i = Some (h, w)" for i h w
  proof -
    have old: "served t h (heart_period t i) (told t i)" "watched t i w" using ok r by (simp_all add: timed_ok_def)
    have "watched ?t i w"
    proof (cases "w = c")
      case True
      with old(2) timer(2) [OF r] show ?thesis by (simp add: watched_def served_update)
    qed (use old(2) in \<open>simp add: watched_update\<close>)
    with old(1) timer(1) [OF r] show ?thesis by (auto simp: served_update)
  qed
  then show ?thesis using ok by (simp add: timed_ok_def channels_ok_def history_ok_def)
qed

text \<open>The stream of heartbeats is polled.\<close>

lemma timed_ok_poll_heart:
  assumes ok: "timed_ok t" and s: "sessions (srv t) i = Some s" and timer: "map_of (timers t) (heart s) = Some timer"
  shows "timed_ok (poll_heart i s timer t)"
proof -
  let ?p = "heart_period t i"
  have mine: "roles (srv t) i = Some (heart s, watch s)" by (simp add: roles_def s)
  have chan: "channels_ok t" and hist: "history_ok t" and reach: "reachable (srv t)" using ok by (simp_all add: timed_ok_def)
  obtain out timer' where poll: "poll_next id timer = (out, timer')" by (cases "poll_next id timer")
  let ?t = "t\<lparr>timers := AList.update (heart s) timer' (timers t)\<rparr>"
  have own: "i = j" if "roles (srv t) j = Some (h, w)" "heart s = h \<or> heart s = w" for j h w
    using channels_okD(6) [OF chan mine that(1)] that(2) by blast
  have "served t (heart s) ?p (told t i)" using ok mine by (simp add: timed_ok_def)
  then have "timer_ok (clock t) ?p (told t i) (commands_at t (heart s)) timer"
    using timer by (simp add: served_def)
  then show ?thesis
    using poll
  proof (cases rule: timer_ok_poll)
    case pending
    have "timed_ok ?t"
    proof (rule timed_ok_update [OF ok])
      fix j h w assume r: "roles (srv t) j = Some (h, w)" "heart s = h"
      with own [OF r(1)] pending(2) show "timer_ok (clock t) (heart_period t j) (told t j) (commands_at t (heart s)) timer'"
        by simp
    next
      fix j h w assume r: "roles (srv t) j = Some (h, w)" "heart s = w"
      with own [OF r(1)] mine channels_okD(5) [OF chan mine]
      show "timer_ok (clock t) (watch_period t j) (heard t j) (commands_at t (heart s)) timer'" by auto
    qed
    then show ?thesis by (simp add: poll_heart_def poll pending(1))
  next
    case fired
    let ?t' = "timed_turn i s EvHeartbeat (srv t) ?t"
    have "timed_ok ?t'"
    proof (rule timed_turn_ok)
      show "turn_fits ?t i s EvHeartbeat (srv t)"
        using chan hist reach s by (simp add: turn_fits_def channels_ok_def history_ok_def)
      show "reachable (session_turn i s EvHeartbeat (srv t))"
        by (rule reachable.step [OF reach], rule broker_step.from_client) (simp_all add: s)
      show "due_after (heart_period ?t i) (told ?t i) True (clock ?t) (clock ?t)" using fired(4) by simp
      fix j h w assume r: "roles (srv ?t) j = Some (h, w)"
      then have r': "roles (srv t) j = Some (h, w)" by simp
      have old: "served t h (heart_period t j) (told t j)" "watched t j w" using ok r' by (simp_all add: timed_ok_def)
      have "heart s = h \<longleftrightarrow> j = i" "heart s \<noteq> w"
        using own [OF r'] mine r' channels_okD(5) [OF chan mine] by auto
      with old fired(2) show "served ?t h (heart_period ?t j)
          (if j = i \<and> EvHeartbeat = EvHeartbeat then clock ?t # told ?t j else told ?t j) \<and> watched ?t j w"
        by (auto simp: served_update watched_update)
    qed
    then show ?thesis by (simp add: poll_heart_def poll fired(1))
  qed
qed

text \<open>The heartbeat listener polls its timer.\<close>

lemma heartbeat_listener_world:
  "snd (heartbeat_listener rt_event_send \<lparr>client_sender = i\<rparr> fired w) =
     snd (rt_event_send i (EvError ''Missed heartbeat'') w)"
  by (simp add: heartbeat_listener_def send_event_def bind_io_def rt_event_send_def fifo_send_def)

text \<open>It ends, with or without a word to the session, which has one event to come that ends it if there is a word.\<close>

lemma timed_ok_listener_ends:
  assumes ok: "timed_ok t" and wait: "(i, c) \<in> set (waiting t)"
    and v: "v = net (srv t) \<or> v = snd (rt_event_send i (EvError ''Missed heartbeat'') (net (srv t)))"
    and alive: "\<And>h w. roles (srv t) i = Some (h, w) \<Longrightarrow> on_time (watch_period t i) (heard t i) (clock t) \<and>
      (\<exists>x \<in> set (mb_queue (rt_events v) i). ending x)"
  shows "timed_ok (t\<lparr>srv := (srv t)\<lparr>net := v\<rparr>, timers := AList.delete c (timers t),
    waiting := removeAll (i, c) (waiting t)\<rparr>)" (is "timed_ok ?t")
proof -
  have chan: "channels_ok t" and hist: "history_ok t" and reach: "reachable (srv t)" using ok by (simp_all add: timed_ok_def)
  have world: "rt_commands v = rt_commands (net (srv t))" "rt_next v = rt_next (net (srv t))"
      "rt_listeners v = rt_listeners (net (srv t))"
      "x \<in> set (mb_queue (rt_events (net (srv t))) j) \<Longrightarrow> x \<in> set (mb_queue (rt_events v) j)" for x j
    using v by (auto simp: rt_event_send_def fifo_send_def)
  have roles: "roles (srv ?t) = roles (srv t)" by (simp add: roles_def fun_eq_iff)
  have "channels_ok ?t"
    by (rule channels_ok_mono [OF chan]) (simp_all only: roles, simp_all add: world)
  moreover obtain timer where "(\<lparr>client_sender = i\<rparr>, timer) \<in> set (rt_listeners (net (srv t)))"
    using chan wait unfolding channels_ok_def by blast
  then have "reachable (srv ?t)"
    using v reachable.step [OF reach broker_step.listener] reach heartbeat_listener_world by fastforce
  moreover have "history_ok ?t" using hist by (simp add: history_ok_def)
  moreover have "served ?t h (heart_period t j) (told t j) \<and> watched ?t j w" if r: "roles (srv t) j = Some (h, w)" for j h w
  proof -
    have old: "served t h (heart_period t j) (told t j)" "watched t j w" using ok r by (simp_all add: timed_ok_def)
    have c: "c \<noteq> h" "c = w \<longleftrightarrow> j = i" using channels_okD(7) [OF chan r wait] by auto
    have same: "served ?t x = served t x" if "x \<noteq> c" for x
      by (rule served_cong) (use that in \<open>simp_all add: delete_conv' world\<close>)
    have "watched ?t j w"
    proof (cases "j = i")
      case True
      with alive r c(2) show ?thesis by (auto simp: watched_def on_time_def)
    next
      case False
      with c(2) have "w \<noteq> c" by auto
      then show ?thesis
        by (intro watched_mono [OF old(2)]) (use False world in \<open>auto simp: delete_conv'\<close>)
    qed
    with old(1) same [of h] c(1) show ?thesis by auto
  qed
  ultimately show ?thesis by (simp add: timed_ok_def roles [simplified])
qed

lemma timed_ok_poll_watch:
  assumes ok: "timed_ok t" and wait: "(i, c) \<in> set (waiting t)" and timer: "map_of (timers t) c = Some timer"
  shows "timed_ok (poll_watch i c timer t)"
proof -
  have chan: "channels_ok t" and hist: "history_ok t" and reach: "reachable (srv t)" using ok by (simp_all add: timed_ok_def)
  obtain out timer' where poll: "poll_next id timer = (out, timer')" by (cases "poll_next id timer")
  have mine: "c \<noteq> h" "c = w \<longleftrightarrow> j = i" if "roles (srv t) j = Some (h, w)" for j h w
    using channels_okD(7) [OF chan that wait] by auto
  have watch: "timer_ok (clock t) (watch_period t i) (heard t i) (commands_at t c) timer"
    if "roles (srv t) i = Some (h, w)" for h w
  proof -
    have "watched t i c" using ok that mine(2) [OF that] by (auto simp: timed_ok_def)
    then show ?thesis using wait timer by (simp add: watched_def served_def)
  qed
  note polled = timer_ok_poll [OF watch poll]
  consider (panic) msg where "out = Panic msg" | (pending) "out = Ret PollPending"
    | (ready) fired where "out = Ret (PollReady fired)"
    by (metis outcome.exhaust Poll.exhaust)
  then show ?thesis
  proof cases
    case panic
    have "False" if "roles (srv t) i = Some (h, w)" for h w
      by (rule polled [OF that]) (simp_all add: panic)
    then have "roles (srv t) i = None" by (cases "roles (srv t) i") auto
    then show ?thesis
      using timed_ok_listener_ends [OF ok wait, of "net (srv t)"] by (simp add: poll_watch_def poll panic)
  next
    case pending
    have "timed_ok (t\<lparr>timers := AList.update c timer' (timers t)\<rparr>)"
    proof (rule timed_ok_update [OF ok])
      fix j h w assume "roles (srv t) j = Some (h, w)" "c = h"
      then show "timer_ok (clock t) (heart_period t j) (told t j) (commands_at t c) timer'" using mine(1) by blast
    next
      fix j h w assume r: "roles (srv t) j = Some (h, w)" "c = w"
      then have "j = i" using mine(2) by blast
      with r(1) have "roles (srv t) i = Some (h, w)" by simp
      then show "timer_ok (clock t) (watch_period t j) (heard t j) (commands_at t c) timer'"
        by (rule polled) (use pending \<open>j = i\<close> in simp_all)
    qed
    then show ?thesis by (simp add: poll_watch_def poll pending)
  next
    case ready
    let ?v = "snd (rt_event_send i (EvError ''Missed heartbeat'') (net (srv t)))"
    let ?t = "t\<lparr>srv := (srv t)\<lparr>net := ?v\<rparr>, timers := AList.delete c (timers t), waiting := removeAll (i, c) (waiting t)\<rparr>"
    have on_time: "on_time (watch_period t i) (heard t i) (clock t) \<and> due_after (watch_period t i) (heard t i) True (clock t) (clock t)"
      if "roles (srv t) i = Some (h, w)" for h w
      by (rule polled [OF that]) (use ready in simp_all)
    have posted: "\<exists>x \<in> set (mb_queue (rt_events ?v) i). ending x" if "roles (srv t) i = Some (h, w)" for h w
      using reachable_alive_ok [OF reach] that by (auto simp: alive_ok_def roles_def rt_event_send_def fifo_send_def)
    have okv: "timed_ok ?t" using on_time posted by (intro timed_ok_listener_ends [OF ok wait]) auto
    let ?alarms = "if sessions (srv t) i = None then alarms t else (alarms t)(i := clock t # alarms t i)"
    have "history_ok (?t\<lparr>alarms := ?alarms\<rparr>)"
      using hist on_time by (auto simp: history_ok_def due_after_def roles_def)
    then have "timed_ok (?t\<lparr>alarms := ?alarms\<rparr>)"
      using okv unfolding timed_ok_def by (simp del: timed.update_convs)
    then show ?thesis by (simp add: poll_watch_def poll ready heartbeat_listener_world)
  qed
qed


section \<open>Every state\<close>

lemma timed_ok_time:
  assumes ok: "timed_ok t" and rest: "at_rest t" and dt: "may_pass dt t"
  shows "timed_ok (t\<lparr>clock := clock t + dt\<rparr>)"
proof -
  let ?t = "t\<lparr>clock := clock t + dt\<rparr>"
  have served: "served ?t c p marks" if old: "served t c p marks" for c p marks
  proof -
    obtain timer where timer: "map_of (timers t) c = Some timer" "timer_ok (clock t) p marks (commands_at t c) timer"
      using old by (auto simp: served_def)
    then have "(c, timer) \<in> set (timers t)" by (simp add: map_of_SomeD)
    then have "commands_at t c = []" "case timer_task timer of Some (Running task) \<Rightarrow> asleep task | _ \<Rightarrow> False"
        "case timer_task timer of
          Some (Running task) \<Rightarrow> (case due task of Some d \<Rightarrow> clock t + dt \<le> d | None \<Rightarrow> True) | _ \<Rightarrow> False"
      using rest dt unfolding at_rest_def may_pass_def by fast+
    then obtain task where "commands_at t c = []" "timer_task timer = Some (Running task)" "asleep task"
        "case due task of Some d \<Rightarrow> clock t + dt \<le> d | None \<Rightarrow> True"
      by (cases "timer_task timer"; cases "the (timer_task timer)") auto
    with timer show ?thesis by (auto simp: served_def intro: timer_ok_time)
  qed
  have "watched ?t i w" if "roles (srv t) i = Some (h, w)" for i h w
  proof (cases "(i, w) \<in> set (waiting t)")
    case True
    with ok that served show ?thesis by (fastforce simp: timed_ok_def watched_def)
  next
    case False
    have "i \<in> set (admitted t)" using ok that channels_okD(1) by (auto simp: timed_ok_def)
    then have "mb_queue (rt_events (net (srv t))) i = []"
      using rest that by (auto simp: at_rest_def roles_def)
    with False ok that have False by (fastforce simp: timed_ok_def watched_def)
    then show ?thesis ..
  qed
  moreover have "history_ok ?t" using ok by (fastforce simp: timed_ok_def history_ok_def)
  ultimately show ?thesis using ok served by (simp add: timed_ok_def channels_ok_def)
qed

lemma timed_ok_prompt: "prompt_step t t' \<Longrightarrow> timed_ok t \<Longrightarrow> timed_ok t'"
proof (induction rule: prompt_step.induct)
  case (from_server t i s e rest)
  then have reach: "reachable (session_turn i s e
      ((srv t)\<lparr>net := (net (srv t))\<lparr>rt_events := mb_take i (rt_events (net (srv t)))\<rparr>\<rparr>))"
    by (auto simp: timed_ok_def intro: reachable.step broker_step.internal internal_step.from_server)
  have "list_all queued_kind (mb_queue (rt_events (net (srv t))) i)"
    using reachable_backlog_ok from_server(3) by (auto simp: timed_ok_def backlog_ok_def)
  then have "e \<noteq> EvHeartbeat" using from_server(2) by auto
  then show ?case
    by (intro timed_turn_ok) (use from_server reach in \<open>auto simp: timed_ok_def turn_fits_def\<close>)
next
  case (subscribe_task t before task after)
  let ?w = "(net (srv t))\<lparr>rt_spawned := before @ after\<rparr>"
  have "reachable (srv t\<lparr>net := snd (run_subscribe_task rt_map rt_destination rt_registry_handle task ?w)\<rparr>)"
    using subscribe_task by (auto simp: timed_ok_def intro: reachable.step broker_step.internal internal_step.subscribe_task)
  then show ?case
    by (rule timed_ok_world [OF subscribe_task(2)])
      (use subscribe_task_keeps [where task = task and w = ?w] in \<open>simp_all\<close>)
next
  case (backend t d bk a rest iter u)
  have "reachable (srv t\<lparr>net := backend_turn iter d u bk a (net (srv t))\<rparr>)"
    using backend by (auto simp: timed_ok_def intro: reachable.step broker_step.internal internal_step.backend)
  then show ?case
    by (rule timed_ok_world [OF backend(4)]) (simp_all add: backend_turn_keeps)
qed (auto intro: timed_ok_run_timer timed_ok_poll_heart timed_ok_poll_watch)

lemma timed_ok_step: "timed_step t t' \<Longrightarrow> timed_ok t \<Longrightarrow> timed_ok t'"
proof (induction rule: timed_step.induct)
  case (from_client t i s e)
  then have reach: "reachable (session_turn i s e (srv t))"
    by (auto simp: timed_ok_def intro: reachable.step broker_step.from_client)
  show ?case
    by (intro timed_turn_ok) (use from_client reach in \<open>auto simp: timed_ok_def turn_fits_def\<close>)
qed (auto intro: timed_ok_admit timed_ok_end timed_ok_time timed_ok_prompt)

lemma timed_run_ok: "timed_run t \<Longrightarrow> timed_ok t"
proof (induction rule: timed_run.induct)
  case start
  show ?case
    by (simp add: timed_ok_def timed_start_def channels_ok_def history_ok_def reachable.start)
      (simp add: roles_def broker_start_def)
qed (rule timed_ok_step)

text \<open>A run with the clock is a run of the server.\<close>

lemma timed_run_reachable: "timed_run t \<Longrightarrow> reachable (srv t)"
  using timed_run_ok by (simp add: timed_ok_def)

end
