(* ===== verification/Heartbeat_Spec.thy ===== *)
theory Heartbeat_Spec
  imports Heartbeat_Invariant
begin

text \<open>
  The two heartbeats of the composed server: with a prompt executor each timer fires exactly a
  period after its last reset, so that a client hears from the server within the time it has
  asked for, a silent client is disconnected in time, and one that keeps its promise is not.
\<close>

section \<open>Properties\<close>

lemma watch_period_eq:
  assumes "unat (supplied (intervals t i)) \<le> 35791394"
  shows "watch_period t i = from_millis (unat (supplied (intervals t i)) * 120 div 100)"
proof -
  have "unat (HEARTBEAT_BUFFER_PERCENT + 100) = 120" by (simp add: HEARTBEAT_BUFFER_PERCENT_def)
  then show ?thesis
    using assms by (simp add: watch_period_def heartbeat_with_buffer_def buffered_period)
qed

text \<open>
  C9: a client that has asked for heartbeats never waits for longer than it has asked for, to the
  millisecond: at every moment of every run with a prompt executor, while its session runs, the
  last message or heartbeat it got (or its admission) is at most that long ago, however messages,
  resets and firings interleave. And no heartbeat is sent before its time: within that long before
  a heartbeat the client got nothing else, but perhaps in the same instant.
\<close>

theorem heartbeats_in_time:
  assumes "timed_run t" "sessions (srv t) i = Some s" "0 < expected (intervals t i)"
  shows "(\<exists>x \<in> set (told t i). x \<le> clock t \<and> clock t \<le> x + from_millis (unat (expected (intervals t i)))) \<and>
    (\<forall>a \<in> set (beats t i). \<forall>x \<in> set (told t i). x + from_millis (unat (expected (intervals t i))) \<le> a \<or> a \<le> x)"
proof -
  have ok: "timed_ok t" using assms(1) by (rule timed_run_ok)
  have p: "heart_period t i = from_millis (unat (expected (intervals t i)))" by (simp add: heart_period_def)
  have "served t (heart s) (heart_period t i) (told t i)"
    using ok assms(2) by (simp add: timed_ok_def roles_def)
  then obtain timer :: "nat ResettableTimer"
    where timer: "timer_ok (clock t) (heart_period t i) (told t i) (commands_at t (heart s)) timer"
    by (auto simp: served_def)
  have "as_millis (heart_period t i) \<noteq> 0" using assms(3) by (simp add: p word_gt_0_no unat_eq_0)
  then have "\<exists>x \<in> set (told t i). clock t \<le> x + heart_period t i" by (rule timer_ok_bound [OF timer])
  moreover have "\<forall>x \<in> set (told t i). x \<le> clock t" using timer by (simp add: timer_ok_def)
  moreover have "\<forall>a \<in> set (beats t i). \<forall>x \<in> set (told t i). x + heart_period t i \<le> a \<or> a \<le> x"
    using ok by (simp add: timed_ok_def history_ok_def)
  ultimately show ?thesis unfolding p by blast
qed

text \<open>A client that expects heartbeats every five seconds subscribes, and gets a message of its own after two.\<close>

lemmas timed_run_defs = timed_defs run_defs heartbeat_with_buffer_def HEARTBEAT_BUFFER_PERCENT_def

abbreviation demo_message_delays :: "timed_choice list" where
  "demo_message_delays \<equiv>
     [HConnect \<lparr>supplied = 0, expected = 5000\<rparr>, HListen 0 2, HBeat 0, HTimer 2 True, HTimer 1 True,
      HClient 0 (subscribe_frame ''d'' ''c''), HTask, HBackend 3 ''u'', HServer 0, HTimer 2 True, HWait 2000,
      HClient 0 (send_frame ''d'' [104, 105]), HBackend 3 ''m'', HServer 0, HTimer 2 True, HTimer 1 True, HWait 5000,
      HTimer 1 True, HBeat 0, HTimer 1 True, HWait 3000]"

theorem heartbeats_in_time_witness:
  "\<exists>t. timed_run t \<and> clock t = from_millis 10000 \<and> beats t 0 = [from_millis 7000] \<and>
     (\<exists>x \<in> set (told t 0). x \<le> clock t \<and> clock t \<le> x + from_millis 5000) \<and>
     (\<forall>x \<in> set (told t 0). x + from_millis 5000 \<le> from_millis 7000 \<or> from_millis 7000 \<le> x)"
proof -
  have "\<exists>t s. texec_all demo_message_delays timed_start = Some t \<and> sessions (srv t) 0 = Some s \<and>
      expected (intervals t 0) = 5000 \<and> clock t = from_millis 10000 \<and> beats t 0 = [from_millis 7000]"
    by (simp add: timed_run_defs)
  then obtain t s where t: "texec_all demo_message_delays timed_start = Some t" "sessions (srv t) 0 = Some s"
      "expected (intervals t 0) = 5000" "clock t = from_millis 10000" "beats t 0 = [from_millis 7000]"
    by blast
  have run: "timed_run t" using t(1) timed_run.start by (rule texec_all_run)
  from heartbeats_in_time [OF run t(2)]
  have "\<exists>x \<in> set (told t 0). x \<le> clock t \<and> clock t \<le> x + from_millis 5000"
    "\<forall>a \<in> set (beats t 0). \<forall>x \<in> set (told t 0). x + from_millis 5000 \<le> a \<or> a \<le> x"
    by (simp_all add: t(3))
  with run t(4,5) show ?thesis by (intro exI [of _ t]) simp
qed

lemma watch_period_positive:
  assumes "0 < supplied (intervals t i)" "unat (supplied (intervals t i)) \<le> 35791394"
  shows "as_millis (watch_period t i) \<noteq> 0"
proof -
  have "0 < unat (supplied (intervals t i))" using assms(1) by (simp add: word_gt_0 unat_gt_0)
  then show ?thesis by (simp add: watch_period_eq [OF assms(2)])
qed

lemma heard_lately:
  assumes "timed_run t" "sessions (srv t) i = Some s" "as_millis (watch_period t i) \<noteq> 0"
  shows "\<exists>x \<in> set (heard t i). clock t \<le> x + watch_period t i"
proof -
  have "watched t i (watch s)" using timed_run_ok [OF assms(1)] assms(2) by (simp add: timed_ok_def roles_def)
  then show ?thesis
    using timer_ok_bound [OF _ assms(3)] by (auto simp: watched_def served_def split: if_splits)
qed

text \<open>
  C10: a client that falls silent is disconnected in time: with a prompt executor, while the session
  of a client that has promised heartbeats runs, the last frame or heartbeat from it that the
  session has handled (or its admission) is never longer ago than the promise and a fifth of it.
\<close>

theorem silent_clients_disconnected:
  assumes "timed_run t" "sessions (srv t) i = Some s"
    and "0 < supplied (intervals t i)" "unat (supplied (intervals t i)) \<le> 35791394"
  shows "\<exists>x \<in> set (heard t i). clock t \<le> x + from_millis (unat (supplied (intervals t i)) * 120 div 100)"
  using heard_lately [OF assms(1,2) watch_period_positive [OF assms(3,4)]] unfolding watch_period_eq [OF assms(4)] .

text \<open>A client promises a heartbeat every five seconds and sends one, after five.\<close>

abbreviation demo_silence :: "timed_choice list" where
  "demo_silence \<equiv>
     [HConnect \<lparr>supplied = 5000, expected = 0\<rparr>, HListen 0 2, HBeat 0, HTimer 2 True, HTimer 1 True, HWait 5000,
      HClient 0 EvClientHeartbeat, HTimer 2 True, HWait 2000, HWait 4000]"

theorem silent_clients_disconnected_witness:
  "\<exists>t s. timed_run t \<and> sessions (srv t) 0 = Some s \<and> clock t = from_millis 11000 \<and>
     (\<exists>x \<in> set (heard t 0). clock t \<le> x + from_millis 6000)"
proof -
  have "\<exists>t s. texec_all demo_silence timed_start = Some t \<and> sessions (srv t) 0 = Some s \<and>
      supplied (intervals t 0) = 5000 \<and> clock t = from_millis 11000"
    by (simp add: timed_run_defs)
  then obtain t s where t: "texec_all demo_silence timed_start = Some t" "sessions (srv t) 0 = Some s"
      "supplied (intervals t 0) = 5000" "clock t = from_millis 11000"
    by blast
  have run: "timed_run t" using t(1) timed_run.start by (rule texec_all_run)
  from silent_clients_disconnected [OF run t(2)]
  have "\<exists>x \<in> set (heard t 0). clock t \<le> x + from_millis 6000" by (simp add: t(3))
  with run t(2,4) show ?thesis by (intro exI [of _ t] exI [of _ s]) simp
qed

text \<open>
  C12: no false alarm: with a prompt executor, whenever the watch of a running session fires, its
  client has been silent for the promised time and a fifth of it; a frame or heartbeat that the
  session handled less than that before the alarm can only have come in the same instant. So a
  client that keeps its promise is never disconnected for a missed heartbeat.
\<close>

theorem no_false_alarm:
  assumes "timed_run t" "a \<in> set (alarms t i)" "x \<in> set (heard t i)" "unat (supplied (intervals t i)) \<le> 35791394"
  shows "x + from_millis (unat (supplied (intervals t i)) * 120 div 100) \<le> a \<or> a \<le> x"
proof -
  have "x + watch_period t i \<le> a \<or> a \<le> x"
    using timed_run_ok [OF assms(1)] assms(2,3) by (auto simp: timed_ok_def history_ok_def)
  then show ?thesis unfolding watch_period_eq [OF assms(4)] .
qed

text \<open>The same client goes on to be silent: the alarm, an ERROR frame, and the end of the session.\<close>

theorem no_false_alarm_witness:
  "\<exists>t. timed_run t \<and> alarms t 0 = [from_millis 11000] \<and> from_millis 5000 \<in> set (heard t 0) \<and>
     outbox (srv t) 0 = [Inl (ErrorF ''Missed heartbeat'')] \<and> sessions (srv t) 0 = None \<and>
     (from_millis 5000 + from_millis 6000 \<le> from_millis 11000 \<or> from_millis 11000 \<le> from_millis 5000)"
proof -
  have "\<exists>t. texec_all (demo_silence @ [HTimer 2 True, HListen 0 2, HServer 0, HServer 0]) timed_start = Some t \<and>
      supplied (intervals t 0) = 5000 \<and> alarms t 0 = [from_millis 11000] \<and> from_millis 5000 \<in> set (heard t 0) \<and>
      outbox (srv t) 0 = [Inl (ErrorF ''Missed heartbeat'')] \<and> sessions (srv t) 0 = None"
    by (simp add: timed_run_defs)
  then obtain t where t: "texec_all (demo_silence @ [HTimer 2 True, HListen 0 2, HServer 0, HServer 0]) timed_start = Some t"
      "supplied (intervals t 0) = 5000" "alarms t 0 = [from_millis 11000]" "from_millis 5000 \<in> set (heard t 0)"
      "outbox (srv t) 0 = [Inl (ErrorF ''Missed heartbeat'')]" "sessions (srv t) 0 = None"
    by blast
  have run: "timed_run t" using t(1) timed_run.start by (rule texec_all_run)
  from no_false_alarm [OF run, of "from_millis 11000" 0 "from_millis 5000"]
  have "from_millis 5000 + from_millis 6000 \<le> from_millis 11000 \<or> from_millis 11000 \<le> from_millis 5000"
    by (simp add: t(2-4))
  with run t(3-6) show ?thesis by (intro exI [of _ t]) simp
qed

end
