(* ===== verification/Heartbeat_Progress.thy ===== *)
theory Heartbeat_Progress
  imports Heartbeat_Spec
begin

text \<open>
  Time never stops: from every state of the server with its clock, the turns it takes by itself
  lead to a state in which time passes. So the bounds of \<open>Heartbeat_Spec\<close> are not kept by a clock that
  stands still, and neither the timers nor the listeners spin.
\<close>

section \<open>Polls\<close>

declare poll_task.simps [simp del]

fun for_good :: "TimerTask \<Rightarrow> bool" where
  "for_good (NoReceiver p d) \<longleftrightarrow> True"
| "for_good Stuck \<longleftrightarrow> True"
| "for_good _ \<longleftrightarrow> False"

definition task_fits :: "TimerTask \<Rightarrow> ResettableTimerCommand list \<Rightarrow> bool \<Rightarrow> bool" where
  "task_fits task cs gone \<longleftrightarrow> Timer_Spec.task_ok task \<and> (for_good task \<longrightarrow> gone \<and> cs = [])"

lemma poll_task_fits:
  "task_fits task cs gone \<Longrightarrow> poll_task sf now task cs gone = (TaskFired task', rest) \<Longrightarrow> task_fits task' rest gone"
  "task_fits task cs gone \<Longrightarrow> poll_task sf now task cs gone = (TaskPending task', rest) \<Longrightarrow>
    task_fits task' rest gone \<and> rest = [] \<and> asleep task' \<and> (sf \<longrightarrow> (\<forall>d. due task' = Some d \<longrightarrow> now < d))"
proof (induction sf now task cs gone rule: poll_task.induct)
  case (1 sf now p cs gone)
  {
    case 1
    with "1.IH" show ?case by (auto simp: poll_task.simps(1) task_fits_def split: if_splits)
  next
    case 2
    with "1.IH" show ?case by (auto simp: poll_task.simps(1) task_fits_def split: if_splits)
  }
next
  case (2 sf now p cs gone)
  {
    case 1
    with "2.IH" show ?case by (auto simp: poll_task.simps(2) task_fits_def split: list.splits if_splits)
  next
    case 2
    with "2.IH" show ?case by (auto simp: poll_task.simps(2) task_fits_def split: list.splits if_splits)
  }
next
  case (3 sf now p d cs gone)
  {
    case 1
    with "3.IH" show ?case
      by (auto simp: poll_task.simps(3) task_fits_def create_task_no_receiver_def split: list.splits if_splits)
  next
    case 2
    with "3.IH" show ?case
      using as_millis_pos [of p]
      by (auto simp: poll_task.simps(3) task_fits_def create_task_no_receiver_def split: list.splits if_splits)
  }
next
  case (4 sf now p d cs gone)
  {
    case 1
    then show ?case
      by (auto simp: poll_task.simps(4) task_fits_def create_task_no_receiver_def split: if_splits)
  next
    case 2
    then show ?case by (auto simp: poll_task.simps(4) task_fits_def split: if_splits)
  }
qed (auto simp: poll_task.simps(5) task_fits_def)

lemma run_handle_fits:
  assumes "task_fits (innermost h) cs gone" "run_handle sf now h cs gone = (h', rest)"
  shows "task_fits (innermost h') rest gone"
  using assms
proof (induction h arbitrary: h')
  case (Running task)
  then show ?case
    using poll_task_fits [OF Running(1)[simplified], of sf now]
    by (auto split: prod.splits TaskPoll.splits)
qed (auto split: prod.splits)


section \<open>Every timer has a reader\<close>

definition gone :: "broker \<Rightarrow> nat \<Rightarrow> bool" where
  "gone b c \<longleftrightarrow> (\<forall>i h w. roles b i = Some (h, w) \<longrightarrow> c \<noteq> h \<and> c \<noteq> w)"

lemma resetter_gone_iff: "channels_ok t \<Longrightarrow> resetter_gone t c \<longleftrightarrow> gone (srv t) c"
  using channels_okD(1) [of t]
  by (fastforce simp: resetter_gone_def gone_def roles_def split: option.splits)

definition has_reader :: "timed \<Rightarrow> nat \<Rightarrow> bool" where
  "has_reader t c \<longleftrightarrow> (\<exists>i. (i, c) \<in> set (waiting t)) \<or> (\<exists>i w. roles (srv t) i = Some (c, w))"

definition timer_fits :: "timed \<Rightarrow> nat \<Rightarrow> nat ResettableTimer \<Rightarrow> bool" where
  "timer_fits t c timer \<longleftrightarrow>
     (\<forall>h. timer_task timer = Some h \<longrightarrow> task_fits (innermost h) (commands_at t c) (gone (srv t) c))"

definition readers_ok :: "timed \<Rightarrow> bool" where
  "readers_ok t \<longleftrightarrow> distinct (map fst (timers t)) \<and>
     (\<forall>i c. (i, c) \<in> set (waiting t) \<longrightarrow> map_of (timers t) c \<noteq> None \<and> (\<forall>j. (j, c) \<in> set (waiting t) \<longrightarrow> j = i)) \<and>
     (\<forall>c timer. map_of (timers t) c = Some timer \<longrightarrow>
        c < rt_next (net (srv t)) \<and> has_reader t c \<and> timer_fits t c timer)"

lemma readers_okD:
  assumes "readers_ok t"
  shows "map_of (timers t) c = Some timer \<Longrightarrow> c < rt_next (net (srv t)) \<and> has_reader t c \<and> timer_fits t c timer"
    "(i, c) \<in> set (waiting t) \<Longrightarrow> map_of (timers t) c \<noteq> None"
    "(i, c) \<in> set (waiting t) \<Longrightarrow> (j, c) \<in> set (waiting t) \<Longrightarrow> i = j"
    "distinct (map fst (timers t))"
  using assms unfolding readers_ok_def by blast+

lemma readers_ok_alarms [simp]: "readers_ok (alarms_update f t) = readers_ok t"
  by (simp add: readers_ok_def has_reader_def timer_fits_def)

lemma timer_fits_mono:
  assumes "timer_fits t c timer" "\<And>h. timer_task timer' = Some h \<Longrightarrow> \<exists>h0. timer_task timer = Some h0 \<and> innermost h = innermost h0"
    and "gone (srv t) c \<Longrightarrow> gone (srv t') c \<and> commands_at t' c = commands_at t c"
  shows "timer_fits t' c timer'"
  using assms unfolding timer_fits_def task_fits_def by metis

text \<open>Timers are dropped with their readers, and the rest of the turn is of no concern to them.\<close>

lemma readers_ok_mono:
  assumes ok: "readers_ok t" and timers: "timers t' = timers t \<or> (\<exists>x. timers t' = AList.delete x (timers t) \<and>
      (\<forall>i. (i, x) \<notin> set (waiting t')))"
    and next_channel: "rt_next (net (srv t)) \<le> rt_next (net (srv t'))"
    and waiting: "\<And>i c. (i, c) \<in> set (waiting t') \<Longrightarrow> (i, c) \<in> set (waiting t)"
    and reader: "\<And>c. map_of (timers t') c \<noteq> None \<Longrightarrow> has_reader t c \<Longrightarrow> has_reader t' c"
    and quiet: "\<And>c. gone (srv t) c \<Longrightarrow> c < rt_next (net (srv t)) \<Longrightarrow> gone (srv t') c \<and> commands_at t' c = commands_at t c"
  shows "readers_ok t'"
proof -
  have sub: "map_of (timers t) c = Some timer" if "map_of (timers t') c = Some timer" for c timer
    using timers that by (auto simp: delete_conv' split: if_splits)
  have "distinct (map fst (timers t'))"
    using ok timers by (auto simp: readers_ok_def distinct_delete)
  moreover have "map_of (timers t') c \<noteq> None \<and> (\<forall>j. (j, c) \<in> set (waiting t') \<longrightarrow> j = i)"
    if "(i, c) \<in> set (waiting t')" for i c
  proof -
    have "map_of (timers t) c \<noteq> None" using waiting [OF that] by (rule readers_okD(2) [OF ok])
    then show ?thesis
      using timers that readers_okD(3) [OF ok waiting [OF that] waiting] by (auto simp: delete_conv')
  qed
  moreover have "c < rt_next (net (srv t')) \<and> has_reader t' c \<and> timer_fits t' c timer"
    if "map_of (timers t') c = Some timer" for c timer
  proof -
    have old: "c < rt_next (net (srv t))" "has_reader t c" "timer_fits t c timer"
      using readers_okD(1) [OF ok sub [OF that]] by simp_all
    have "timer_fits t' c timer"
      by (rule timer_fits_mono [OF old(3)]) (use quiet old(1) in auto)
    with old next_channel reader that show ?thesis by auto
  qed
  ultimately show ?thesis by (simp add: readers_ok_def)
qed


lemma readers_ok_turn:
  assumes chan: "channels_ok t" and ok: "readers_ok t" and s: "sessions (srv t) i = Some s"
    and b: "sessions b = sessions (srv t)" "rt_commands (net b) = rt_commands (net (srv t))"
      "rt_next (net b) = rt_next (net (srv t))"
  shows "readers_ok (timed_turn i s e b t)"
proof (rule readers_ok_mono [OF ok])
  let ?t = "timed_turn i s e b t" and ?b = "session_turn i s e b"
  have mine: "roles (srv t) i = Some (heart s, watch s)" by (simp add: roles_def s)
  have srv: "srv ?t = ?b" "waiting ?t = waiting t" by (simp_all add: timed_turn_def Let_def)
  have roles: "roles ?b j = roles (srv t) j \<or> j = i \<and> roles ?b i = None" for j
  proof (cases "j = i")
    case True
    then show ?thesis using mine by (cases rule: session_turn_net [of i s e b]) simp_all
  qed (simp add: roles_def b(1))
  consider (goes_on) "timers ?t = timers t" "sessions ?b i \<noteq> None"
    | (ends) "timers ?t = AList.delete (heart s) (timers t)"
    by (cases "sessions ?b i") (auto simp: timed_turn_def Let_def)
  note cases = this
  show "timers ?t = timers t \<or> (\<exists>x. timers ?t = AList.delete x (timers t) \<and> (\<forall>j. (j, x) \<notin> set (waiting ?t)))"
    using channels_okD(7) [OF chan mine] unfolding srv by (cases rule: cases) blast+
  show "rt_next (net (srv t)) \<le> rt_next (net (srv ?t))" by (simp add: srv session_turn_commands b)
  show "(j, c) \<in> set (waiting ?t) \<Longrightarrow> (j, c) \<in> set (waiting t)" for j c by (simp add: srv)
  show "has_reader ?t c" if c: "map_of (timers ?t) c \<noteq> None" and old: "has_reader t c" for c
  proof (cases "\<exists>j w. roles (srv t) j = Some (c, w)")
    case True
    then obtain j w where r: "roles (srv t) j = Some (c, w)" by blast
    have "roles ?b j = roles (srv t) j"
    proof (cases rule: cases)
      case goes_on
      then show ?thesis using roles [of j] by (auto simp: roles_def)
    next
      case ends
      with c have "c \<noteq> heart s" by (auto simp: delete_conv')
      with r mine show ?thesis using roles [of j] by auto
    qed
    with r show ?thesis by (auto simp: has_reader_def srv)
  qed (use old in \<open>auto simp: has_reader_def srv\<close>)
  show "gone (srv ?t) c \<and> commands_at ?t c = commands_at t c" if "gone (srv t) c" for c
  proof
    show "gone (srv ?t) c"
      unfolding gone_def srv
    proof (intro allI impI)
      fix j h w assume "roles ?b j = Some (h, w)"
      then have "roles (srv t) j = Some (h, w)" using roles [of j] by auto
      with that show "c \<noteq> h \<and> c \<noteq> w" by (auto simp: gone_def)
    qed
    have "c \<noteq> heart s \<and> c \<noteq> watch s" using that mine by (auto simp: gone_def)
    then show "commands_at ?t c = commands_at t c" by (simp add: srv session_turn_commands b)
  qed
qed

lemma readers_ok_end:
  assumes chan: "channels_ok t" and ok: "readers_ok t" and s: "sessions (srv t) i = Some s"
  shows "readers_ok (timed_end i s t)"
proof (rule readers_ok_mono [OF ok])
  let ?t = "timed_end i s t"
  have mine: "roles (srv t) i = Some (heart s, watch s)" by (simp add: roles_def s)
  have t': "srv ?t = end_session i (srv t)" "waiting ?t = waiting t" "timers ?t = AList.delete (heart s) (timers t)"
    by (simp_all add: timed_end_def)
  have roles: "roles (end_session i (srv t)) j = (if j = i then None else roles (srv t) j)" for j
    by (simp add: roles_def end_session_def)
  show "timers ?t = timers t \<or> (\<exists>x. timers ?t = AList.delete x (timers t) \<and> (\<forall>j. (j, x) \<notin> set (waiting ?t)))"
    using channels_okD(7) [OF chan mine] unfolding t' by blast
  show "rt_next (net (srv t)) \<le> rt_next (net (srv ?t))" by (simp add: t' end_session_def)
  show "(j, c) \<in> set (waiting ?t) \<Longrightarrow> (j, c) \<in> set (waiting t)" for j c by (simp add: t')
  show "has_reader ?t c" if c: "map_of (timers ?t) c \<noteq> None" and old: "has_reader t c" for c
  proof -
    have "c \<noteq> heart s" using c by (auto simp: t' delete_conv')
    then have "j \<noteq> i" if "roles (srv t) j = Some (c, w)" for j w using that mine by auto
    with old show ?thesis unfolding has_reader_def t' roles by metis
  qed
  show "gone (srv ?t) c \<and> commands_at ?t c = commands_at t c" if "gone (srv t) c" for c
  proof
    show "gone (srv ?t) c" using that unfolding gone_def t' by (auto simp: roles split: if_splits)
  qed (simp add: t' end_session_def)
qed

lemma readers_ok_world:
  assumes ok: "readers_ok t" and v: "rt_commands v = rt_commands (net (srv t))" "rt_next (net (srv t)) \<le> rt_next v"
  shows "readers_ok (t\<lparr>srv := (srv t)\<lparr>net := v\<rparr>\<rparr>)"
proof (rule readers_ok_mono [OF ok])
  have "roles (srv t\<lparr>net := v\<rparr>) = roles (srv t)" by (simp add: roles_def fun_eq_iff)
  then show "has_reader t c \<Longrightarrow> has_reader (t\<lparr>srv := (srv t)\<lparr>net := v\<rparr>\<rparr>) c"
    "gone (srv t) c \<Longrightarrow> gone (srv (t\<lparr>srv := (srv t)\<lparr>net := v\<rparr>\<rparr>)) c \<and>
      commands_at (t\<lparr>srv := (srv t)\<lparr>net := v\<rparr>\<rparr>) c = commands_at t c" for c
    by (simp_all add: has_reader_def gone_def v)
qed (use v in simp_all)

text \<open>One timer moves on.\<close>

lemma readers_ok_update:
  assumes ok: "readers_ok t" and c: "map_of (timers t) c \<noteq> None" and timer: "timer_fits t c timer'"
  shows "readers_ok (t\<lparr>timers := AList.update c timer' (timers t)\<rparr>)"
proof -
  let ?t = "t\<lparr>timers := AList.update c timer' (timers t)\<rparr>"
  have "has_reader ?t = has_reader t" "timer_fits ?t = timer_fits t"
    by (simp_all add: has_reader_def timer_fits_def fun_eq_iff)
  then show ?thesis
    using assms by (auto simp: readers_ok_def distinct_update update_conv')
qed

lemma poll_next_fits:
  assumes "timer_fits t c timer" "poll_next id timer = (out, timer')"
  shows "timer_fits t c timer'"
proof (cases "timer_task timer")
  case None
  with assms(2) show ?thesis
    by (auto simp: timer_fits_def poll_next_def initialise_def Let_def task_fits_def split: option.splits)
next
  case (Some h)
  with assms show ?thesis
    by (cases h) (auto simp: timer_fits_def poll_next_def poll_existing_task_def)
qed

lemma readers_ok_run_timer:
  assumes chan: "channels_ok t" and ok: "readers_ok t" and c: "map_of (timers t) c = Some timer" "timer_task timer = Some h"
  shows "readers_ok (run_timer sf c timer h t)"
proof -
  obtain h' rest where run: "run_handle sf (clock t) h (commands_at t c) (resetter_gone t c) = (h', rest)"
    by (cases "run_handle sf (clock t) h (commands_at t c) (resetter_gone t c)")
  let ?t1 = "t\<lparr>srv := (srv t)\<lparr>net := (net (srv t))\<lparr>rt_commands := (rt_commands (net (srv t)))\<lparr>mb_queue :=
        (mb_queue (rt_commands (net (srv t))))(c := rest)\<rparr>\<rparr>\<rparr>\<rparr>"
  let ?t = "?t1\<lparr>timers := AList.update c (timer\<lparr>timer_task := Some h'\<rparr>) (timers t)\<rparr>"
  have fits: "task_fits (innermost h') rest (gone (srv t) c)"
  proof (rule run_handle_fits)
    show "task_fits (innermost h) (commands_at t c) (gone (srv t) c)"
      using ok c by (simp add: readers_ok_def timer_fits_def)
    show "run_handle sf (clock t) h (commands_at t c) (gone (srv t) c) = (h', rest)"
      using run by (simp add: resetter_gone_iff [OF chan])
  qed
  have roles: "roles (srv ?t) = roles (srv t)" by (simp add: roles_def fun_eq_iff)
  then have "has_reader ?t = has_reader t" "gone (srv ?t) = gone (srv t)"
    by (simp_all add: has_reader_def gone_def fun_eq_iff)
  moreover have "timer_fits ?t x timer1" if "x \<noteq> c" "timer_fits t x timer1" for x timer1
    using that \<open>gone (srv ?t) = gone (srv t)\<close> by (simp add: timer_fits_def)
  moreover have "timer_fits ?t c (timer\<lparr>timer_task := Some h'\<rparr>)"
    using fits \<open>gone (srv ?t) = gone (srv t)\<close> by (simp add: timer_fits_def)
  ultimately have "readers_ok ?t"
    using ok c(1) by (auto simp: readers_ok_def distinct_update update_conv')
  then show ?thesis by (simp add: run_timer_def run)
qed


lemma readers_ok_poll_heart:
  assumes ok: "timed_ok t" "readers_ok t" and s: "sessions (srv t) i = Some s"
    and timer: "map_of (timers t) (heart s) = Some timer"
  shows "readers_ok (poll_heart i s timer t)"
proof -
  have chan: "channels_ok t" and mine: "roles (srv t) i = Some (heart s, watch s)"
    using ok(1) s by (simp_all add: timed_ok_def roles_def)
  obtain out timer' where poll: "poll_next id timer = (out, timer')" by (cases "poll_next id timer")
  let ?t = "t\<lparr>timers := AList.update (heart s) timer' (timers t)\<rparr>"
  have "timer_fits t (heart s) timer'"
    by (rule poll_next_fits [OF _ poll]) (use readers_okD(1) [OF ok(2) timer] in simp)
  then have updated: "readers_ok ?t" using readers_ok_update [OF ok(2)] timer by simp
  have turned: "readers_ok (timed_turn i s EvHeartbeat (srv t) ?t)"
    by (rule readers_ok_turn [OF _ updated]) (use chan s in \<open>simp_all add: channels_ok_def\<close>)
  have "served t (heart s) (heart_period t i) (told t i)" using ok(1) mine by (simp add: timed_ok_def)
  then have "timer_ok (clock t) (heart_period t i) (told t i) (commands_at t (heart s)) timer"
    using timer by (simp add: served_def)
  then show ?thesis
    using poll by (cases rule: timer_ok_poll) (use updated turned in \<open>simp_all add: poll_heart_def poll\<close>)
qed

lemma readers_ok_poll_watch:
  assumes ok: "timed_ok t" "readers_ok t" and wait: "(i, c) \<in> set (waiting t)" and timer: "map_of (timers t) c = Some timer"
  shows "readers_ok (poll_watch i c timer t)"
proof -
  have chan: "channels_ok t" using ok(1) by (simp add: timed_ok_def)
  obtain out timer' where poll: "poll_next id timer = (out, timer')" by (cases "poll_next id timer")
  let ?t = "t\<lparr>timers := AList.update c timer' (timers t)\<rparr>"
  have "timer_fits t c timer'"
    by (rule poll_next_fits [OF _ poll]) (use readers_okD(1) [OF ok(2) timer] in simp)
  then have updated: "readers_ok ?t" using readers_ok_update [OF ok(2)] timer by simp
  have dropped: "readers_ok (t\<lparr>srv := (srv t)\<lparr>net := v\<rparr>, timers := AList.delete c (timers t),
      waiting := removeAll (i, c) (waiting t)\<rparr>)"
    if v: "rt_commands v = rt_commands (net (srv t))" "rt_next v = rt_next (net (srv t))" for v
  proof (rule readers_ok_mono [OF ok(2)])
    let ?t = "t\<lparr>srv := (srv t)\<lparr>net := v\<rparr>, timers := AList.delete c (timers t),
      waiting := removeAll (i, c) (waiting t)\<rparr>"
    have "roles (srv ?t) = roles (srv t)" by (simp add: roles_def fun_eq_iff)
    moreover have "x \<noteq> c" if "map_of (timers ?t) x \<noteq> None" for x using that by (auto simp: delete_conv')
    ultimately show "map_of (timers ?t) x \<noteq> None \<Longrightarrow> has_reader t x \<Longrightarrow> has_reader ?t x"
      "gone (srv t) x \<Longrightarrow> gone (srv ?t) x \<and> commands_at ?t x = commands_at t x" for x
      by (fastforce simp: has_reader_def gone_def v)+
  qed (use v readers_okD(3) [OF ok(2) wait] in auto)
  have "snd (heartbeat_listener rt_event_send p fired w) = snd (rt_event_send (client_sender p) (EvError ''Missed heartbeat'') w)"
    for p fired and w :: runtime
    by (simp add: heartbeat_listener_def send_event_def bind_io_def rt_event_send_def fifo_send_def)
  then have world: "rt_commands (snd (heartbeat_listener rt_event_send p fired w)) = rt_commands w"
    "rt_next (snd (heartbeat_listener rt_event_send p fired w)) = rt_next w" for p fired and w :: runtime
    by (simp_all add: rt_event_send_def fifo_send_def)
  show ?thesis
    using updated dropped [OF world] dropped [of "net (srv t)"]
    by (simp add: poll_watch_def poll split: outcome.split Poll.split)
qed


lemma readers_ok_admit:
  assumes ok: "timed_ok t" "readers_ok t"
    and run: "handle_connection_validation_result rt_setup (Inr (hb, DefaultClient)) rt_registry_handle (net (srv t)) =
      (Ret (Accepted conn), v)"
  shows "readers_ok (admit hb conn v t)"
proof -
  let ?t = "admit hb conn v t"
  from run obtain n beat listen where n: "n = rt_next (net (srv t))"
    and timer: "beat = \<lparr>timer_period = from_millis (unat (expected hb)), timer_receiver = Some (n + 1), timer_task = None\<rparr>"
      "listen = \<lparr>timer_period = from_millis (unat (the (heartbeat_with_buffer False (supplied hb)))),
        timer_receiver = Some (n + 2), timer_task = None\<rparr>"
    and roles: "\<And>j. roles (srv ?t) j = (if j = n then Some (n + 1, n + 2) else roles (srv t) j)"
    and t': "timers ?t = AList.update (n + 1) beat (AList.update (n + 2) listen (timers t))"
      "waiting ?t = (n, n + 2) # waiting t"
    and world: "rt_next (net (srv ?t)) = n + 3"
      "\<And>c. commands_at ?t c = (if c = n + 1 \<or> c = n + 2 then [] else commands_at t c)"
    by (rule admitE) (rule that)
  have chan: "channels_ok t" using ok(1) by (simp add: timed_ok_def)
  have less: "c < n" if "(j, c) \<in> set (waiting t)" for j c using chan that unfolding channels_ok_def n by blast
  have fresh: "roles (srv t) n = None"
    using channels_okD(2) [OF chan, of n] by (cases "roles (srv t) n") (auto simp: n)
  have "c < rt_next (net (srv ?t)) \<and> has_reader ?t c \<and> timer_fits ?t c timer1"
    if c: "map_of (timers ?t) c = Some timer1" for c timer1
  proof (cases "c = n + 1 \<or> c = n + 2")
    case True
    with c have "timer_task timer1 = None" by (auto simp: t' update_conv' timer split: if_splits)
    moreover have "has_reader ?t c"
      using True roles [of n] by (auto simp: has_reader_def t')
    ultimately show ?thesis using True by (auto simp: timer_fits_def world)
  next
    case False
    with c have old: "map_of (timers t) c = Some timer1" by (auto simp: t' update_conv' split: if_splits)
    note fits = readers_okD(1) [OF ok(2) old]
    have "has_reader ?t c"
    proof (cases "\<exists>j w. roles (srv t) j = Some (c, w)")
      case True
      then obtain j w where "roles (srv t) j = Some (c, w)" by blast
      moreover from this fresh have "j \<noteq> n" by auto
      ultimately have "roles (srv ?t) j = Some (c, w)" by (simp add: roles)
      then show ?thesis by (auto simp: has_reader_def)
    qed (use fits in \<open>auto simp: has_reader_def t'\<close>)
    moreover have "timer_fits ?t c timer1"
    proof (rule timer_fits_mono [of t])
      show "gone (srv ?t) c \<and> commands_at ?t c = commands_at t c" if "gone (srv t) c"
        using that False by (auto simp: gone_def roles world split: if_splits)
    qed (use fits in auto)
    ultimately show ?thesis using fits by (simp add: world n)
  qed
  moreover have "distinct (map fst (timers ?t))"
    using readers_okD(4) [OF ok(2)] by (simp add: t' distinct_update)
  moreover have "map_of (timers ?t) c \<noteq> None \<and> (\<forall>k. (k, c) \<in> set (waiting ?t) \<longrightarrow> k = j)"
    if "(j, c) \<in> set (waiting ?t)" for j c
    using that less readers_okD(2,3) [OF ok(2)] by (fastforce simp: t' update_conv')
  ultimately show "readers_ok ?t" unfolding readers_ok_def by blast
qed

lemma readers_ok_prompt: "prompt_step t t' \<Longrightarrow> timed_ok t \<Longrightarrow> readers_ok t \<Longrightarrow> readers_ok t'"
proof (induction rule: prompt_step.induct)
  case (from_server t i s e rest)
  then show ?case by (intro readers_ok_turn) (simp_all add: timed_ok_def)
next
  case (subscribe_task t before task after)
  then show ?case by (intro readers_ok_world) (simp_all add: subscribe_task_keeps order_trans [OF _ subscribe_task_keeps(2)])
next
  case (backend t d bk a rest iter u)
  then show ?case by (intro readers_ok_world) (simp_all add: backend_turn_keeps)
next
  case (timer t c timer h sf)
  then show ?case by (intro readers_ok_run_timer) (simp_all add: timed_ok_def)
qed (auto intro: readers_ok_poll_heart readers_ok_poll_watch)

lemma readers_ok_step: "timed_step t t' \<Longrightarrow> timed_ok t \<Longrightarrow> readers_ok t \<Longrightarrow> readers_ok t'"
proof (induction rule: timed_step.induct)
  case (from_client t i s e)
  then show ?case by (intro readers_ok_turn) (simp_all add: timed_ok_def)
next
  case (sink_fails t i s)
  then show ?case by (intro readers_ok_end) (simp_all add: timed_ok_def)
next
  case (time t dt)
  then show ?case
    by (auto simp: readers_ok_def has_reader_def timer_fits_def)
qed (auto intro: readers_ok_admit readers_ok_prompt)

lemma timed_run_readers: "timed_run t \<Longrightarrow> readers_ok t"
proof (induction rule: timed_run.induct)
  case start
  show ?case by (simp add: readers_ok_def timed_start_def)
next
  case (step t t')
  then show ?case using readers_ok_step timed_run_ok by blast
qed


section \<open>The server drains its queues\<close>

lemma prompt_run:
  assumes "prompt_step\<^sup>*\<^sup>* t t'" "timed_run t"
  shows "timed_run t'"
  using assms by (induction rule: rtranclp_induct) (auto intro: timed_run.step timed_step.prompt)

lemma internal_step_lift:
  assumes "internal_step (srv t) b'"
  obtains t' where "prompt_step t t'" "srv t' = b'" "waiting t' = waiting t" "clock t' = clock t"
  using assms
proof cases
  case (from_server i s e rest)
  show thesis
    by (rule that [OF prompt_step.from_server [OF from_server(2,3)]])
      (simp_all add: from_server(1) timed_turn_def Let_def)
next
  case (subscribe_task before task after)
  show thesis
    by (rule that [OF prompt_step.subscribe_task [OF subscribe_task(2)]]) (simp_all add: subscribe_task(1))
next
  case (backend d bk a rest iter u)
  show thesis
    by (rule that [OF prompt_step.backend [OF backend(2-4)]]) (simp_all add: backend(1))
qed

lemma internal_run_lift:
  assumes "internal_step\<^sup>*\<^sup>* (srv t) b'"
  obtains t' where "prompt_step\<^sup>*\<^sup>* t t'" "srv t' = b'" "waiting t' = waiting t" "clock t' = clock t"
  using assms
proof (induction arbitrary: thesis rule: rtranclp_induct)
  case (step b1 b2)
  from step.IH obtain t1 where t1: "prompt_step\<^sup>*\<^sup>* t t1" "srv t1 = b1" "waiting t1 = waiting t" "clock t1 = clock t" .
  with step.hyps(2) have "internal_step (srv t1) b2" by simp
  then obtain t2 where "prompt_step t1 t2" "srv t2 = b2" "waiting t2 = waiting t1" "clock t2 = clock t1"
    by (rule internal_step_lift)
  with t1 show ?case by (intro step.prems [of t2]) (simp_all add: rtranclp.rtrancl_into_rtrancl)
qed auto

definition drained :: "timed \<Rightarrow> bool" where
  "drained t \<longleftrightarrow> (\<forall>i. sessions (srv t) i \<noteq> None \<longrightarrow> mb_queue (rt_events (net (srv t))) i = [])"

lemma draining_run:
  assumes "timed_run t"
  obtains t' where "prompt_step\<^sup>*\<^sup>* t t'" "drained t'" "waiting t' = waiting t" "clock t' = clock t"
proof -
  obtain b' where b': "internal_step\<^sup>*\<^sup>* (srv t) b'" "settled b'"
    using settling_run [OF timed_run_reachable [OF assms]] by blast
  from b'(1) show thesis
    by (rule internal_run_lift) (use b'(2) in \<open>auto simp: settled_def drained_def intro: that\<close>)
qed


section \<open>The timers fall asleep\<close>

definition rests :: "timed \<Rightarrow> nat \<Rightarrow> bool" where
  "rests t c \<longleftrightarrow> (\<exists>timer task. map_of (timers t) c = Some timer \<and> timer_task timer = Some (Running task) \<and>
     asleep task \<and> commands_at t c = [] \<and> (\<forall>d. due task = Some d \<longrightarrow> clock t < d))"

definition restless :: "timed \<Rightarrow> nat set" where
  "restless t = {c. map_of (timers t) c \<noteq> None \<and> \<not> rests t c}"

lemma finite_restless: "finite (restless t)"
  by (rule finite_subset [of _ "dom (map_of (timers t))"]) (auto simp: restless_def finite_dom_map_of)

text \<open>Turns that concern the timer of channel \<open>c\<close> only.\<close>

definition same_but :: "nat \<Rightarrow> timed \<Rightarrow> timed \<Rightarrow> bool" where
  "same_but c t t' \<longleftrightarrow> clock t' = clock t \<and> waiting t' = waiting t \<and> (drained t \<longrightarrow> drained t') \<and>
     roles (srv t') = roles (srv t) \<and>
     (\<forall>x. x \<noteq> c \<longrightarrow> map_of (timers t') x = map_of (timers t) x \<and> commands_at t' x = commands_at t x)"

lemma same_but_trans: "same_but c t t1 \<Longrightarrow> same_but c t1 t2 \<Longrightarrow> same_but c t t2"
  by (simp add: same_but_def)

lemma restless_less:
  assumes "same_but c t t'" "rests t' c" "c \<in> restless t"
  shows "restless t' \<subset> restless t"
proof
  have "rests t' x = rests t x" if "x \<noteq> c" for x
    using assms(1) that by (simp add: rests_def same_but_def)
  note same = this
  show "restless t' \<subseteq> restless t"
  proof
    fix x assume x: "x \<in> restless t'"
    then have "x \<noteq> c" using assms(2) by (auto simp: restless_def)
    with x same [of x] assms(1) show "x \<in> restless t" by (simp add: restless_def same_but_def)
  qed
  show "restless t' \<noteq> restless t" using assms(2,3) by (auto simp: restless_def)
qed

lemma same_but_update:
  "same_but c t (t\<lparr>timers := AList.update c timer' (timers t)\<rparr>)"
  by (simp add: same_but_def drained_def update_conv')

text \<open>The task runs: it sleeps then, or its time had come.\<close>

lemma run_running:
  assumes ok: "timed_ok t" "readers_ok t" and c: "map_of (timers t) c = Some timer" "timer_task timer = Some (Running task)"
  obtains (rests) t' where "prompt_step t t'" "same_but c t t'" "rests t' c"
  | (fired) t' task' d where "prompt_step t t'" "same_but c t t'"
      "map_of (timers t') c = Some (timer\<lparr>timer_task := Some (Completed (Running task'))\<rparr>)"
      "due task = Some d" "d \<le> clock t"
proof -
  have chan: "channels_ok t" using ok(1) by (simp add: timed_ok_def)
  have fits: "task_fits task (commands_at t c) (gone (srv t) c)"
    using readers_okD(1) [OF ok(2) c(1)] c(2) by (simp add: timer_fits_def)
  let ?t = "run_timer True c timer (Running task) t"
  have step: "prompt_step t ?t" using c by (rule prompt_step.timer)
  obtain r rest where poll: "poll_task True (clock t) task (commands_at t c) (gone (srv t) c) = (r, rest)"
    by (cases "poll_task True (clock t) task (commands_at t c) (gone (srv t) c)")
  obtain h' where run: "run_handle True (clock t) (Running task) (commands_at t c) (resetter_gone t c) = (h', rest)"
    and h': "h' = (case r of TaskPending task' \<Rightarrow> Running task' | TaskFired task' \<Rightarrow> Completed (Running task'))"
    by (simp add: poll resetter_gone_iff [OF chan] split: TaskPoll.split)
  have t': "timers ?t = AList.update c (timer\<lparr>timer_task := Some h'\<rparr>) (timers t)" "clock ?t = clock t"
      "waiting ?t = waiting t" "sessions (srv ?t) = sessions (srv t)"
      "rt_events (net (srv ?t)) = rt_events (net (srv t))" "commands_at ?t x = (if x = c then rest else commands_at t x)" for x
    unfolding run_timer_def run prod.case by simp_all
  have same: "same_but c t ?t"
    by (simp add: same_but_def drained_def t' update_conv' roles_def fun_eq_iff)
  show thesis
  proof (cases r)
    case (TaskPending task')
    note asleep = poll_task_fits(2) [OF fits poll [unfolded TaskPending]]
    then have "rests ?t c"
      using h' TaskPending by (auto simp: rests_def t' update_conv')
    with step same show thesis by (rule rests)
  next
    case (TaskFired task')
    have "Timer_Spec.task_ok task" using fits by (simp add: task_fits_def)
    then obtain d where "due task = Some d" "d \<le> clock t"
      using poll_task_fired poll TaskFired by blast
    with step same h' TaskFired show thesis by (intro fired [of ?t]) (simp_all add: t' update_conv')
  qed
qed


lemma run_rests:
  assumes "timed_ok t" "readers_ok t" "map_of (timers t) c = Some timer" "timer_task timer = Some (Running task)"
    and "\<And>d. due task = Some d \<Longrightarrow> clock t < d"
  obtains t' where "prompt_step t t'" "same_but c t t'" "rests t' c"
  using assms(1-4) by (rule run_running) (use that assms(5) in fastforce)+

text \<open>A watch falls asleep, or its listener is done.\<close>

lemma watch_completed:
  assumes "(i, c) \<in> set (waiting t)" "map_of (timers t) c = Some timer" "timer_task timer = Some (Completed h)"
  shows "\<exists>t'. prompt_step t t' \<and> clock t' = clock t \<and> length (waiting t') < length (waiting t)"
  using prompt_step.listener [OF assms(1,2)] assms(1,3)
  by (intro exI [of _ "poll_watch i c timer t"])
    (simp add: poll_watch_def poll_next_def poll_existing_task_def length_removeAll_less)

lemma watch_running:
  assumes run: "timed_run t" and wait: "(i, c) \<in> set (waiting t)" and timer: "map_of (timers t) c = Some timer"
    and task: "timer_task timer = Some (Running task)"
  shows "\<exists>t'. prompt_step\<^sup>*\<^sup>* t t' \<and> clock t' = clock t \<and>
    (length (waiting t') < length (waiting t) \<or> same_but c t t' \<and> rests t' c)"
proof (rule run_running [OF timed_run_ok [OF run] timed_run_readers [OF run] timer task])
  fix t1 assume "prompt_step t t1" "same_but c t t1" "rests t1 c"
  then show ?thesis by (auto simp: same_but_def)
next
  fix t1 task1 d
  assume s: "prompt_step t t1" "same_but c t t1"
    and timer1: "map_of (timers t1) c = Some (timer\<lparr>timer_task := Some (Completed (Running task1))\<rparr>)"
  from s(2) wait have "(i, c) \<in> set (waiting t1)" by (simp add: same_but_def)
  from watch_completed [OF this timer1]
  obtain t2 where "prompt_step t1 t2" "clock t2 = clock t1" "length (waiting t2) < length (waiting t1)"
    by auto
  with s show ?thesis by (intro exI [of _ t2]) (auto simp: same_but_def)
qed

lemma watch_falls_asleep:
  assumes run: "timed_run t" and wait: "(i, c) \<in> set (waiting t)"
  shows "\<exists>t'. prompt_step\<^sup>*\<^sup>* t t' \<and> clock t' = clock t \<and>
    (length (waiting t') < length (waiting t) \<or> same_but c t t' \<and> rests t' c)"
proof -
  obtain timer where m: "map_of (timers t) c = Some timer"
    using readers_okD(2) [OF timed_run_readers [OF run] wait] by auto
  show ?thesis
  proof (cases "timer_task timer")
    case (Some h)
    then show ?thesis
      using watch_running [OF run wait m] watch_completed [OF wait m] by (cases h) (blast+)
  next
    case None
    let ?t = "poll_watch i c timer t"
    have step: "prompt_step t ?t" using wait m by (rule prompt_step.listener)
    show ?thesis
    proof (cases "timer_receiver timer")
      case None
      with step wait \<open>timer_task timer = None\<close> show ?thesis
        by (intro exI [of _ ?t]) (auto simp: poll_watch_def poll_next_def initialise_def length_removeAll_less)
    next
      case (Some rx)
      let ?timer = "timer\<lparr>timer_receiver := None, timer_task := Some (Running (Starting (timer_period timer)))\<rparr>"
      have t: "?t = t\<lparr>timers := AList.update c ?timer (timers t)\<rparr>"
        using Some None by (simp add: poll_watch_def poll_next_def initialise_def Let_def)
      have "timed_run ?t" using run step by (blast intro: timed_run.step timed_step.prompt)
      from watch_running [OF this, of i c ?timer] obtain t2 where "prompt_step\<^sup>*\<^sup>* ?t t2" "clock t2 = clock ?t"
          "length (waiting t2) < length (waiting ?t) \<or> same_but c ?t t2 \<and> rests t2 c"
        using wait by (auto simp: t update_conv')
      moreover have "same_but c t ?t" unfolding t by (rule same_but_update)
      ultimately show ?thesis
        using step by (intro exI [of _ t2]) (auto simp: same_but_def intro: converse_rtranclp_into_rtranclp)
    qed
  qed
qed


text \<open>The timer behind a session's heartbeats falls asleep, after a heartbeat if one is due.\<close>

lemma heart_served:
  "timed_run t \<Longrightarrow> roles (srv t) i = Some (c, w) \<Longrightarrow> served t c (heart_period t i) (told t i)"
  using timed_run_ok by (simp add: timed_ok_def)

lemma undue_rests:
  assumes "timed_run t" "map_of (timers t) c = Some timer" "timer_task timer = Some (Running task)"
    and "\<And>d. due task = Some d \<Longrightarrow> clock t < d"
  shows "\<exists>t'. prompt_step t t' \<and> same_but c t t' \<and> rests t' c"
  using run_rests [OF timed_run_ok [OF assms(1)] timed_run_readers [OF assms(1)] assms(2-4)] by blast

lemma heart_beats:
  assumes run: "timed_run t" and role: "roles (srv t) i = Some (c, w)" and m: "map_of (timers t) c = Some timer"
    and task: "timer_task timer = Some (Completed (Running task))"
  shows "\<exists>t'. prompt_step\<^sup>*\<^sup>* t t' \<and> same_but c t t' \<and> rests t' c"
proof -
  obtain s where s: "sessions (srv t) i = Some s" "heart s = c" using role by (auto simp: roles_def)
  have ok: "handle_ok (clock t) (heart_period t i) (told t i) (commands_at t c \<noteq> []) (Completed (Running task))"
    using heart_served [OF run role] m task by (simp add: served_def timer_ok_def)
  then have later: "clock t < d" if "due task = Some d" for d
    using that as_millis_pos by (cases task) (auto simp: on_time_def)
  let ?t = "poll_heart i s timer t" and ?timer = "timer\<lparr>timer_task := Some (Running task)\<rparr>"
  let ?t1 = "t\<lparr>timers := AList.update c ?timer (timers t)\<rparr>"
  have step: "prompt_step t ?t" using s m by (intro prompt_step.heartbeat) simp_all
  have t: "?t = timed_turn i s EvHeartbeat (srv t) ?t1"
    using task by (simp add: poll_heart_def poll_next_def poll_existing_task_def s(2))
  have turned: "sessions (session_turn i s EvHeartbeat (srv t)) = sessions (srv t)"
    "net (session_turn i s EvHeartbeat (srv t)) = net (srv t)"
    using s(1) by (auto simp: session_turn_def handle_event_def send_heartbeat_def not_dead_def Let_def)
  have t': "timers ?t = timers ?t1" "clock ?t = clock t" "waiting ?t = waiting t"
      "sessions (srv ?t) = sessions (srv t)" "net (srv ?t) = net (srv t)"
    using s(1) by (simp_all add: t timed_turn_def Let_def turned)
  have same: "same_but c t ?t" by (simp add: same_but_def drained_def t' update_conv' roles_def fun_eq_iff)
  have "timed_run ?t" using run step by (blast intro: timed_run.step timed_step.prompt)
  from undue_rests [OF this, of c ?timer task] later obtain t2 where "prompt_step ?t t2" "same_but c ?t t2" "rests t2 c"
    by (auto simp: t' update_conv')
  with step same show ?thesis
    by (intro exI [of _ t2]) (auto intro: same_but_trans converse_rtranclp_into_rtranclp)
qed

lemma heart_falls_asleep:
  assumes run: "timed_run t" and role: "roles (srv t) i = Some (c, w)"
  shows "\<exists>t'. prompt_step\<^sup>*\<^sup>* t t' \<and> same_but c t t' \<and> rests t' c"
proof -
  obtain timer where m: "map_of (timers t) c = Some timer"
      "timer_ok (clock t) (heart_period t i) (told t i) (commands_at t c) timer"
    using heart_served [OF run role] by (auto simp: served_def)
  show ?thesis
  proof (cases "timer_task timer")
    case None
    obtain s where s: "sessions (srv t) i = Some s" "heart s = c" using role by (auto simp: roles_def)
    let ?t = "poll_heart i s timer t"
    let ?timer = "timer\<lparr>timer_receiver := None, timer_task := Some (Running (Starting (timer_period timer)))\<rparr>"
    have step: "prompt_step t ?t" using s m(1) by (intro prompt_step.heartbeat) simp_all
    have t: "?t = t\<lparr>timers := AList.update c ?timer (timers t)\<rparr>"
      using m(2) None s(2) by (auto simp: timer_ok_def poll_heart_def poll_next_def initialise_def Let_def)
    have "timed_run ?t" using run step by (blast intro: timed_run.step timed_step.prompt)
    from undue_rests [OF this, of c ?timer] obtain t2 where "prompt_step ?t t2" "same_but c ?t t2" "rests t2 c"
      by (auto simp: t update_conv')
    moreover have "same_but c t ?t" unfolding t by (rule same_but_update)
    ultimately show ?thesis
      using step by (intro exI [of _ t2]) (auto intro: same_but_trans converse_rtranclp_into_rtranclp)
  next
    case (Some h)
    show ?thesis
    proof (cases h)
      case (Running task)
      show ?thesis
      proof (rule run_running [OF timed_run_ok [OF run] timed_run_readers [OF run] m(1)])
        show "timer_task timer = Some (Running task)" by (simp add: Some Running)
      next
        fix t1 assume "prompt_step t t1" "same_but c t t1" "rests t1 c"
        then show ?thesis by blast
      next
        fix t1 task1 d
        assume s: "prompt_step t t1" "same_but c t t1"
          and m1: "map_of (timers t1) c = Some (timer\<lparr>timer_task := Some (Completed (Running task1))\<rparr>)"
        have r1: "timed_run t1" using run s(1) by (blast intro: timed_run.step timed_step.prompt)
        have "roles (srv t1) i = Some (c, w)" using s(2) role by (simp add: same_but_def)
        from heart_beats [OF r1 this m1] obtain t2 where "prompt_step\<^sup>*\<^sup>* t1 t2" "same_but c t1 t2" "rests t2 c" by auto
        with s show ?thesis
          by (intro exI [of _ t2]) (auto intro: same_but_trans converse_rtranclp_into_rtranclp)
      qed
    next
      case (Completed h')
      then obtain task where "h' = Running task" using m(2) Some by (cases h') (auto simp: timer_ok_def)
      with heart_beats [OF run role m(1)] Some Completed show ?thesis by simp
    qed
  qed
qed


section \<open>Time goes on\<close>

lemma time_passes:
  assumes ok: "readers_ok t" and "drained t" "restless t = {}"
  shows "at_rest t" "may_pass 1 t"
proof -
  have "rests t c" if "(c, timer) \<in> set (timers t)" for c timer
    using assms(3) that readers_okD(4) [OF ok] by (force simp: restless_def)
  moreover have "map_of (timers t) c = Some timer" if "(c, timer) \<in> set (timers t)" for c timer
    using that readers_okD(4) [OF ok] by simp
  ultimately have each: "\<exists>task. timer_task timer = Some (Running task) \<and> asleep task \<and> commands_at t c = [] \<and>
      (\<forall>d. due task = Some d \<longrightarrow> clock t < d)" if "(c, timer) \<in> set (timers t)" for c timer
    using that unfolding rests_def by fastforce
  then show "at_rest t" "may_pass 1 t"
    using assms(2) by (auto simp: at_rest_def may_pass_def drained_def dest!: each split: option.split)
qed

lemma falling_asleep:
  assumes "timed_run t"
  shows "\<exists>t'. prompt_step\<^sup>*\<^sup>* t t' \<and> clock t' = clock t \<and> at_rest t' \<and> may_pass 1 t'"
  using assms
proof (induction "length (waiting t)" arbitrary: t rule: less_induct)
  case (less t)
  note outer = less.hyps
  have asleep: "\<exists>t'. prompt_step\<^sup>*\<^sup>* u t' \<and> clock t' = clock u \<and> at_rest t' \<and> may_pass 1 t'"
    if "timed_run u" "drained u" "waiting u = waiting t" for u
    using that
  proof (induction "card (restless u)" arbitrary: u rule: less_induct)
    case (less u)
    show ?case
    proof (cases "restless u = {}")
      case True
      with less.prems time_passes timed_run_readers show ?thesis by blast
    next
      case False
      then obtain c where c: "c \<in> restless u" by blast
      then have reader: "has_reader u c"
        using readers_okD(1) [OF timed_run_readers [OF less.prems(1)]] by (auto simp: restless_def)
      have "\<exists>u1. prompt_step\<^sup>*\<^sup>* u u1 \<and> clock u1 = clock u \<and>
          (length (waiting u1) < length (waiting u) \<or> same_but c u u1 \<and> rests u1 c)"
        using reader unfolding has_reader_def
      proof
        assume "\<exists>i. (i, c) \<in> set (waiting u)"
        then show ?thesis using watch_falls_asleep [OF less.prems(1)] by blast
      next
        assume "\<exists>i w. roles (srv u) i = Some (c, w)"
        then show ?thesis using heart_falls_asleep [OF less.prems(1)] by (fastforce simp: same_but_def)
      qed
      then obtain u1 where u1: "prompt_step\<^sup>*\<^sup>* u u1" "clock u1 = clock u"
          "length (waiting u1) < length (waiting u) \<or> same_but c u u1 \<and> rests u1 c" by blast
      have r1: "timed_run u1" using u1(1) less.prems(1) by (rule prompt_run)
      have "\<exists>t'. prompt_step\<^sup>*\<^sup>* u1 t' \<and> clock t' = clock u1 \<and> at_rest t' \<and> may_pass 1 t'"
        using u1(3)
      proof
        assume "length (waiting u1) < length (waiting u)"
        then show ?thesis using outer [of u1] r1 less.prems(3) by simp
      next
        assume same: "same_but c u u1 \<and> rests u1 c"
        then have "card (restless u1) < card (restless u)"
          using restless_less c finite_restless by (blast intro: psubset_card_mono)
        then show ?thesis
          using less.hyps [of u1] r1 same less.prems(2,3) by (simp add: same_but_def)
      qed
      with u1(1,2) show ?thesis by (metis rtranclp_trans)
    qed
  qed
  obtain u where u: "prompt_step\<^sup>*\<^sup>* t u" "drained u" "waiting u = waiting t" "clock u = clock t"
    by (rule draining_run [OF less.prems])
  from asleep [OF prompt_run [OF u(1) less.prems] u(2,3)] u(1,4) show ?case by (metis rtranclp_trans)
qed


section \<open>The server left alone\<close>

text \<open>No client says anything, no sink fails: the server takes its turns, and time passes.\<close>

inductive alone_step :: "timed \<Rightarrow> timed \<Rightarrow> bool" where
  turn: "prompt_step t t' \<Longrightarrow> alone_step t t'"
| pass: "at_rest t \<Longrightarrow> may_pass dt t \<Longrightarrow> alone_step t (t\<lparr>clock := clock t + dt\<rparr>)"

lemma alone_run:
  assumes "alone_step\<^sup>*\<^sup>* t t'" "timed_run t"
  shows "timed_run t'"
  using assms
  by (induction rule: rtranclp_induct) (auto elim!: alone_step.cases intro: timed_run.step timed_step.prompt timed_step.time)

lemma clock_reaches:
  assumes "timed_run t"
  shows "\<exists>t'. alone_step\<^sup>*\<^sup>* t t' \<and> clock t' = clock t + n"
proof (induction n)
  case 0
  show ?case by (auto intro: exI [of _ t])
next
  case (Suc n)
  then obtain u where u: "alone_step\<^sup>*\<^sup>* t u" "clock u = clock t + n" by blast
  obtain v where v: "prompt_step\<^sup>*\<^sup>* u v" "clock v = clock u" "at_rest v" "may_pass 1 v"
    using falling_asleep [OF alone_run [OF u(1) assms]] by blast
  have "alone_step\<^sup>*\<^sup>* u v"
    using v(1) by (rule mono_rtranclp [rule_format, rotated]) (rule alone_step.turn)
  moreover have "alone_step v (v\<lparr>clock := clock v + 1\<rparr>)" using v(3,4) by (rule alone_step.pass)
  ultimately have "alone_step\<^sup>*\<^sup>* t (v\<lparr>clock := clock v + 1\<rparr>)" using u(1) by (meson rtranclp.rtrancl_into_rtrancl rtranclp_trans)
  then show ?case using u(2) v(2) by (intro exI [of _ "v\<lparr>clock := clock v + 1\<rparr>"]) simp
qed

text \<open>Nothing is heard of a client meanwhile.\<close>

definition ears :: "timed \<Rightarrow> (nat \<Rightarrow> instant list) \<times> (nat \<Rightarrow> HeartBeatIntervalls)" where
  "ears t = (heard t, intervals t)"

lemma timed_turn_ears: "\<not> resets_client e \<Longrightarrow> ears (timed_turn i s e b t) = ears t"
  by (simp add: ears_def timed_turn_def Let_def)

lemma prompt_step_ears:
  assumes "prompt_step t t'" "timed_run t"
  shows "ears t' = ears t"
  using assms(1)
proof cases
  case (from_server i s e rest)
  have "list_all queued_kind (mb_queue (rt_events (net (srv t))) i)"
    using reachable_backlog_ok [OF timed_run_reachable [OF assms(2)]] by (simp add: backlog_ok_def)
  then have "\<not> resets_client e" using from_server(3) by (cases e) simp_all
  then show ?thesis using from_server(1) by (simp add: timed_turn_ears)
next
  case (heartbeat i s timer)
  then show ?thesis
    by (simp add: poll_heart_def timed_turn_def Let_def timed_end_def ears_def split: prod.split outcome.split Poll.split option.split)
qed (simp_all add: ears_def run_timer_def poll_watch_def split: prod.split outcome.split Poll.split)

lemma alone_ears:
  assumes "alone_step\<^sup>*\<^sup>* t t'" "timed_run t"
  shows "ears t' = ears t"
  using assms
proof (induction rule: rtranclp_induct)
  case (step u v)
  then have "timed_run u" using alone_run by blast
  with step show ?case using prompt_step_ears by (auto elim!: alone_step.cases simp: ears_def)
qed simp


section \<open>Properties\<close>

text \<open>
  C11: a silent client's session ends: from every state of a run in which the promise of a client and
  a fifth of it will be over at some instant, however long ago its last sign of life was, the tasks
  of the server alone reach that instant, so that neither its timers nor its listeners spin; and
  whatever turns they take, from that instant on the session of the client is gone.
\<close>

theorem silence_ends_session:
  assumes "timed_run t" "0 < supplied (intervals t i)" "unat (supplied (intervals t i)) \<le> 35791394"
    and "\<And>x. x \<in> set (heard t i) \<Longrightarrow> x + from_millis (unat (supplied (intervals t i)) * 120 div 100) < T"
    and "clock t \<le> T"
  shows "(\<exists>t'. alone_step\<^sup>*\<^sup>* t t' \<and> clock t' = T) \<and>
    (\<forall>t'. alone_step\<^sup>*\<^sup>* t t' \<longrightarrow> T \<le> clock t' \<longrightarrow> sessions (srv t') i = None)"
proof (intro conjI allI impI)
  show "\<exists>t'. alone_step\<^sup>*\<^sup>* t t' \<and> clock t' = T"
    using clock_reaches [OF assms(1), of "T - clock t"] assms(5) by simp
next
  fix t'
  assume run: "alone_step\<^sup>*\<^sup>* t t'" and late: "T \<le> clock t'"
  have same: "heard t' = heard t" "watch_period t' i = watch_period t i"
    using alone_ears [OF run assms(1)] by (simp_all add: ears_def watch_period_def)
  show "sessions (srv t') i = None"
  proof (rule ccontr)
    assume "sessions (srv t') i \<noteq> None"
    then obtain s where "sessions (srv t') i = Some s" by blast
    from heard_lately [OF alone_run [OF run assms(1)] this]
    obtain x where "x \<in> set (heard t i)" "clock t' \<le> x + watch_period t i"
      using watch_period_positive [OF assms(2,3)] by (auto simp: same)
    with assms(4) late show False by (fastforce simp: watch_period_eq [OF assms(3)])
  qed
qed

text \<open>
  The client that promised a heartbeat every five seconds, and sent one after five, at the end of its
  time: its session runs, and one nanosecond later it does not.
\<close>

theorem silence_ends_session_witness:
  "\<exists>t s t'. timed_run t \<and> clock t = from_millis 11000 \<and> sessions (srv t) 0 = Some s \<and>
     alone_step\<^sup>*\<^sup>* t t' \<and> clock t' = from_millis 11000 + 1 \<and> sessions (srv t') 0 = None"
proof -
  have "\<exists>t s. texec_all demo_silence timed_start = Some t \<and> clock t = from_millis 11000 \<and>
      sessions (srv t) 0 = Some s \<and> supplied (intervals t 0) = 5000 \<and> heard t 0 = [from_millis 5000, 0]"
    by (simp add: timed_run_defs poll_task.simps)
  then obtain t s where t: "texec_all demo_silence timed_start = Some t" "clock t = from_millis 11000"
      "sessions (srv t) 0 = Some s" "supplied (intervals t 0) = 5000" "heard t 0 = [from_millis 5000, 0]"
    by blast
  have run: "timed_run t" using t(1) timed_run.start by (rule texec_all_run)
  have late: "x + from_millis (unat (supplied (intervals t 0)) * 120 div 100) < from_millis 11000 + 1"
    if "x \<in> set (heard t 0)" for x
    using that by (auto simp: t(4,5) from_millis_def)
  have "(\<exists>t'. alone_step\<^sup>*\<^sup>* t t' \<and> clock t' = from_millis 11000 + 1) \<and>
      (\<forall>t'. alone_step\<^sup>*\<^sup>* t t' \<longrightarrow> from_millis 11000 + 1 \<le> clock t' \<longrightarrow> sessions (srv t') 0 = None)"
    by (rule silence_ends_session [OF run]) (use late in \<open>simp_all add: t\<close>)
  then obtain t' where "alone_step\<^sup>*\<^sup>* t t'" "clock t' = from_millis 11000 + 1" "sessions (srv t') 0 = None"
    by auto
  with run t(2,3) show ?thesis by blast
qed

end
