(* ===== verification/Websocket.thy ===== *)
theory Websocket
  imports Pipeline_Spec
begin

text \<open>
  The bridge between a websocket and a session in \<open>src/bin/sample_server.rs\<close>: the handler of
  websocket messages, the two streams and the sink of \<open>handle_websocket\<close>, and the session that it
  runs between them, one turn at a time. The socket, and the
  sink that wraps the channel to its writer, are arguments; the channel keeps the contract of
  \<open>Channels\<close>.
\<close>

section \<open>Messages\<close>

text \<open>
  \<open>tungstenite::Message\<close>: a text is its UTF-8 bytes; the handler does not look into close frames
  (\<open>'cf\<close>) and raw frames.
\<close>

datatype 'cf Message =
    Ping bytes
  | Pong bytes
  | WsClose "'cf option"
  | Text bytes
  | Binary bytes
  | Frame

definition is_close :: "'cf Message \<Rightarrow> bool" where
  "is_close msg = (case msg of WsClose _ \<Rightarrow> True | _ \<Rightarrow> False)"

record 'tx WebSocketMessageHandler =
  message_channel :: 'tx

definition handle_message ::
  "('tx, 'cf Message, 'w) channel_send \<Rightarrow> 'tx WebSocketMessageHandler \<Rightarrow> 'cf Message \<Rightarrow>
    ('w, StomperError + bytes option) io" where
  "handle_message tx_send self msg =
     (case msg of
        Ping bytes \<Rightarrow>
          bind_io (tx_send (message_channel self) (Pong bytes))
            (\<lambda>r. ret_io (case r of
               Inl _ \<Rightarrow> Inl \<lparr>message = ''Unable to send return message''\<rparr>
             | Inr _ \<Rightarrow> Inr None))
      | Pong _ \<Rightarrow> ret_io (Inr None)
      | WsClose _ \<Rightarrow>
          then_io (tx_send (message_channel self) msg)
            (ret_io (Inl \<lparr>message = ''WebSocketChannel closed''\<rparr>))
      | Text text \<Rightarrow> ret_io (Inr (Some text))
      | Binary bytes \<Rightarrow> ret_io (Inr (Some bytes))
      | Frame \<Rightarrow> ret_io (Inr None))"

text \<open>
  \<open>map_err\<close> and \<open>try_filter_map\<close>: errors pass, \<open>Ok(None)\<close> is dropped, and an error does not end
  the stream. A websocket error is its text.
\<close>

fun bytes_stream ::
  "('tx, 'cf Message, 'w) channel_send \<Rightarrow> 'tx WebSocketMessageHandler \<Rightarrow> (string + 'cf Message) list \<Rightarrow>
    ('w, (StomperError + bytes) list) io" where
  "bytes_stream tx_send self [] = ret_io []"
| "bytes_stream tx_send self (Inl err # items) =
     bind_io (bytes_stream tx_send self items)
       (\<lambda>rest. ret_io (Inl \<lparr>message = ''Websocket error: '' @ err\<rparr> # rest))"
| "bytes_stream tx_send self (Inr msg # items) =
     bind_io (handle_message tx_send self msg) (\<lambda>r.
     bind_io (bytes_stream tx_send self items) (\<lambda>rest. ret_io
       (case r of
          Inl e \<Rightarrow> Inl e # rest
        | Inr None \<Rightarrow> rest
        | Inr (Some b) \<Rightarrow> Inr b # rest)))"

text \<open>What the writer task takes from its channel: everything before the first close message.\<close>

definition ws_responses :: "'cf Message list \<Rightarrow> 'cf Message list" where
  "ws_responses ws_rx = takeWhile (\<lambda>msg. \<not> is_close msg) ws_rx"


section \<open>UTF-8\<close>

text \<open>\<open>String::from_utf8\<close>: the well-formed byte sequences of RFC 3629, as the standard library checks them.\<close>

definition utf8_tail :: "8 word \<Rightarrow> bool" where
  "utf8_tail b \<longleftrightarrow> 0x80 \<le> b \<and> b \<le> 0xBF"

fun valid_utf8 :: "bytes \<Rightarrow> bool" where
  "valid_utf8 [] = True"
| "valid_utf8 (a # r1) =
     (if a \<le> 0x7F then valid_utf8 r1
      else case r1 of
        [] \<Rightarrow> False
      | b # r2 \<Rightarrow>
          if 0xC2 \<le> a \<and> a \<le> 0xDF then utf8_tail b \<and> valid_utf8 r2
          else case r2 of
            [] \<Rightarrow> False
          | c # r3 \<Rightarrow>
              if a = 0xE0 then 0xA0 \<le> b \<and> b \<le> 0xBF \<and> utf8_tail c \<and> valid_utf8 r3
              else if a = 0xED then 0x80 \<le> b \<and> b \<le> 0x9F \<and> utf8_tail c \<and> valid_utf8 r3
              else if 0xE1 \<le> a \<and> a \<le> 0xEF then utf8_tail b \<and> utf8_tail c \<and> valid_utf8 r3
              else case r3 of
                [] \<Rightarrow> False
              | d # r4 \<Rightarrow>
                  if a = 0xF0 then 0x90 \<le> b \<and> b \<le> 0xBF \<and> utf8_tail c \<and> utf8_tail d \<and> valid_utf8 r4
                  else if 0xF1 \<le> a \<and> a \<le> 0xF3
                    then utf8_tail b \<and> utf8_tail c \<and> utf8_tail d \<and> valid_utf8 r4
                  else a = 0xF4 \<and> 0x80 \<le> b \<and> b \<le> 0x8F \<and> utf8_tail c \<and> utf8_tail d \<and> valid_utf8 r4)"

text \<open>The sink of a session: each item becomes a text message, by way of \<open>from_utf8(\<dots>).unwrap()\<close>.\<close>

definition ws_sink ::
  "('cf Message \<Rightarrow> ('w, StomperError + unit) io) \<Rightarrow> bytes \<Rightarrow> ('w, StomperError + unit) io" where
  "ws_sink sender_sink bytes =
     (if valid_utf8 bytes then sender_sink (Text bytes)
      else panic_io ''called `Result::unwrap()` on an `Err` value'')"


section \<open>A session on a websocket\<close>

text \<open>
  What a session takes next, when its sources are those of \<open>handle_websocket\<close>: an item of the
  socket, which the bridge looks at first and may keep to itself; the end of the socket; or an
  event of its own queue or its heartbeat.
\<close>

datatype 'cf ws_turn =
    FromSocket "string + 'cf Message"
  | SocketEnds
  | FromSession ClientEvent

definition ws_event ::
  "('tx, 'cf Message, 'w) channel_send \<Rightarrow> 'tx WebSocketMessageHandler \<Rightarrow> (bytes \<Rightarrow> string + ClientFrame) \<Rightarrow>
    'cf ws_turn \<Rightarrow> ('w, ClientEvent option) io" where
  "ws_event tx_send handler try_from turn =
     (case turn of
        FromSocket item \<Rightarrow>
          bind_io (bytes_stream tx_send handler [item]) (\<lambda>items.
            ret_io (case items of [] \<Rightarrow> None | x # _ \<Rightarrow> Some (client_item_event try_from x)))
      | SocketEnds \<Rightarrow> ret_io (Some EvClose)
      | FromSession event \<Rightarrow> ret_io (Some event))"

text \<open>
  The stream of results, pulled turn by turn: an item of the socket is looked at when the result
  of the event before it has been forwarded.
\<close>

fun ws_session_stream ::
  "('tx, 'cf Message, 'w) channel_send \<Rightarrow> 'tx WebSocketMessageHandler \<Rightarrow> (bytes \<Rightarrow> string + ClientFrame) \<Rightarrow>
    ('tx', 'cx, 'ds, 'c, 'w) SessionEnv \<Rightarrow> (SessionResult \<Rightarrow> ('w, StomperError + unit) io) \<Rightarrow>
    ('tx', 'cx, 'ds, 'c) ClientSession \<Rightarrow> 'cf ws_turn list \<Rightarrow> 'w \<Rightarrow>
    (SessionResult list \<times> ('tx', 'cx, 'ds, 'c) ClientSession ending) \<times> 'w" where
  "ws_session_stream tx_send handler try_from env forward self [] w = (([], Waiting self), w)"
| "ws_session_stream tx_send handler try_from env forward self (turn # turns) w =
     (case ws_event tx_send handler try_from turn w of
        (Panic msg, w1) \<Rightarrow> (([], Crashed msg), w1)
      | (Ret None, w1) \<Rightarrow> ws_session_stream tx_send handler try_from env forward self turns w1
      | (Ret (Some event), w1) \<Rightarrow>
          (case session_stream env forward self [event] w1 of
             ((results, Waiting self'), w2) \<Rightarrow>
               (case ws_session_stream tx_send handler try_from env forward self' turns w2 of
                  ((results', ending), w3) \<Rightarrow> ((results @ results', ending), w3))
           | ((results, ending), w2) \<Rightarrow> ((results, ending), w2)))"

text \<open>The first event, for which the bridge may pull several items; none yet if they are used up.\<close>

fun ws_first_event ::
  "('tx, 'cf Message, 'w) channel_send \<Rightarrow> 'tx WebSocketMessageHandler \<Rightarrow> (bytes \<Rightarrow> string + ClientFrame) \<Rightarrow>
    'cf ws_turn list \<Rightarrow> ('w, (ClientEvent \<times> 'cf ws_turn list) option) io" where
  "ws_first_event tx_send handler try_from [] = ret_io None"
| "ws_first_event tx_send handler try_from (turn # turns) =
     bind_io (ws_event tx_send handler try_from turn) (\<lambda>event.
       case event of
         None \<Rightarrow> ws_first_event tx_send handler try_from turns
       | Some e \<Rightarrow> ret_io (Some (e, turns)))"

text \<open>
  \<open>handle_websocket\<close>: the session's task over the sink that turns bytes into text messages; then
  the writer is awaited, whose end is \<open>Ok\<close> whatever the session came to. \<open>sender_sink\<close> wraps the
  channel of the handler. The result is \<open>None\<close> while the turns given are used up and the session
  waits.
\<close>

definition handle_websocket ::
  "('tx', 'rx, 'cx, 'crx, 'w) SetupEnv \<Rightarrow> ('tx', 'cx, 'ds, 'c, 'w) SessionEnv \<Rightarrow>
    ('f, 'c, 'w) ClientFactory \<Rightarrow> (ServerFrame \<Rightarrow> bytes) \<Rightarrow> (bytes \<Rightarrow> string + ClientFrame) \<Rightarrow>
    ('tx, 'cf Message, 'w) channel_send \<Rightarrow> ('cf Message \<Rightarrow> ('w, StomperError + unit) io) \<Rightarrow>
    'tx WebSocketMessageHandler \<Rightarrow> 'ds \<Rightarrow> 'f \<Rightarrow> 'cf ws_turn list \<Rightarrow> 'w \<Rightarrow>
    (StomperError + unit) option \<times> 'w" where
  "handle_websocket setup env F serialise try_from tx_send sender_sink handler dests client_factory turns w =
     (let forward = forward_item serialise (ws_sink sender_sink)
      in map_prod (\<lambda>r. map_option (\<lambda>_. Inr ()) (join_response_task r)) id
        (bind_io (ws_first_event tx_send handler try_from turns) (\<lambda>first.
          case first of
            None \<Rightarrow> ret_io None
          | Some (first_message, rest) \<Rightarrow>
              response_task_of setup F forward dests client_factory (Some first_message)
                (\<lambda>conn. ws_session_stream tx_send handler try_from env forward (conn_session conn)
                  (FromSession (conn_first_event conn) # rest))) w))"


section \<open>The server\<close>

text \<open>
  \<open>accept_connection\<close>: the address, the handshake and the session are arguments. \<open>main\<close> spawns
  one such task for each connection, up to the first failing \<open>accept\<close>, and then returns \<open>Ok\<close>;
  \<open>None\<close>: it waits for the next connection.
\<close>

definition accept_connection ::
  "('s \<Rightarrow> ('w, 'e + 'a) io) \<Rightarrow> ('s \<Rightarrow> ('w, 'e + 'ws) io) \<Rightarrow> ('ws \<Rightarrow> 'ds \<Rightarrow> ('w, StomperError + unit) io) \<Rightarrow>
    's \<Rightarrow> 'ds \<Rightarrow> ('w, unit) io" where
  "accept_connection peer_addr accept_async serve stream dests =
     bind_io (peer_addr stream) (\<lambda>addr. case addr of
       Inl _ \<Rightarrow> panic_io ''connected streams should have a peer address''
     | Inr _ \<Rightarrow>
         bind_io (accept_async stream) (\<lambda>accepted. case accepted of
           Inl _ \<Rightarrow> panic_io ''Error during the websocket handshake occurred''
         | Inr ws_stream \<Rightarrow> bind_io (serve ws_stream dests) (\<lambda>_. ret_io ())))"

fun accept_loop ::
  "('s \<Rightarrow> 'ds \<Rightarrow> ('w, unit) io) \<Rightarrow> 'ds \<Rightarrow> ('e + 's \<times> 'a) list \<Rightarrow> ('w, ('e + unit) option) io" where
  "accept_loop spawn dests [] = ret_io None"
| "accept_loop spawn dests (Inr (stream, _) # incoming) =
     then_io (spawn stream dests) (accept_loop spawn dests incoming)"
| "accept_loop spawn dests (Inl _ # incoming) = ret_io (Some (Inr ()))"

definition server_main ::
  "('w, 'e + 'l) io \<Rightarrow> 'm \<Rightarrow> 'f \<Rightarrow> ('s \<Rightarrow> ('m, 'f) AsyncDestinations \<Rightarrow> ('w, unit) io) \<Rightarrow>
    ('e + 's \<times> 'a) list \<Rightarrow> ('w, ('e + unit) option) io" where
  "server_main bind_listener new_map factory spawn incoming =
     bind_io bind_listener (\<lambda>try_socket. case try_socket of
       Inl _ \<Rightarrow> panic_io ''Failed to bind''
     | Inr _ \<Rightarrow> accept_loop spawn (AsyncDestinations_start new_map factory) incoming)"

text \<open>One failing \<open>accept\<close> ends the server: what comes after it is never served.\<close>

lemma accept_loop_stops:
  "accept_loop spawn dests (incoming @ Inl e # rest) = accept_loop spawn dests (incoming @ [Inl e])"
  by (induction spawn dests incoming rule: accept_loop.induct) simp_all

lemma accept_loop_serves:
  assumes "\<And>s w. spawn s dests w = (Ret (), upd s w)"
  shows "accept_loop spawn dests (map (\<lambda>s. Inr (s, a)) ss @ [Inl e]) w = (Ret (Some (Inr ())), fold upd ss w)"
  using assms by (induction ss arbitrary: w) (simp_all add: then_io_def bind_io_def)


section \<open>Behaviour\<close>

fun payload :: "string + 'cf Message \<Rightarrow> (StomperError + bytes) option" where
  "payload (Inl err) = Some (Inl \<lparr>message = ''Websocket error: '' @ err\<rparr>)"
| "payload (Inr (WsClose c)) = Some (Inl \<lparr>message = ''WebSocketChannel closed''\<rparr>)"
| "payload (Inr (Text b)) = Some (Inr b)"
| "payload (Inr (Binary b)) = Some (Inr b)"
| "payload (Inr _) = None"

fun reply :: "string + 'cf Message \<Rightarrow> 'cf Message option" where
  "reply (Inr (Ping b)) = Some (Pong b)"
| "reply (Inr (WsClose c)) = Some (WsClose c)"
| "reply _ = None"

lemma bytes_stream_spec:
  assumes "unbounded_sender tx_send rx_open rx_queue"
    and "rx_open (message_channel h) w"
  shows "\<exists>w'. bytes_stream tx_send h items w = (Ret (List.map_filter payload items), w') \<and>
    rx_open (message_channel h) w' \<and>
    rx_queue (message_channel h) w' = rx_queue (message_channel h) w @ List.map_filter reply items"
  using assms(2)
proof (induction items arbitrary: w)
  case (Cons item items)
  note laws = unbounded_sender.bind_send [OF assms(1)] unbounded_sender.queue_send [OF assms(1)]
    unbounded_sender.open_send [OF assms(1)]
  let ?w = "case reply item of Some m \<Rightarrow> snd (tx_send (message_channel h) m w) | None \<Rightarrow> w"
  have "rx_open (message_channel h) ?w" using Cons.prems by (auto simp: laws split: option.split)
  from Cons.IH [OF this] obtain w' where
    "bytes_stream tx_send h items ?w = (Ret (List.map_filter payload items), w')"
    "rx_open (message_channel h) w'"
    "rx_queue (message_channel h) w' = rx_queue (message_channel h) ?w @ List.map_filter reply items"
    by blast
  with Cons.prems show ?case
    by (cases item rule: reply.cases)
      (simp_all add: handle_message_def bind_io_def [of "bytes_stream tx_send h items"] then_io_def laws
        map_filter_Cons bind_io_assoc)
qed simp

text \<open>
  As long as the writer's channel is open, the bridge passes each text and binary message on
  as one item, and each error and close message as one error, in order, and nothing else; and it
  enqueues one pong with the same payload for each ping, and each close message itself, in order.
\<close>

theorem websocket_bridge:
  assumes "unbounded_sender tx_send rx_open rx_queue"
    and "rx_open (message_channel h) w"
  shows "\<exists>w'. bytes_stream tx_send h items w = (Ret (List.map_filter payload items), w') \<and>
    rx_queue (message_channel h) w' = rx_queue (message_channel h) w @ List.map_filter reply items"
  using bytes_stream_spec [OF assms] by blast

text \<open>The writer's channel of the examples.\<close>

record ws_world =
  ws_channel :: "unit Message mailboxes"

interpretation ws_tx: unbounded_sender "fifo_send ws_channel ws_channel_update"
  "\<lambda>t w. mb_open (ws_channel w) t" "\<lambda>t w. mb_queue (ws_channel w) t"
  by (rule fifo_unbounded_sender) simp_all

theorem websocket_bridge_witness:
  "\<exists>w'. bytes_stream (fifo_send ws_channel ws_channel_update) \<lparr>message_channel = 0\<rparr>
      [Inr (Ping [1]), Inr (Text [65]), Inr (Ping [2]), Inr (WsClose None)]
      \<lparr>ws_channel = mb_create 0 no_mailboxes\<rparr> =
        (Ret [Inr [65], Inl \<lparr>message = ''WebSocketChannel closed''\<rparr>], w') \<and>
    ws_responses (mb_queue (ws_channel w') 0) = [Pong [1], Pong [2]]"
proof -
  have "mb_open (ws_channel \<lparr>ws_channel = mb_create 0 no_mailboxes\<rparr>) (message_channel \<lparr>message_channel = 0\<rparr>)"
    by simp
  from websocket_bridge [OF ws_tx.unbounded_sender_axioms this,
      of "[Inr (Ping [1]), Inr (Text [65]), Inr (Ping [2]), Inr (WsClose None)]"]
  show ?thesis by (auto simp: map_filter_Cons ws_responses_def is_close_def simp del: bytes_stream.simps)
qed

text \<open>
  C37: the sample server's sink takes well-formed UTF-8 only: a result whose bytes are not, as a
  MESSAGE with a binary body, panics in the session of each subscriber that it is for, and no
  other result does (when the wrapped sink itself returns).
\<close>

theorem websocket_sink_needs_utf8:
  assumes "\<And>m w. returns (sender_sink m) w"
  shows "returns (forward_item serialise (ws_sink sender_sink) r) w \<longleftrightarrow> list_all valid_utf8 (wire serialise r)"
proof (cases "wire serialise r")
  case Nil
  then show ?thesis by (simp add: forward_item_def into_opt_ok_of_bytes_eq)
next
  case (Cons b bs)
  then have "bs = []" by (auto simp: wire_def split: sum.splits option.splits prod.splits)
  with Cons assms show ?thesis
    by (simp add: forward_item_def into_opt_ok_of_bytes_eq ws_sink_def)
qed

text \<open>The witness serialises a MESSAGE to its body: Latin-1 for a sharp s is refused, UTF-8 is not.\<close>

theorem websocket_sink_needs_utf8_witness:
  "\<not> returns (forward_item (\<lambda>f. case f of MessageF m \<Rightarrow> frame_body m | _ \<Rightarrow> [])
      (ws_sink (\<lambda>m :: unit Message. ret_io (Inr ())))
      (server_message (SubscriptionId ''c'') \<lparr>out_destination = DestinationId ''d'',
        out_message_id = MessageId ''m'', out_body = [0xDF]\<rparr>)) demo_world \<and>
   returns (forward_item (\<lambda>f. case f of MessageF m \<Rightarrow> frame_body m | _ \<Rightarrow> [])
      (ws_sink (\<lambda>m :: unit Message. ret_io (Inr ())))
      (server_message (SubscriptionId ''c'') \<lparr>out_destination = DestinationId ''d'',
        out_message_id = MessageId ''m'', out_body = [0xC3, 0x9F]\<rparr>)) demo_world"
proof -
  have "\<And>m w. returns ((\<lambda>m :: unit Message. ret_io (Inr ())) m) (w :: runtime)" by simp
  note law = websocket_sink_needs_utf8 [OF this]
  show ?thesis
    unfolding law by (simp add: server_message_def frame_result_def wire_def utf8_tail_def)
qed


section \<open>What the socket gets\<close>

fun socket_item :: "'cf ws_turn \<Rightarrow> (string + 'cf Message) option" where
  "socket_item (FromSocket item) = Some item"
| "socket_item _ = None"

definition is_text :: "'cf Message \<Rightarrow> bool" where
  "is_text msg \<longleftrightarrow> (\<exists>b. msg = Text b)"

lemma is_text_simps [simp]: "is_text (Text b)" "reply item = Some m \<Longrightarrow> \<not> is_text m"
  by (simp add: is_text_def) (cases item rule: reply.cases; auto simp: is_text_def)

text \<open>
  What the session needs of its surroundings: the writer's channel keeps the law of channels, the
  sink wraps that channel, the session's handler does not touch it, and its results are UTF-8.
\<close>

definition ws_setting ::
  "('tx, 'cf Message, 'w) channel_send \<Rightarrow> ('tx \<Rightarrow> 'w \<Rightarrow> bool) \<Rightarrow> ('tx \<Rightarrow> 'w \<Rightarrow> 'cf Message list) \<Rightarrow> 'tx \<Rightarrow>
    ('cf Message \<Rightarrow> ('w, StomperError + unit) io) \<Rightarrow> (ServerFrame \<Rightarrow> bytes) \<Rightarrow>
    ('tx', 'cx, 'ds, 'c, 'w) SessionEnv \<Rightarrow> bool" where
  "ws_setting tx_send rx_open rx_queue t sender_sink serialise env \<longleftrightarrow>
     unbounded_sender tx_send rx_open rx_queue \<and>
     (\<forall>m w. rx_open t w \<longrightarrow> sender_sink m w = (Ret (Inr ()), snd (tx_send t m w))) \<and>
     (\<forall>s e. keeps (\<lambda>w. (rx_open t w, rx_queue t w)) (handle_event env s e)) \<and>
     (\<forall>s e w r s' w'. handle_event env s e w = (Ret (r, s'), w') \<longrightarrow> list_all valid_utf8 (wire serialise r))"

lemma ws_event_spec:
  assumes "unbounded_sender tx_send rx_open rx_queue" "rx_open (message_channel h) w"
  shows "\<exists>event w'. ws_event tx_send h try_from turn w = (Ret event, w') \<and> rx_open (message_channel h) w' \<and>
    rx_queue (message_channel h) w' = rx_queue (message_channel h) w @
      List.map_filter reply (List.map_filter socket_item [turn])"
proof (cases turn)
  case (FromSocket item)
  obtain w' where w': "bytes_stream tx_send h [item] w = (Ret (List.map_filter payload [item]), w')"
      "rx_open (message_channel h) w'"
      "rx_queue (message_channel h) w' = rx_queue (message_channel h) w @ List.map_filter reply [item]"
    using bytes_stream_spec [OF assms] by blast
  then show ?thesis
    by (simp add: FromSocket ws_event_def bind_io_def map_filter_Cons del: bytes_stream.simps)
qed (use assms(2) in \<open>simp_all add: ws_event_def map_filter_Cons\<close>)

lemma ws_forward_spec:
  assumes "ws_setting tx_send rx_open rx_queue t sender_sink serialise env"
    and "rx_open t w" "list_all valid_utf8 (wire serialise r)"
  shows "\<exists>w'. forward_item serialise (ws_sink sender_sink) r w = (Ret (Inr ()), w') \<and> rx_open t w' \<and>
    rx_queue t w' = rx_queue t w @ map Text (wire serialise r)"
proof (cases "wire serialise r")
  case Nil
  with assms(2) show ?thesis by (simp add: forward_item_def into_opt_ok_of_bytes_eq)
next
  case (Cons b bs)
  then have "bs = []" by (auto simp: wire_def split: sum.splits option.splits prod.splits)
  have us: "unbounded_sender tx_send rx_open rx_queue" using assms(1) by (simp add: ws_setting_def)
  have "sender_sink m w = (Ret (Inr ()), snd (tx_send t m w))" for m
    using assms(1,2) by (simp add: ws_setting_def)
  with \<open>bs = []\<close> Cons assms(2,3) show ?thesis
    by (simp add: forward_item_def into_opt_ok_of_bytes_eq ws_sink_def unbounded_sender.queue_send [OF us]
        unbounded_sender.open_send [OF us])
qed

lemma ws_one_event:
  assumes setting: "ws_setting tx_send rx_open rx_queue t sender_sink serialise env" and up: "rx_open t w"
    and run: "session_stream env (forward_item serialise (ws_sink sender_sink)) s [e] w = ((rs, ending), w')"
  shows "rx_open t w' \<and> rx_queue t w' = rx_queue t w @ map Text (concat (map (wire serialise) rs)) \<and>
    (\<forall>err. ending \<noteq> SinkFailed err)"
proof -
  have kept: "rx_open t w1 = rx_open t w \<and> rx_queue t w1 = rx_queue t w"
    if "handle_event env s e w = (x, w1)" for x w1
    using setting that unfolding ws_setting_def keeps_def by (metis prod.inject snd_conv)
  have utf8: "list_all valid_utf8 (wire serialise r)" if "handle_event env s e w = (Ret (r, s1), w1)" for r s1 w1
    using setting that unfolding ws_setting_def by blast
  note forward = ws_forward_spec [OF setting]
  from run show ?thesis
  proof (cases rule: session_stream_cases)
    case (panic msg)
    then show ?thesis using kept up by auto
  next
    case (ended r s1)
    then show ?thesis using kept up by auto
  next
    case (sink_panic r s1 w1 msg)
    then show ?thesis using forward [OF _ utf8, of w1 r s1 w1] kept up by auto
  next
    case (refused r s1 w1 err)
    then show ?thesis using forward [OF _ utf8, of w1 r s1 w1] kept up by auto
  next
    case (step r s1 w1 w2 rs')
    then show ?thesis using forward [OF _ utf8, of w1 r s1 w1] kept up by auto
  qed
qed

text \<open>
  What the channel has gained when the turns are used up or the session has ended; its rules follow
  the recursion of \<open>ws_session_stream\<close>.
\<close>

definition ws_wrote ::
  "(ServerFrame \<Rightarrow> bytes) \<Rightarrow> 'cf ws_turn list \<Rightarrow> SessionResult list \<Rightarrow> 's ending \<Rightarrow>
   'cf Message list \<Rightarrow> 'cf Message list \<Rightarrow> bool" where
  "ws_wrote serialise turns rs ending q q' \<longleftrightarrow> (\<exists>n new. q' = q @ new \<and>
     filter is_text new = map Text (concat (map (wire serialise) rs)) \<and>
     filter (\<lambda>m. \<not> is_text m) new = List.map_filter reply (List.map_filter socket_item (take n turns)) \<and>
     (\<forall>err. ending \<noteq> SinkFailed err) \<and> (\<forall>s'. ending = Waiting s' \<longrightarrow> n = length turns))"

abbreviation texts_of :: "(ServerFrame \<Rightarrow> bytes) \<Rightarrow> SessionResult list \<Rightarrow> 'cf Message list" where
  "texts_of serialise rs \<equiv> map Text (concat (map (wire serialise) rs))"

abbreviation replies_to :: "'cf ws_turn list \<Rightarrow> 'cf Message list" where
  "replies_to turns \<equiv> List.map_filter reply (List.map_filter socket_item turns)"

lemma filter_texts_of:
  "filter is_text (texts_of serialise rs) = texts_of serialise rs"
  "filter (\<lambda>m. \<not> is_text m) (texts_of serialise rs) = []"
  by (auto simp: filter_id_conv filter_empty_conv)

lemma filter_replies_to:
  "filter is_text (replies_to [turn]) = []" "filter (\<lambda>m. \<not> is_text m) (replies_to [turn]) = replies_to [turn]"
  by (auto simp: map_filter_Cons split: option.split)

lemma replies_to_take: "replies_to (take (Suc n) (turn # turns)) = replies_to [turn] @ replies_to (take n turns)"
  by (simp add: map_filter_Cons split: option.split)

lemma ws_wrote_Nil: "ws_wrote serialise [] [] (Waiting s) q q"
  by (auto simp: ws_wrote_def)

lemma ws_wrote_step:
  assumes "ws_wrote serialise turns rs ending (q @ replies_to [turn] @ texts_of serialise rs1) q'"
  shows "ws_wrote serialise (turn # turns) (rs1 @ rs) ending q q'"
proof -
  obtain n new where "q' = (q @ replies_to [turn] @ texts_of serialise rs1) @ new"
      "filter is_text new = texts_of serialise rs"
      "filter (\<lambda>m. \<not> is_text m) new = replies_to (take n turns)"
      "\<forall>err. ending \<noteq> SinkFailed err" "\<forall>s'. ending = Waiting s' \<longrightarrow> n = length turns"
    using assms unfolding ws_wrote_def by blast
  then show ?thesis
    unfolding ws_wrote_def
    by (intro exI [of _ "Suc n"] exI [of _ "replies_to [turn] @ texts_of serialise rs1 @ new"])
      (simp only: replies_to_take filter_append filter_texts_of filter_replies_to, simp)
qed

lemma ws_wrote_end:
  assumes "q' = q @ replies_to [turn] @ texts_of serialise rs"
    and "\<forall>err. ending \<noteq> SinkFailed err" "\<forall>s'. ending \<noteq> Waiting s'"
  shows "ws_wrote serialise (turn # turns) rs ending q q'"
  unfolding ws_wrote_def
  by (intro exI [of _ "Suc 0"] exI [of _ "replies_to [turn] @ texts_of serialise rs"])
    (use assms in \<open>simp only: replies_to_take filter_append filter_texts_of filter_replies_to, simp\<close>)

lemma ws_session_wrote:
  assumes setting: "ws_setting tx_send rx_open rx_queue (message_channel h) sender_sink serialise env"
    and up: "rx_open (message_channel h) w"
    and run: "ws_session_stream tx_send h try_from env (forward_item serialise (ws_sink sender_sink)) s turns w =
      ((rs, ending), w')"
  shows "ws_wrote serialise turns rs ending (rx_queue (message_channel h) w) (rx_queue (message_channel h) w')"
  using up run
proof (induction turns arbitrary: s w rs)
  case Nil
  then show ?case using ws_wrote_Nil by auto
next
  case (Cons turn turns)
  let ?t = "message_channel h" and ?fwd = "forward_item serialise (ws_sink sender_sink)"
  have us: "unbounded_sender tx_send rx_open rx_queue" using setting by (simp add: ws_setting_def)
  obtain event w1 where w1: "ws_event tx_send h try_from turn w = (Ret event, w1)" "rx_open ?t w1"
      "rx_queue ?t w1 = rx_queue ?t w @ replies_to [turn]"
    using ws_event_spec [OF us Cons.prems(1)] by blast
  show ?case
  proof (cases event)
    case None
    with w1(1) Cons.prems(2) have "ws_session_stream tx_send h try_from env ?fwd s turns w1 = ((rs, ending), w')"
      by simp
    from Cons.IH [OF w1(2) this] show ?thesis
      using ws_wrote_step [of serialise turns rs ending "rx_queue ?t w" turn "[]"] w1(3) by simp
  next
    case (Some e)
    obtain rs1 ending1 w2 where one: "session_stream env ?fwd s [e] w1 = ((rs1, ending1), w2)"
      by (metis prod.exhaust)
    note spec = ws_one_event [OF setting w1(2) one]
    then have q2: "rx_queue ?t w2 = rx_queue ?t w @ replies_to [turn] @ texts_of serialise rs1"
      using w1(3) by simp
    show ?thesis
    proof (cases "\<exists>s1. ending1 = Waiting s1")
      case True
      then obtain s1 where s1: "ending1 = Waiting s1" by blast
      obtain rs2 ending2 w3 where more: "ws_session_stream tx_send h try_from env ?fwd s1 turns w2 = ((rs2, ending2), w3)"
        by (metis prod.exhaust)
      have eq: "rs = rs1 @ rs2" "ending = ending2" "w' = w3"
        using Cons.prems(2) w1(1) Some one s1 more by auto
      show ?thesis
        using Cons.IH [OF conjunct1 [OF spec] more [folded eq(2,3)]] unfolding eq(1) q2 by (rule ws_wrote_step)
    next
      case False
      then have "rs = rs1 \<and> ending = ending1 \<and> w' = w2"
        using Cons.prems(2) w1(1) Some one by (cases ending1) auto
      then show ?thesis using ws_wrote_end q2 spec False by blast
    qed
  qed
qed


text \<open>A session whose surroundings swallow everything, on the writer's channel of the examples.\<close>

definition quiet_env :: "(unit, unit, unit, DefaultClient, ws_world) SessionEnv" where
  "quiet_env =
     \<lparr>env_event_send = (\<lambda>t v. ret_io (Inr ())), env_command_send = (\<lambda>t v. ret_io (Inr ())),
      env_destinations =
        \<lparr>destinations_subscribe = (\<lambda>ds d c p cl. ret_io ()), destinations_unsubscribe = (\<lambda>ds d i p cl. ret_io ()),
         destinations_send = (\<lambda>ds d m k cl. ret_io ())\<rparr>,
      env_client = default_client_methods ''little-stomper'' ''0.4.0'', env_debug = (\<lambda>e. message e)\<rparr>"

lemma ws_setting_quiet:
  "ws_setting (fifo_send ws_channel ws_channel_update) (\<lambda>t w. mb_open (ws_channel w) t)
     (\<lambda>t w. mb_queue (ws_channel w) t) 0
     (\<lambda>m w. (Ret (Inr ()), snd (fifo_send ws_channel ws_channel_update 0 m w))) (\<lambda>_. EOL) quiet_env"
proof -
  have quiet: "keeps f (handle_event quiet_env s e)" for f :: "ws_world \<Rightarrow> 'o" and s e
    by (rule keeps_handle_event) (simp_all add: quiet_env_def outside_def)
  have utf8: "list_all valid_utf8 (wire (\<lambda>_. EOL) r)" if "handle_event quiet_env s e w = (Ret (r, s'), w')"
    for s e w r s' w'
  proof (cases e)
    case (EvClientFrame x)
    with that show ?thesis
      by (auto simp: handler_defs wire_def then_io_def bind_io_eq_Ret_iff EOL_def
          split: sum.splits ClientFrame.splits option.splits)
  qed (use that in \<open>auto simp: handler_defs Let_def wire_def then_io_def bind_io_eq_Ret_iff EOL_def
      split: sum.splits\<close>)
  show ?thesis
    unfolding ws_setting_def using ws_tx.unbounded_sender_axioms quiet utf8 by blast
qed


text \<open>Whatever becomes of the session, \<open>handle_websocket\<close> reports no error: the connection ends with \<open>Ok\<close>.\<close>

lemma handle_websocket_ok:
  "fst (handle_websocket setup env F serialise try_from tx_send sender_sink handler dests factory turns w)
     \<in> {None, Some (Inr ())}"
  by (simp add: handle_websocket_def Let_def) (rule option.nchotomy [rule_format])

end
