(* ===== verification/Unit_Tests.thy ===== *)
theory Unit_Tests
  imports Websocket Nonlocking_Map
begin

text \<open>
  The crate's tests of the error type (\<open>error/mod.rs\<close>), of clients and factories (\<open>client.rs\<close>), of
  the proxy (\<open>asynchronous/client.rs\<close>), of the message handler (\<open>bin/sample_server.rs\<close>) and of the
  map (\<open>asynchronous/nonlockingmap.rs\<close>), run on the model. A test without effects is the condition
  that it asserts.
\<close>


section \<open>Errors\<close>

datatype ErrorForTest = ErrorForTest "32 word"

definition wraps_error :: bool where
  "wraps_error = (case boxed_error (ErrorWrapper_new (ErrorForTest 42)) of ErrorForTest n \<Rightarrow> n = 42)"

definition from_stomp_parse_error :: bool where
  "from_stomp_parse_error = (message (StomperError_from_parse_error ''freaky'') = ''freaky'')"

text \<open>\<open>str::contains\<close>. The argument of the test is the \<open>Debug\<close> text of \<open>SinkError::ChannelClosed\<close>.\<close>

fun contains_str :: "string \<Rightarrow> string \<Rightarrow> bool" where
  "contains_str [] needle = (needle = [])"
| "contains_str (c # cs) needle = (take (length needle) (c # cs) = needle \<or> contains_str cs needle)"

definition from_sink_error :: "string \<Rightarrow> bool" where
  "from_sink_error channel_closed =
     contains_str (message (StomperError_from_sink_error channel_closed)) ''Closed''"

text \<open>\<open>Infallible\<close> has no value, HOL's types have one; it is not used.\<close>

definition never_error :: "unit + unit" where
  "never_error = Inr ()"

definition from_infallible :: bool where
  "from_infallible = is_ok (map_err (\<lambda>_. StomperError_from_infallible) never_error)"

definition error_display :: bool where
  "error_display = (StomperError_display (StomperError_new ''Hello, world!'') = ''Hello, world!'')"

lemma error_tests_pass:
  "wraps_error" "from_stomp_parse_error" "from_sink_error ''ChannelClosed''" "from_infallible"
  "error_display"
  by (simp_all add: wraps_error_def from_stomp_parse_error_def from_sink_error_def never_error_def
      from_infallible_def error_display_def ErrorWrapper_new_def StomperError_from_parse_error_def
      StomperError_from_sink_error_def StomperError_display_def)


section \<open>Clients\<close>

record TestClient =
  test_login :: "string option"
  test_passcode :: "string option"

definition test_client_default :: TestClient where
  "test_client_default = \<lparr>test_login = None, test_passcode = None\<rparr>"

definition default_server_is_little_stomper_version :: "string \<Rightarrow> string \<Rightarrow> bool" where
  "default_server_is_little_stomper_version pkg_name pkg_version =
     (client_server (default_client_methods pkg_name pkg_version) test_client_default =
        Some (DEFAULT_SERVER pkg_name pkg_version))"

definition default_session_is_none :: "string \<Rightarrow> string \<Rightarrow> bool" where
  "default_session_is_none pkg_name pkg_version =
     (client_session (default_client_methods pkg_name pkg_version) test_client_default = None)"

definition create_client :: "('f, 'c, 'w) ClientFactory \<Rightarrow> 'f \<Rightarrow> ('w, 'c) io" where
  "create_client F factory =
     bind_io (factory_create F factory (Some ''log1n'') (Some ''passc0de''))
       (\<lambda>r. case r of Inr client \<Rightarrow> ret_io client | Inl _ \<Rightarrow> panic_io ''Should be ok'')"

definition closure_works_as_factory :: "('w, unit) io" where
  "closure_works_as_factory =
     bind_io (create_client closure_factory
         (\<lambda>login passcode. ret_io (Inr \<lparr>test_login = login, test_passcode = passcode\<rparr>)))
       (\<lambda>client. then_io (assert_io (test_login client = Some ''log1n''))
         (assert_io (test_passcode client = Some ''passc0de'')))"

definition default_client_returns_defaults :: "string \<Rightarrow> string \<Rightarrow> bool" where
  "default_client_returns_defaults pkg_name pkg_version =
     (let methods = default_client_methods pkg_name pkg_version
      in client_server methods DefaultClient = Some (DEFAULT_SERVER pkg_name pkg_version) \<and>
         client_session methods DefaultClient = None)"

definition default_client_factory_returns_defaults :: "string \<Rightarrow> string \<Rightarrow> ('w, unit) io" where
  "default_client_factory_returns_defaults pkg_name pkg_version =
     (let methods = default_client_methods pkg_name pkg_version
      in bind_io (create_client default_client_factory DefaultClientFactory)
           (\<lambda>client. then_io
             (assert_io (client_server methods client = Some (DEFAULT_SERVER pkg_name pkg_version)))
             (assert_io (client_session methods client = None))))"

lemma client_tests_pass:
  "default_server_is_little_stomper_version n v" "default_session_is_none n v"
  "closure_works_as_factory w = (Ret (), w)" "default_client_returns_defaults n v"
  "default_client_factory_returns_defaults n v w = (Ret (), w)"
  by (simp_all add: default_server_is_little_stomper_version_def default_session_is_none_def
      closure_works_as_factory_def default_client_returns_defaults_def create_client_def
      default_client_factory_returns_defaults_def closure_factory_def bind_io_def then_io_def DEFAULT_SERVER_def)


section \<open>The proxy\<close>

text \<open>
  The channel is an argument with its \<open>recv\<close> and \<open>close\<close>. A body is the text that is expected
  exactly if it is its bytes.
\<close>

definition test_send :: "('tx, ClientEvent, 'w) channel_send \<Rightarrow> 'tx \<Rightarrow> ('w, StomperError + unit) io" where
  "test_send tx_send tx =
     asc_send tx_send (AsyncStompClient_create tx) (SubscriptionId ''Arbitrary'')
       (Some (SubscriptionId ''sub-1''))
       \<lparr>out_destination = DestinationId ''somedest'', out_message_id = MessageId ''1'',
        out_body = as_bytes ''Hello, World''\<rparr>"

definition it_calls_sender ::
  "('w, 'tx \<times> 'rx) io \<Rightarrow> ('tx, ClientEvent, 'w) channel_send \<Rightarrow> ('rx \<Rightarrow> ('w, ClientEvent option) io) \<Rightarrow>
    ('w, unit) io" where
  "it_calls_sender unbounded_channel tx_send recv =
     bind_io unbounded_channel (\<lambda>(tx, rx).
     bind_io (test_send tx_send tx) (\<lambda>result.
       if is_err result then panic_io ''Send failed''
       else bind_io (recv rx) (\<lambda>event. case event of
          Some (EvServerMessage _ msg) \<Rightarrow> assert_io (out_body msg = as_bytes ''Hello, World'')
        | _ \<Rightarrow> panic_io ''No, or incorrect, message received'')))"

definition returns_error_on_failure ::
  "('w, 'tx \<times> 'rx) io \<Rightarrow> ('tx, ClientEvent, 'w) channel_send \<Rightarrow> ('rx \<Rightarrow> ('w, unit) io) \<Rightarrow>
    ('w, unit) io" where
  "returns_error_on_failure unbounded_channel tx_send close =
     bind_io unbounded_channel (\<lambda>(tx, rx).
     then_io (close rx)
     (bind_io (test_send tx_send tx) (\<lambda>result. case result of
        Inl error \<Rightarrow> assert_io (message error = ''Unable to send message, client channel closed'')
      | Inr _ \<Rightarrow> panic_io ''No, or incorrect, error message received'')))"

text \<open>In the runtime: a waiting \<open>recv\<close> would yield \<open>None\<close>, which fails the test.\<close>

definition recv_from :: "('w \<Rightarrow> 'a mailboxes) \<Rightarrow> (('a mailboxes \<Rightarrow> 'a mailboxes) \<Rightarrow> 'w \<Rightarrow> 'w) \<Rightarrow> nat \<Rightarrow>
    ('w, 'a option) io" where
  "recv_from part upd rx w =
     (case mb_queue (part w) rx of [] \<Rightarrow> (Ret None, w) | a # _ \<Rightarrow> (Ret (Some a), upd (mb_take rx) w))"

lemma proxy_tests_pass:
  "returns (it_calls_sender rt_event_channel rt_event_send (recv_from rt_events rt_events_update)) runtime_start"
  "returns (returns_error_on_failure rt_event_channel rt_event_send
     (\<lambda>rx w. (Ret (), w\<lparr>rt_events := mb_close rx (rt_events w)\<rparr>))) runtime_start"
  by (simp_all add: it_calls_sender_def returns_error_on_failure_def test_send_def asc_send_def
      unwrap_subscriber_sub_id_def rt_event_channel_def rt_event_send_def fifo_send_def recv_from_def
      runtime_start_def returns_def bind_io_def then_io_def Let_def)


section \<open>The message handler\<close>

definition message_hander_handles_ping ::
  "('w, 'tx \<times> 'rx) io \<Rightarrow> ('tx, unit Message, 'w) channel_send \<Rightarrow> ('rx \<Rightarrow> ('w, unit Message option) io) \<Rightarrow>
    ('w, unit) io" where
  "message_hander_handles_ping unbounded_channel tx_send recv =
     bind_io unbounded_channel (\<lambda>(tx, rx).
     bind_io (handle_message tx_send \<lparr>message_channel = tx\<rparr> (Ping (as_bytes ''0''))) (\<lambda>r. case r of
        Inl _ \<Rightarrow> panic_io ''called `Result::unwrap()` on an `Err` value''
      | Inr _ \<Rightarrow> bind_io (recv rx) (\<lambda>msg. case msg of
          Some (Pong bytes) \<Rightarrow> assert_io (as_bytes ''0'' = bytes)
        | _ \<Rightarrow> panic_io ''Ping did not Pong!'')))"

lemma message_hander_handles_ping_passes:
  "returns (message_hander_handles_ping
     (\<lambda>w. (Ret (0, 0), w\<lparr>ws_channel := mb_create 0 (ws_channel w)\<rparr>))
     (fifo_send ws_channel ws_channel_update) (recv_from ws_channel ws_channel_update)) w"
  by (simp add: message_hander_handles_ping_def handle_message_def fifo_send_def recv_from_def
      returns_def bind_io_def)


section \<open>The map\<close>

definition get_sync :: "((string, string) nlm_world, unit) io" where
  "get_sync = bind_io (nlm_get_if_present ''foo'') (\<lambda>r. assert_io (r = None))"

definition get_sync2 :: "((string, string) nlm_world, unit) io" where
  "get_sync2 =
     (let key = ''foo''; factory = (\<lambda>key. ''Hello, '' @ key @ ''!'') in
      bind_io (nlm_get_if_present key) (\<lambda>r.
      then_io (assert_io (r = None))
      (bind_io (nlm_get_await 0 key factory) (\<lambda>value.
      then_io (assert_io (value = ''Hello, foo!''))
      (bind_io (nlm_get_if_present key) (\<lambda>r. assert_io (r = Some ''Hello, foo!'')))))))"

lemma map_tests_pass:
  "returns get_sync NonLockingMap_new" "returns get_sync2 NonLockingMap_new"
  by (simp_all add: get_sync_def get_sync2_def NonLockingMap_new_def nlm_get_if_present_def
      nlm_get_sync_def nlm_get_await_def nlm_get_def nlm_poll_def nlm_run_updater_def nlm_handle_def
      nlm_create_if_necessary_def returns_def bind_io_def then_io_def Let_def)

end
