(* ===== verification/Mocks.thy ===== *)
theory Mocks
  imports Backend Runtime
begin

text \<open>
  The mock objects of \<open>src/asynchronous/mocks.rs\<close>, with which the crate's own tests observe a
  destination and the registry, and a runtime to run these tests in. A mock is the list of the
  expectations that a test has set on its methods; what the generated methods do with them is the
  business of the crate \<open>mockall\<close>, so the tests take the methods as arguments (\<open>TestKit\<close>,
  \<open>DestKit\<close>). \<open>test_kit\<close> and \<open>dest_kit\<close> instantiate them as \<open>mockall\<close> documents it: a call that no
  expectation matches panics, and so does one call too many.
\<close>

section \<open>Expectations\<close>

text \<open>
  An expectation: how often the call may come (\<open>None\<close>: any number of times), the predicate on its
  arguments and what it returns. The closures act on the cells that they share with the test,
  the state \<open>'s\<close>, and may panic.
\<close>

record ('a, 'r, 's) Expectation =
  exp_times :: "nat option"
  exp_withf :: "'a \<Rightarrow> ('s, bool) io"
  exp_returning :: "'a \<Rightarrow> ('s, 'r) io"

definition return_const :: "'r \<Rightarrow> 'a \<Rightarrow> ('s, 'r) io" where
  "return_const r a = ret_io r"

text \<open>A predicate that only looks at the arguments; \<open>any_args\<close> is the default.\<close>

definition withf :: "('a \<Rightarrow> bool) \<Rightarrow> 'a \<Rightarrow> ('s, bool) io" where
  "withf P a = ret_io (P a)"

definition any_args :: "'a \<Rightarrow> ('s, bool) io" where
  "any_args a = ret_io True"


section \<open>The mocks\<close>

type_synonym subscribe_callback_args = "DestinationId \<times> SubscriptionId option \<times> (StomperError + SubscriptionId)"
type_synonym unsubscribe_callback_args = "SubscriptionId option \<times> (StomperError + SubscriptionId)"
type_synonym send_args = "SubscriptionId \<times> SubscriptionId option \<times> OutboundMessage"
type_synonym send_callback_args = "MessageId option \<times> (StomperError + MessageId)"

record 's MockTestSubscriber =
  expect_subscribe_callback :: "(subscribe_callback_args, unit, 's) Expectation option"
  expect_unsubscribe_callback :: "(unsubscribe_callback_args, unit, 's) Expectation option"
  expect_send :: "(send_args, StomperError + unit, 's) Expectation option"

record 's MockTestSender =
  expect_send_callback :: "(send_callback_args, unit, 's) Expectation option"

text \<open>
  The methods of a destination are generic in the pointer type, and a mock keeps the expectations
  of each instance apart. The tests use two instances.
\<close>

datatype PointerType = ArcPointer | RefPointer

record 's MockTestDest =
  expect_dest_subscribe :: "PointerType \<Rightarrow> (SubscriptionId option \<times> nat \<times> DefaultClient, unit, 's) Expectation option"
  expect_dest_unsubscribe :: "PointerType \<Rightarrow> (SubscriptionId \<times> nat \<times> DefaultClient, unit, 's) Expectation option"
  expect_dest_send :: "PointerType \<Rightarrow> (InboundMessage \<times> nat \<times> DefaultClient, unit, 's) Expectation option"
  expect_dest_close :: "(unit, unit, 's) Expectation option"

definition create_subscriber :: "'s MockTestSubscriber" where
  "create_subscriber =
     \<lparr>expect_subscribe_callback = None, expect_unsubscribe_callback = None, expect_send = None\<rparr>"

definition create_sender :: "'s MockTestSender" where
  "create_sender = \<lparr>expect_send_callback = None\<rparr>"

definition MockTestDest_new :: "'s MockTestDest" where
  "MockTestDest_new =
     \<lparr>expect_dest_subscribe = (\<lambda>_. None), expect_dest_unsubscribe = (\<lambda>_. None),
      expect_dest_send = (\<lambda>_. None), expect_dest_close = None\<rparr>"


section \<open>What the tests run on\<close>

text \<open>
  The pointers are numbers. \<open>kit_yield_now\<close> lets the spawned tasks run; \<open>kit_drop\<close> drops the
  sending end of a channel; \<open>kit_shared\<close> reads the cells that the expectations share.
\<close>

record ('s, 'w) TestKit =
  kit_subscriber_new :: "'s MockTestSubscriber \<Rightarrow> ('w, nat) io"
  kit_sender_new :: "'s MockTestSender \<Rightarrow> ('w, nat) io"
  kit_subscriber :: "(nat, 'w) Subscriber"
  kit_sender :: "(nat, 'w) Sender"
  kit_channel :: "('w, nat \<times> nat) io"
  kit_spawn_backend :: "nat InMemDestinationBackend \<Rightarrow> nat \<Rightarrow> ('w, unit) io"
  kit_action_send :: "(nat, (nat, nat) DestinationAction, 'w) channel_send"
  kit_drop :: "nat \<Rightarrow> ('w, unit) io"
  kit_yield_now :: "('w, unit) io"
  kit_shared :: "('w, 's) io"

definition kit_create :: "('s, 'w) TestKit \<Rightarrow> DestinationId \<Rightarrow> ('w, nat InMemDestination) io" where
  "kit_create kit = imd_create (kit_channel kit) (kit_spawn_backend kit)"


section \<open>A runtime for the tests\<close>

datatype mock_method =
    Subscribe_Callback | Unsubscribe_Callback | Subscriber_Send | Send_Callback
  | Dest_Subscribe | Dest_Unsubscribe | Dest_Send | Dest_Close

text \<open>
  The world of a test: the mocks behind the pointers, how often each of their methods has met its
  expectation, the channels and tasks of the destinations, the messages of the tasks that have
  panicked, and how many UUIDs have been drawn.
\<close>

record 's test_world =
  tw_subscribers :: "'s MockTestSubscriber list"
  tw_senders :: "'s MockTestSender list"
  tw_dests :: "'s MockTestDest list"
  tw_met :: "(nat \<times> mock_method) list"
  tw_shared :: 's
  tw_actions :: "(nat, nat) DestinationAction mailboxes"
  tw_dropped :: "nat list"
  tw_listeners :: "(nat \<times> nat InMemDestinationBackend) list"
  tw_spawned :: "(nat, DefaultClient) SubscribeTask list"
  tw_map :: "DestinationId \<rightharpoonup> nat"
  tw_panics :: "string list"
  tw_uuids :: nat
  tw_next :: nat

definition test_start :: "'s \<Rightarrow> 's test_world" where
  "test_start s =
     \<lparr>tw_subscribers = [], tw_senders = [], tw_dests = [], tw_met = [], tw_shared = s,
      tw_actions = no_mailboxes, tw_dropped = [], tw_listeners = [], tw_spawned = [], tw_map = Map.empty,
      tw_panics = [], tw_uuids = 0, tw_next = 0\<rparr>"

definition no_expectation :: string where
  "no_expectation = ''No matching expectation found''"

definition too_many_calls :: string where
  "too_many_calls = ''Expectation called more times than expected''"

definition meet ::
  "mock_method \<Rightarrow> nat \<Rightarrow> ('a, 'r, 's) Expectation option \<Rightarrow> 'a \<Rightarrow> ('s test_world, 'r) io" where
  "meet method p expectation a w =
     (case expectation of
        None \<Rightarrow> (Panic no_expectation, w)
      | Some e \<Rightarrow>
          (case exp_withf e a (tw_shared w) of
             (Panic msg, s) \<Rightarrow> (Panic msg, w\<lparr>tw_shared := s\<rparr>)
           | (Ret matches, s) \<Rightarrow>
               if \<not> matches then (Panic no_expectation, w\<lparr>tw_shared := s\<rparr>)
               else if exp_times e = Some (count_list (tw_met w) (p, method))
               then (Panic too_many_calls, w\<lparr>tw_shared := s\<rparr>)
               else (case exp_returning e a s of
                       (r, s') \<Rightarrow> (r, w\<lparr>tw_shared := s', tw_met := tw_met w @ [(p, method)]\<rparr>))))"

text \<open>The generated methods.\<close>

definition mock_subscriber :: "(nat, 's test_world) Subscriber" where
  "mock_subscriber =
     \<lparr>subscribe_callback = (\<lambda>p d i r w.
        meet Subscribe_Callback p (expect_subscribe_callback (tw_subscribers w ! p)) (d, i, r) w),
      unsubscribe_callback = (\<lambda>p i r w.
        meet Unsubscribe_Callback p (expect_unsubscribe_callback (tw_subscribers w ! p)) (i, r) w),
      subscriber_send = (\<lambda>p s i m w.
        meet Subscriber_Send p (expect_send (tw_subscribers w ! p)) (s, i, m) w)\<rparr>"

definition mock_sender :: "(nat, 's test_world) Sender" where
  "mock_sender =
     \<lparr>send_callback = (\<lambda>k i r w.
        meet Send_Callback k (expect_send_callback (tw_senders w ! k)) (i, r) w)\<rparr>"

definition mock_dest :: "(nat, nat, nat, DefaultClient, 's test_world) Destination" where
  "mock_dest =
     \<lparr>destination_subscribe = (\<lambda>d i p c w.
        meet Dest_Subscribe d (expect_dest_subscribe (tw_dests w ! d) ArcPointer) (i, p, c) w),
      destination_unsubscribe = (\<lambda>d i p c w.
        meet Dest_Unsubscribe d (expect_dest_unsubscribe (tw_dests w ! d) ArcPointer) (i, p, c) w),
      destination_send = (\<lambda>d m k c w.
        meet Dest_Send d (expect_dest_send (tw_dests w ! d) ArcPointer) (m, k, c) w),
      destination_close = (\<lambda>d w. meet Dest_Close d (expect_dest_close (tw_dests w ! d)) () w)\<rparr>"


text \<open>Channels and tasks. \<open>uuid n\<close> is the \<open>n\<close>-th UUID that is drawn.\<close>

definition test_channel :: "('s test_world, nat \<times> nat) io" where
  "test_channel w = (let t = tw_next w in
     (Ret (t, t), w\<lparr>tw_actions := mb_create t (tw_actions w), tw_next := Suc t\<rparr>))"

definition test_spawn_backend :: "nat InMemDestinationBackend \<Rightarrow> nat \<Rightarrow> ('s test_world, unit) io" where
  "test_spawn_backend b rx w = (Ret (), w\<lparr>tw_listeners := tw_listeners w @ [(rx, b)]\<rparr>)"

definition test_action_send :: "(nat, (nat, nat) DestinationAction, 's test_world) channel_send" where
  "test_action_send = fifo_send tw_actions tw_actions_update"

interpretation test_action: unbounded_sender test_action_send
  "\<lambda>t w. mb_open (tw_actions w) t" "\<lambda>t w. mb_queue (tw_actions w) t"
  unfolding test_action_send_def by (rule fifo_unbounded_sender) simp_all

definition test_drop :: "nat \<Rightarrow> ('s test_world, unit) io" where
  "test_drop t w = (Ret (), w\<lparr>tw_dropped := t # tw_dropped w\<rparr>)"

fun work_off ::
  "nat InMemDestinationBackend \<Rightarrow> (string \<times> (nat, nat) DestinationAction) list \<Rightarrow>
    ('s test_world, nat InMemDestinationBackend option) io" where
  "work_off b [] = ret_io (Some b)"
| "work_off b ((new_v4, action) # received) =
     bind_io (handle_action mock_subscriber mock_sender id new_v4 b action)
       (\<lambda>next_state. case next_state of
          Continue b' \<Rightarrow> work_off b' received
        | Break _ \<Rightarrow> ret_io None)"

text \<open>A task that has ended, or panicked, drops its receiver.\<close>

definition run_listener :: "(nat \<Rightarrow> string) \<Rightarrow> nat \<times> nat InMemDestinationBackend \<Rightarrow> 's test_world \<Rightarrow> 's test_world" where
  "run_listener uuid task w =
     (case task of (t, b) \<Rightarrow>
        let queue = mb_queue (tw_actions w) t;
            n = tw_uuids w;
            actions = zip (map uuid [n..<n + length queue]) queue;
            ended = (\<lambda>w. w\<lparr>tw_actions := mb_close t (tw_actions w)\<rparr>)
        in case work_off b actions
             (w\<lparr>tw_actions := (tw_actions w)\<lparr>mb_queue := (mb_queue (tw_actions w))(t := [])\<rparr>,
               tw_uuids := n + length queue\<rparr>) of
             (Ret (Some b'), w') \<Rightarrow>
               if t \<in> set (tw_dropped w') then ended w'
               else w'\<lparr>tw_listeners := tw_listeners w' @ [(t, b')]\<rparr>
           | (Ret None, w') \<Rightarrow> ended w'
           | (Panic msg, w') \<Rightarrow> ended (w'\<lparr>tw_panics := tw_panics w' @ [msg]\<rparr>))"

definition test_yield_now :: "(nat \<Rightarrow> string) \<Rightarrow> ('s test_world, unit) io" where
  "test_yield_now uuid w =
     (Ret (), fold (run_listener uuid) (tw_listeners w) (w\<lparr>tw_listeners := []\<rparr>))"

definition test_kit :: "(nat \<Rightarrow> string) \<Rightarrow> ('s, 's test_world) TestKit" where
  "test_kit uuid =
     \<lparr>kit_subscriber_new = (\<lambda>m w.
        (Ret (length (tw_subscribers w)), w\<lparr>tw_subscribers := tw_subscribers w @ [m]\<rparr>)),
      kit_sender_new = (\<lambda>m w. (Ret (length (tw_senders w)), w\<lparr>tw_senders := tw_senders w @ [m]\<rparr>)),
      kit_subscriber = mock_subscriber, kit_sender = mock_sender,
      kit_channel = test_channel, kit_spawn_backend = test_spawn_backend,
      kit_action_send = test_action_send, kit_drop = test_drop,
      kit_yield_now = test_yield_now uuid, kit_shared = (\<lambda>w. (Ret (tw_shared w), w))\<rparr>"

end
