(* ===== verification/Inmemory_Tests.thy ===== *)
theory Inmemory_Tests
  imports Mocks
begin

text \<open>
  The tests of \<open>src/asynchronous/inmemory.rs\<close>, run on the model. A test is translated statement
  by statement over a \<open>TestKit\<close>; the cell that its closures share holds a subscription id. That a
  test passes says little, since a spawned task that panics does not fail it; so the lemmas say
  what the mocks have seen, and which tasks have panicked.
\<close>

type_synonym 'w kit = "(SubscriptionId option, 'w) TestKit"

text \<open>\<open>sub_id.try_write().unwrap().replace(result.unwrap())\<close>, with the lock free.\<close>

definition keep_sub_id :: "StomperError + SubscriptionId \<Rightarrow> (SubscriptionId option, unit) io" where
  "keep_sub_id result cell =
     (case result of
        Inr i \<Rightarrow> (Ret (), Some i)
      | Inl _ \<Rightarrow> (Panic ''called `Result::unwrap()` on an `Err` value'', cell))"

definition destination_calls_subscribe_callback :: "'w kit \<Rightarrow> ('w, unit) io" where
  "destination_calls_subscribe_callback kit =
     (let foo = DestinationId ''foo''; sub_id = SubscriptionId ''bar'' in
      bind_io (kit_create kit foo) (\<lambda>destination.
      bind_io (kit_subscriber_new kit (create_subscriber
          \<lparr>expect_subscribe_callback := Some
            \<lparr>exp_times = Some 1,
             exp_withf = withf (\<lambda>(dest_id, i, result). dest_id = foo \<and> is_ok result \<and> i = Some sub_id),
             exp_returning = return_const ()\<rparr>\<rparr>)) (\<lambda>subscriber.
      then_io (imd_subscribe (kit_action_send kit) (kit_subscriber kit) destination (Some sub_id)
          subscriber DefaultClient)
      (then_io (kit_drop kit (imd_sender destination))
        (kit_yield_now kit)))))"

definition destination_calls_unsubscribe_callback :: "'w kit \<Rightarrow> ('w, unit) io" where
  "destination_calls_unsubscribe_callback kit =
     (let foo = DestinationId ''foo''; subscriber_sub_id = SubscriptionId ''bar'' in
      bind_io (kit_create kit foo) (\<lambda>destination.
      bind_io (kit_subscriber_new kit (create_subscriber
          \<lparr>expect_subscribe_callback := Some
            \<lparr>exp_times = Some 1,
             exp_withf = (\<lambda>(dest_id, i, result). then_io (keep_sub_id result)
               (ret_io (dest_id = foo \<and> i = Some subscriber_sub_id))),
             exp_returning = return_const ()\<rparr>,
           expect_unsubscribe_callback := Some
            \<lparr>exp_times = Some 1, exp_withf = any_args, exp_returning = return_const ()\<rparr>\<rparr>))
        (\<lambda>subscriber.
      then_io (imd_subscribe (kit_action_send kit) (kit_subscriber kit) destination
          (Some subscriber_sub_id) subscriber DefaultClient)
      (then_io (kit_yield_now kit)
      (bind_io (kit_shared kit) (\<lambda>sub_id.
      then_io
        (case sub_id of
           None \<Rightarrow> panic_io ''called `Option::unwrap()` on a `None` value''
         | Some i \<Rightarrow> imd_unsubscribe (kit_action_send kit) (kit_subscriber kit) destination i
             subscriber DefaultClient)
        (kit_yield_now kit)))))))"

definition destination_calls_send_callback :: "'w kit \<Rightarrow> ('w, unit) io" where
  "destination_calls_send_callback kit =
     (let foo = DestinationId ''foo''; sub_id = SubscriptionId ''bar'' in
      bind_io (kit_create kit foo) (\<lambda>destination.
      bind_io (kit_sender_new kit (create_sender
          \<lparr>expect_send_callback := Some
            \<lparr>exp_times = Some 1, exp_withf = any_args, exp_returning = return_const ()\<rparr>\<rparr>))
        (\<lambda>sender.
      bind_io (kit_subscriber_new kit create_subscriber) (\<lambda>subscriber.
      then_io (imd_subscribe (kit_action_send kit) (kit_subscriber kit) destination (Some sub_id)
          subscriber DefaultClient)
      (then_io (imd_send (kit_action_send kit) (kit_sender kit) destination
          \<lparr>sender_message_id = Some (MessageId ''msg-1''), in_body = as_bytes ''Slartibartfast rules''\<rparr>
          sender DefaultClient)
        (kit_yield_now kit))))))"

text \<open>
  \<open>String::from_utf8_lossy\<close> of a body is this ASCII text exactly if the body is its bytes. The
  predicate of \<open>send\<close> unwraps the id that the subscribe callback has kept.
\<close>

definition destination_sends_to_subscribers :: "'w kit \<Rightarrow> ('w, unit) io" where
  "destination_sends_to_subscribers kit =
     (let foo = DestinationId ''foo''; sender_sub_id = SubscriptionId ''false'' in
      bind_io (kit_create kit foo) (\<lambda>destination.
      bind_io (kit_sender_new kit (create_sender
          \<lparr>expect_send_callback := Some
            \<lparr>exp_times = None, exp_withf = any_args, exp_returning = return_const ()\<rparr>\<rparr>))
        (\<lambda>sender.
      bind_io (kit_subscriber_new kit (create_subscriber
          \<lparr>expect_subscribe_callback := Some
            \<lparr>exp_times = Some 1,
             exp_withf = withf (\<lambda>(dest_id, _, result). dest_id = foo \<and> is_ok result),
             exp_returning = (\<lambda>(_, _, result). keep_sub_id result)\<rparr>,
           expect_send := Some
            \<lparr>exp_times = Some 1,
             exp_withf = (\<lambda>(subscription, i, message) cell.
               if out_body message = as_bytes ''Hello, World 42''
               then (case cell of
                       None \<Rightarrow> (Panic ''called `Option::unwrap()` on a `None` value'', cell)
                     | Some s \<Rightarrow> (Ret (subscription = s \<and> i = Some sender_sub_id), cell))
               else (Ret False, cell)),
             exp_returning = return_const (Inr ())\<rparr>\<rparr>)) (\<lambda>subscriber.
      then_io (imd_subscribe (kit_action_send kit) (kit_subscriber kit) destination
          (Some sender_sub_id) subscriber DefaultClient)
      (then_io (imd_send (kit_action_send kit) (kit_sender kit) destination
          \<lparr>sender_message_id = Some (MessageId ''my_msg''), in_body = as_bytes ''Hello, World 42''\<rparr>
          sender DefaultClient)
        (kit_yield_now kit))))))"

text \<open>The three operations on a handle whose task has ended.\<close>

definition subscriber_error_callsback_error :: "'w kit \<Rightarrow> ('w, unit) io" where
  "subscriber_error_callsback_error kit =
     (let foo = DestinationId ''foo''; sender_sub_id = SubscriptionId ''false'' in
      bind_io (kit_create kit foo) (\<lambda>destination.
      then_io (imd_close (kit_action_send kit) destination)
      (then_io (kit_yield_now kit)
      (bind_io (kit_subscriber_new kit (create_subscriber
          \<lparr>expect_subscribe_callback := Some
            \<lparr>exp_times = Some 1,
             exp_withf = (\<lambda>(dest_id, i, result). case (dest_id = foo, i) of
                 (False, _) \<Rightarrow> ret_io False
               | (True, None) \<Rightarrow> panic_io ''called `Option::unwrap()` on a `None` value''
               | (True, Some i) \<Rightarrow> ret_io (i = sender_sub_id \<and> is_err result)),
             exp_returning = return_const ()\<rparr>\<rparr>)) (\<lambda>subscriber.
      then_io (imd_subscribe (kit_action_send kit) (kit_subscriber kit) destination
          (Some sender_sub_id) subscriber DefaultClient)
        (kit_yield_now kit))))))"

definition send_error_callsback_error :: "'w kit \<Rightarrow> ('w, unit) io" where
  "send_error_callsback_error kit =
     (let foo = DestinationId ''foo''; message_id = MessageId ''foo'' in
      bind_io (kit_create kit foo) (\<lambda>destination.
      then_io (imd_close (kit_action_send kit) destination)
      (then_io (kit_yield_now kit)
      (bind_io (kit_sender_new kit (create_sender
          \<lparr>expect_send_callback := Some
            \<lparr>exp_times = Some 1,
             exp_withf = (\<lambda>(i, result). case i of
                 None \<Rightarrow> panic_io ''called `Option::unwrap()` on a `None` value''
               | Some i \<Rightarrow> ret_io (i = message_id \<and> is_err result)),
             exp_returning = return_const ()\<rparr>\<rparr>)) (\<lambda>sender.
      then_io (imd_send (kit_action_send kit) (kit_sender kit) destination
          \<lparr>sender_message_id = Some message_id, in_body = []\<rparr> sender DefaultClient)
        (kit_yield_now kit))))))"

definition unsubscriber_error_callsback_error :: "'w kit \<Rightarrow> ('w, unit) io" where
  "unsubscriber_error_callsback_error kit =
     (let foo = DestinationId ''foo''; sender_sub_id = SubscriptionId ''false'' in
      bind_io (kit_create kit foo) (\<lambda>destination.
      then_io (imd_close (kit_action_send kit) destination)
      (then_io (kit_yield_now kit)
      (bind_io (kit_subscriber_new kit (create_subscriber
          \<lparr>expect_unsubscribe_callback := Some
            \<lparr>exp_times = Some 1,
             exp_withf = withf (\<lambda>(i, result). i = None \<and> is_err result),
             exp_returning = return_const ()\<rparr>\<rparr>)) (\<lambda>subscriber.
      then_io (imd_unsubscribe (kit_action_send kit) (kit_subscriber kit) destination sender_sub_id
          subscriber DefaultClient)
        (kit_yield_now kit))))))"


section \<open>The runs\<close>

lemmas test_defs =
  imd_create_def imd_subscribe_def imd_unsubscribe_def imd_send_def imd_close_def perform_action_def
  add_subscription_def remove_subscription_def backend_send_def subscription_send_def
  to_subscribe_callback_def to_send_fn_def to_unsubscribe_callback_def to_send_callback_def
  backend_start_def kit_create_def create_subscriber_def create_sender_def
  test_start_def test_kit_def test_channel_def test_spawn_backend_def test_action_send_def fifo_send_def
  test_drop_def test_yield_now_def run_listener_def mock_subscriber_def mock_sender_def meet_def
  return_const_def withf_def any_args_def keep_sub_id_def bind_io_def then_io_def remove_keys_def Let_def

lemma destination_calls_subscribe_callback_passes:
  "\<exists>w. destination_calls_subscribe_callback (test_kit uuid) (test_start None) = (Ret (), w) \<and>
     tw_met w = [(0, Subscribe_Callback)] \<and> tw_panics w = [] \<and> tw_listeners w = []"
  by (simp add: destination_calls_subscribe_callback_def test_defs)

lemma destination_calls_unsubscribe_callback_passes:
  "\<exists>w. destination_calls_unsubscribe_callback (test_kit uuid) (test_start None) = (Ret (), w) \<and>
     tw_met w = [(0, Subscribe_Callback), (0, Unsubscribe_Callback)] \<and> tw_panics w = []"
  by (simp add: destination_calls_unsubscribe_callback_def test_defs)

text \<open>
  This test passes for a reason of its own: its subscriber expects no callback, so the task of the
  destination panics on the subscription and never looks at the message. The send callback, which
  the test is about, is not called.
\<close>

lemma destination_calls_send_callback_is_vacuous:
  "\<exists>w. destination_calls_send_callback (test_kit uuid) (test_start None) = (Ret (), w) \<and>
     tw_met w = [] \<and> tw_panics w = [no_expectation] \<and> tw_listeners w = []"
  by (simp add: destination_calls_send_callback_def test_defs)

lemma destination_sends_to_subscribers_passes:
  "\<exists>w. destination_sends_to_subscribers (test_kit uuid) (test_start None) = (Ret (), w) \<and>
     tw_met w = [(0, Subscribe_Callback), (0, Subscriber_Send), (0, Send_Callback)] \<and> tw_panics w = []"
  by (simp add: destination_sends_to_subscribers_def test_defs)

lemma error_callbacks_pass:
  "\<exists>w. subscriber_error_callsback_error (test_kit uuid) (test_start None) = (Ret (), w) \<and>
     tw_met w = [(0, Subscribe_Callback)] \<and> tw_panics w = []"
  "\<exists>w. send_error_callsback_error (test_kit uuid) (test_start None) = (Ret (), w) \<and>
     tw_met w = [(0, Send_Callback)] \<and> tw_panics w = []"
  "\<exists>w. unsubscriber_error_callsback_error (test_kit uuid) (test_start None) = (Ret (), w) \<and>
     tw_met w = [(0, Unsubscribe_Callback)] \<and> tw_panics w = []"
  by (simp_all add: subscriber_error_callsback_error_def send_error_callsback_error_def
      unsubscriber_error_callsback_error_def test_defs)

end
