(* ===== verification/Registry_Tests.thy ===== *)
theory Registry_Tests
  imports Mocks
begin

text \<open>
  The tests of \<open>src/asynchronous/destinations.rs\<close>, run on the model of the registry: its
  destinations are mocks that a factory takes out of a map which the test has filled, so that the
  test sees how often a destination was asked for. The cells that the closures share are that map
  and a counter.
\<close>

section \<open>What the tests run on\<close>

record registry_cells =
  cell_count :: nat
  cell_expected :: "(DestinationId, nat) hash_map"

text \<open>
  \<open>dk_yield_now\<close> lets the spawned tasks run, each of which holds a clone of the handle; the map of
  the registry and the mocks' methods are arguments, as in \<open>Registry\<close> and \<open>Mocks\<close>.
\<close>

record ('m, 'w) DestKit =
  dk_dest_new :: "registry_cells MockTestDest \<Rightarrow> ('w, nat) io"
  dk_subscriber_new :: "registry_cells MockTestSubscriber \<Rightarrow> ('w, nat) io"
  dk_sender_new :: "registry_cells MockTestSender \<Rightarrow> ('w, nat) io"
  dk_new_map :: 'm
  dk_map :: "('m, DestinationId, nat, DestinationId \<Rightarrow> ('w, nat) io, 'w) VersionedMap"
  dk_spawn :: "(nat, DefaultClient) SubscribeTask \<Rightarrow> ('w, unit) io"
  dk_dest :: "(nat, nat, nat, DefaultClient, 'w) Destination"
  dk_sender :: "(nat, 'w) Sender"
  dk_yield_now :: "('m, DestinationId \<Rightarrow> ('w, nat) io) AsyncDestinations \<Rightarrow> ('w, unit) io"
  dk_shared :: "('w, registry_cells) io"
  dk_update :: "(registry_cells \<Rightarrow> registry_cells) \<Rightarrow> ('w, unit) io"

text \<open>\<open>impl Destination for Arc<A>\<close>: each method is that of the destination behind the pointer.\<close>

definition arc_destination ::
  "('d, 'p, 'k, 'c, 'w) Destination \<Rightarrow> ('d, 'p, 'k, 'c, 'w) Destination" where
  "arc_destination D =
     \<lparr>destination_subscribe = (\<lambda>self subscriber_sub_id subscriber client.
        destination_subscribe D self subscriber_sub_id subscriber client),
      destination_unsubscribe = (\<lambda>self sub subscriber client.
        destination_unsubscribe D self sub subscriber client),
      destination_send = (\<lambda>self message sender client. destination_send D self message sender client),
      destination_close = (\<lambda>self. destination_close D self)\<rparr>"

definition map_draining_factory :: "('m, 'w) DestKit \<Rightarrow> DestinationId \<Rightarrow> ('w, nat) io" where
  "map_draining_factory kit i =
     bind_io (dk_shared kit) (\<lambda>cells.
       case map_of (cell_expected cells) i of
         None \<Rightarrow> panic_io ''called `Option::unwrap()` on a `None` value''
       | Some dest \<Rightarrow>
           then_io (dk_update kit (\<lambda>c. c\<lparr>cell_expected := AList.delete i (cell_expected c)\<rparr>))
             (ret_io dest))"

text \<open>A predicate that counts its calls.\<close>

definition counting :: "('a \<Rightarrow> bool) \<Rightarrow> 'a \<Rightarrow> (registry_cells, bool) io" where
  "counting P a c = (Ret (P a), c\<lparr>cell_count := Suc (cell_count c)\<rparr>)"

definition insert_subscribe_counting_dest ::
  "('m, 'w) DestKit \<Rightarrow> DestinationId \<Rightarrow> SubscriptionId \<Rightarrow> ('w, unit) io" where
  "insert_subscribe_counting_dest kit i expected_sub_id =
     bind_io (dk_dest_new kit (MockTestDest_new
         \<lparr>expect_dest_subscribe := [ArcPointer \<mapsto>
           \<lparr>exp_times = None,
            exp_withf = counting (\<lambda>(subscriber_sub_id, _, _). subscriber_sub_id = Some expected_sub_id),
            exp_returning = return_const ()\<rparr>]\<rparr>))
       (\<lambda>dest. dk_update kit (\<lambda>c. c\<lparr>cell_expected := AList.update i dest (cell_expected c)\<rparr>))"

text \<open>The subscription is expected with a plain reference, with which nobody calls.\<close>

definition insert_send_counting_dest ::
  "('m, 'w) DestKit \<Rightarrow> DestinationId \<Rightarrow> MessageId \<Rightarrow> ('w, nat) io" where
  "insert_send_counting_dest kit i expected_message_id =
     bind_io (dk_dest_new kit (MockTestDest_new
         \<lparr>expect_dest_subscribe := [RefPointer \<mapsto>
           \<lparr>exp_times = None, exp_withf = any_args, exp_returning = return_const ()\<rparr>],
          expect_dest_send := [ArcPointer \<mapsto>
           \<lparr>exp_times = None,
            exp_withf = counting (\<lambda>(msg, _, _). sender_message_id msg = Some expected_message_id),
            exp_returning = return_const ()\<rparr>]\<rparr>))
       (\<lambda>dest. then_io (dk_update kit (\<lambda>c. c\<lparr>cell_expected := AList.update i dest (cell_expected c)\<rparr>))
         (ret_io dest))"


section \<open>The tests\<close>

definition start_destinations ::
  "('m, 'w) DestKit \<Rightarrow> ('m, DestinationId \<Rightarrow> ('w, nat) io) AsyncDestinations" where
  "start_destinations kit = AsyncDestinations_start (dk_new_map kit) (map_draining_factory kit)"

text \<open>The two assertions at the end of each test.\<close>

definition assert_drained :: "('m, 'w) DestKit \<Rightarrow> nat \<Rightarrow> ('w, unit) io" where
  "assert_drained kit n =
     bind_io (dk_shared kit) (\<lambda>cells.
       then_io (assert_io (0 = length (cell_expected cells))) (assert_io (n = cell_count cells)))"

definition test_subscribe ::
  "('m, 'w) DestKit \<Rightarrow> ('m, DestinationId \<Rightarrow> ('w, nat) io) AsyncDestinations \<Rightarrow> DestinationId \<Rightarrow>
    SubscriptionId option \<Rightarrow> ('w, unit) io" where
  "test_subscribe kit dests d sub_id =
     bind_io (dk_subscriber_new kit create_subscriber) (\<lambda>subscriber.
       ad_subscribe (dk_spawn kit) dests d sub_id subscriber DefaultClient)"

definition destinations_creates_on_subscribe :: "('m, 'w) DestKit \<Rightarrow> ('w, unit) io" where
  "destinations_creates_on_subscribe kit =
     (let foo = DestinationId ''foo''; sub_id = SubscriptionId ''bar'';
          dests = start_destinations kit in
      then_io (insert_subscribe_counting_dest kit foo sub_id)
      (then_io (test_subscribe kit dests foo (Some sub_id))
      (then_io (dk_yield_now kit dests)
        (assert_drained kit 1))))"

definition destinations_sends_to_created_destination :: "('m, 'w) DestKit \<Rightarrow> ('w, unit) io" where
  "destinations_sends_to_created_destination kit =
     (let foo = DestinationId ''foo''; forty_two = MessageId ''42'';
          dests = start_destinations kit in
      then_io (insert_send_counting_dest kit foo forty_two)
      (then_io (test_subscribe kit dests foo None)
      (then_io (dk_yield_now kit dests)
      (bind_io (dk_sender_new kit create_sender) (\<lambda>sender.
      then_io (ad_send (dk_map kit) (arc_destination (dk_dest kit)) (dk_sender kit) dests foo
          \<lparr>sender_message_id = Some forty_two, in_body = []\<rparr> sender DefaultClient)
        (assert_drained kit 1))))))"

definition destinations_creates_each_destination :: "('m, 'w) DestKit \<Rightarrow> ('w, unit) io" where
  "destinations_creates_each_destination kit =
     (let foo = DestinationId ''foo''; sub_id_foo = SubscriptionId ''bar'';
          bar = DestinationId ''bar''; sub_id_bar = SubscriptionId ''foo'';
          dests = start_destinations kit in
      then_io (insert_subscribe_counting_dest kit foo sub_id_foo)
      (then_io (insert_subscribe_counting_dest kit bar sub_id_bar)
      (then_io (test_subscribe kit dests foo (Some sub_id_foo))
      (then_io (dk_yield_now kit dests)
      (then_io (test_subscribe kit dests bar (Some sub_id_bar))
      (then_io (dk_yield_now kit dests)
        (assert_drained kit 2)))))))"

definition destinations_reuses_on_subsequent_subscribe :: "('m, 'w) DestKit \<Rightarrow> ('w, unit) io" where
  "destinations_reuses_on_subsequent_subscribe kit =
     (let foo = DestinationId ''foo''; sub_id_foo = SubscriptionId ''bar'';
          dests = start_destinations kit in
      then_io (insert_subscribe_counting_dest kit foo sub_id_foo)
      (then_io (test_subscribe kit dests foo (Some sub_id_foo))
      (then_io (test_subscribe kit dests foo (Some sub_id_foo))
      (then_io (test_subscribe kit dests foo (Some sub_id_foo))
      (then_io (test_subscribe kit dests foo (Some sub_id_foo))
      (then_io (dk_yield_now kit dests)
        (assert_drained kit 4)))))))"


section \<open>The runs\<close>

text \<open>A map that asks the factory for what it does not hold, and the tasks of \<open>subscribe\<close>.\<close>

definition test_map ::
  "(unit, DestinationId, nat, DestinationId \<Rightarrow> ('s test_world, nat) io, 's test_world) VersionedMap" where
  "test_map =
     \<lparr>vm_get_if_present = (\<lambda>_ d w. (Ret (tw_map w d), w)),
      vm_get = (\<lambda>_ d factory w. case tw_map w d of
          Some dest \<Rightarrow> (Ret dest, w)
        | None \<Rightarrow> bind_io (factory d) (\<lambda>dest w. (Ret dest, w\<lparr>tw_map := (tw_map w)(d \<mapsto> dest)\<rparr>)) w)\<rparr>"

definition run_spawned ::
  "(unit, DestinationId \<Rightarrow> ('s test_world, nat) io) AsyncDestinations \<Rightarrow>
    (nat, DefaultClient) SubscribeTask \<Rightarrow> 's test_world \<Rightarrow> 's test_world" where
  "run_spawned self task w =
     (case run_subscribe_task test_map (arc_destination mock_dest) self task w of
        (Ret _, w') \<Rightarrow> w'
      | (Panic msg, w') \<Rightarrow> w'\<lparr>tw_panics := tw_panics w' @ [msg]\<rparr>)"

definition dest_kit :: "(unit, registry_cells test_world) DestKit" where
  "dest_kit =
     \<lparr>dk_dest_new = (\<lambda>m w. (Ret (length (tw_dests w)), w\<lparr>tw_dests := tw_dests w @ [m]\<rparr>)),
      dk_subscriber_new = kit_subscriber_new (test_kit (\<lambda>_. [])),
      dk_sender_new = kit_sender_new (test_kit (\<lambda>_. [])),
      dk_new_map = (), dk_map = test_map,
      dk_spawn = (\<lambda>task w. (Ret (), w\<lparr>tw_spawned := tw_spawned w @ [task]\<rparr>)),
      dk_dest = mock_dest, dk_sender = mock_sender,
      dk_yield_now = (\<lambda>self w.
        (Ret (), fold (run_spawned self) (tw_spawned w) (w\<lparr>tw_spawned := []\<rparr>))),
      dk_shared = (\<lambda>w. (Ret (tw_shared w), w)),
      dk_update = (\<lambda>f w. (Ret (), w\<lparr>tw_shared := f (tw_shared w)\<rparr>))\<rparr>"

lemmas registry_test_defs =
  start_destinations_def AsyncDestinations_start_def map_draining_factory_def counting_def
  insert_subscribe_counting_dest_def insert_send_counting_dest_def assert_drained_def
  test_subscribe_def ad_subscribe_def ad_send_def run_subscribe_task_def arc_destination_def
  test_map_def run_spawned_def dest_kit_def mock_dest_def MockTestDest_new_def create_subscriber_def
  create_sender_def test_start_def test_kit_def meet_def return_const_def any_args_def
  bind_io_def then_io_def Let_def

abbreviation registry_test_start :: "registry_cells test_world" where
  "registry_test_start \<equiv> test_start \<lparr>cell_count = 0, cell_expected = []\<rparr>"

lemma destinations_creates_on_subscribe_passes:
  "\<exists>w. destinations_creates_on_subscribe dest_kit registry_test_start = (Ret (), w) \<and>
     tw_met w = [(0, Dest_Subscribe)] \<and> tw_panics w = []"
  by (simp add: destinations_creates_on_subscribe_def registry_test_defs)

lemma destinations_creates_each_destination_passes:
  "\<exists>w. destinations_creates_each_destination dest_kit registry_test_start = (Ret (), w) \<and>
     tw_met w = [(0, Dest_Subscribe), (1, Dest_Subscribe)] \<and> tw_panics w = []"
  by (simp add: destinations_creates_each_destination_def registry_test_defs)

lemma destinations_reuses_on_subsequent_subscribe_passes:
  "\<exists>w. destinations_reuses_on_subsequent_subscribe dest_kit registry_test_start = (Ret (), w) \<and>
     tw_met w = replicate 4 (0, Dest_Subscribe) \<and> tw_panics w = []"
  by (simp add: destinations_reuses_on_subsequent_subscribe_def registry_test_defs numeral_eq_Suc)

text \<open>
  This test passes although its SUBSCRIBE fails: the task panics in the mock, whose expectation is
  for another pointer type, after the map has created the destination.
\<close>

lemma destinations_sends_to_created_destination_passes:
  "\<exists>w. destinations_sends_to_created_destination dest_kit registry_test_start = (Ret (), w) \<and>
     tw_met w = [(0, Dest_Send)] \<and> tw_panics w = [no_expectation]"
  by (simp add: destinations_sends_to_created_destination_def registry_test_defs)

end
