(* ===== verification/Timer_Tests.thy ===== *)
theory Timer_Tests
  imports Timer_Spec Runtime
begin

text \<open>
  The tests of \<open>src/asynchronous/delayable_stream.rs\<close>, run on the model of the timer. The clock and
  the executor are \<open>tokio\<close>'s and so arguments (\<open>TimerKit\<close>); \<open>timer_kit\<close> is a current-thread
  executor with a paused clock, which jumps from deadline to deadline while the test sleeps.
\<close>

section \<open>The tests\<close>

datatype State = Fired | NotFired

text \<open>
  The stream of a test is a variable: \<open>tk_let\<close> binds it, \<open>tk_call\<close> calls a method on it and
  \<open>tk_drop_stream\<close> drops it. \<open>tk_sleep\<close> sleeps with the clock paused.
\<close>

record ('cx, 'rx, 'w) TimerKit =
  tk_channel :: "('w, 'cx \<times> 'rx) io"
  tk_send :: "('cx, ResettableTimerCommand, 'w) channel_send"
  tk_drop_resetter :: "'cx ResettableTimerResetter \<Rightarrow> ('w, unit) io"
  tk_let :: "'rx ResettableTimer \<Rightarrow> ('w, unit) io"
  tk_call :: "('rx ResettableTimer, unit option Poll) io \<Rightarrow> ('w, unit option Poll) io"
  tk_drop_stream :: "('w, unit) io"
  tk_sleep :: "duration \<Rightarrow> ('w, unit) io"
  tk_yield_now :: "('w, unit) io"

definition create_stream ::
  "('cx, 'rx, 'w) TimerKit \<Rightarrow> nat \<Rightarrow> ('w, 'cx ResettableTimerResetter) io" where
  "create_stream kit millis =
     bind_io (ResettableTimer_create (tk_channel kit) (from_millis millis))
       (\<lambda>(stream, resetter). then_io (tk_let kit stream) (ret_io resetter))"

text \<open>\<open>let (mut stream, _)\<close> drops the resetter at once.\<close>

definition create_stream_only :: "('cx, 'rx, 'w) TimerKit \<Rightarrow> nat \<Rightarrow> ('w, unit) io" where
  "create_stream_only kit millis = bind_io (create_stream kit millis) (tk_drop_resetter kit)"

text \<open>\<open>stream.next().now_or_never()\<close>: one poll, before which a task just spawned does not run.\<close>

definition next_now :: "('cx, 'rx, 'w) TimerKit \<Rightarrow> ('w, unit option Poll) io" where
  "next_now kit = tk_call kit (poll_next id)"

definition sleep_and_wait :: "('cx, 'rx, 'w) TimerKit \<Rightarrow> nat \<Rightarrow> ('w, State) io" where
  "sleep_and_wait kit millis =
     then_io (tk_sleep kit (from_millis millis))
       (bind_io (next_now kit) (\<lambda>r. ret_io (case r of PollPending \<Rightarrow> NotFired | PollReady _ \<Rightarrow> Fired)))"

definition delay_expecting_fired :: "('cx, 'rx, 'w) TimerKit \<Rightarrow> nat \<Rightarrow> ('w, unit) io" where
  "delay_expecting_fired kit millis =
     bind_io (sleep_and_wait kit millis) (\<lambda>s. assert_io (Fired = s))"

definition delay_expecting_not_fired :: "('cx, 'rx, 'w) TimerKit \<Rightarrow> nat \<Rightarrow> ('w, unit) io" where
  "delay_expecting_not_fired kit millis =
     bind_io (sleep_and_wait kit millis) (\<lambda>s. assert_io (NotFired = s))"

definition expect_ok :: "('w, StomperError + unit) io \<Rightarrow> ('w, unit) io" where
  "expect_ok m = bind_io m (\<lambda>r. case r of Inr _ \<Rightarrow> ret_io () | Inl _ \<Rightarrow> panic_io ''Unexpected error'')"

definition it_does_not_fire_if_not_elapsed :: "('cx, 'rx, 'w) TimerKit \<Rightarrow> ('w, unit) io" where
  "it_does_not_fire_if_not_elapsed kit =
     then_io (create_stream_only kit 5000) (delay_expecting_not_fired kit 4800)"

definition it_fires_if_elapsed :: "('cx, 'rx, 'w) TimerKit \<Rightarrow> ('w, unit) io" where
  "it_fires_if_elapsed kit =
     then_io (create_stream_only kit 5000)
     (then_io (next_now kit)
       (delay_expecting_fired kit 6000))"

definition it_keeps_firing :: "('cx, 'rx, 'w) TimerKit \<Rightarrow> ('w, unit) io" where
  "it_keeps_firing kit =
     then_io (create_stream_only kit 500)
     (then_io (next_now kit)
     (then_io (delay_expecting_fired kit 600)
     (then_io (delay_expecting_fired kit 500)
     (then_io (delay_expecting_fired kit 500)
     (then_io (delay_expecting_fired kit 500)
     (then_io (delay_expecting_fired kit 500)
     (then_io (delay_expecting_not_fired kit 300)
       (delay_expecting_fired kit 300))))))))"

definition it_fires_later_if_reset :: "('cx, 'rx, 'w) TimerKit \<Rightarrow> ('w, unit) io" where
  "it_fires_later_if_reset kit =
     bind_io (create_stream kit 5000) (\<lambda>resetter.
     then_io (next_now kit)
     (then_io (delay_expecting_not_fired kit 4000)
     (then_io (expect_ok (resetter_reset (tk_send kit) resetter))
     (then_io (tk_yield_now kit)
     (then_io (delay_expecting_not_fired kit 2000)
       (delay_expecting_fired kit 3050))))))"

definition it_stays_on_new_schedule_after_reset :: "('cx, 'rx, 'w) TimerKit \<Rightarrow> ('w, unit) io" where
  "it_stays_on_new_schedule_after_reset kit =
     bind_io (create_stream kit 5000) (\<lambda>resetter.
     then_io (delay_expecting_not_fired kit 4000)
     (then_io (expect_ok (resetter_reset (tk_send kit) resetter))
     (then_io (tk_yield_now kit)
     (then_io (delay_expecting_not_fired kit 2000)
     (then_io (delay_expecting_fired kit 3050)
     (then_io (delay_expecting_not_fired kit 4000)
     (then_io (delay_expecting_fired kit 2000)
     (then_io (delay_expecting_fired kit 5000)
       (delay_expecting_fired kit 5000)))))))))"

definition it_changes_period_and_resets :: "('cx, 'rx, 'w) TimerKit \<Rightarrow> ('w, unit) io" where
  "it_changes_period_and_resets kit =
     bind_io (create_stream kit 5000) (\<lambda>resetter.
     then_io (next_now kit)
     (then_io (delay_expecting_fired kit 6000)
     (then_io (expect_ok (resetter_change_period (tk_send kit) resetter (from_millis 7000)))
     (then_io (delay_expecting_not_fired kit 4100)
     (then_io (delay_expecting_not_fired kit 2000)
     (then_io (delay_expecting_fired kit 1000)
     (then_io (delay_expecting_not_fired kit 5000)
       (delay_expecting_fired kit 2000))))))))"

definition it_ends_task_when_dropped :: "('cx, 'rx, 'w) TimerKit \<Rightarrow> ('w, unit) io" where
  "it_ends_task_when_dropped kit =
     bind_io (create_stream kit 5000) (\<lambda>resetter.
     then_io (next_now kit)
     (then_io (tk_drop_stream kit)
     (then_io (tk_yield_now kit)
     (bind_io (resetter_reset (tk_send kit) resetter) (\<lambda>r. case r of
        Inl _ \<Rightarrow> ret_io ()
      | Inr _ \<Rightarrow> panic_io ''Should be an error because the other end is no longer listening'')))))"


section \<open>The runs\<close>

text \<open>
  The world: the stream, what runs on when it is dropped (\<open>left_running\<close>), the commands, whether
  the resetter is gone, and the clock. A task that has fired is succeeded at the same instant. The
  task runs when a command has come, and whenever its sleep is over.
\<close>

record timer_world =
  tt_stream :: "nat ResettableTimer option"
  tt_left_running :: "JoinHandle option"
  tt_commands :: "ResettableTimerCommand mailboxes"
  tt_gone :: bool
  tt_now :: instant

definition execute ::
  "bool \<Rightarrow> bool \<Rightarrow> instant \<Rightarrow> JoinHandle \<Rightarrow> ResettableTimerCommand list \<Rightarrow>
    JoinHandle \<times> ResettableTimerCommand list" where
  "execute sf gone now h commands =
     (case run_handle sf now h commands gone of (h', rest) \<Rightarrow> run_handle sf now h' rest gone)"

function run_sleeps :: "bool \<Rightarrow> bool \<Rightarrow> instant \<Rightarrow> JoinHandle \<Rightarrow> JoinHandle" where
  "run_sleeps sf gone target h =
     (case due (innermost h) of
        None \<Rightarrow> h
      | Some d \<Rightarrow>
          let h' = fst (execute sf gone d h [])
          in if d \<le> target \<and> (case due (innermost h') of None \<Rightarrow> True | Some d' \<Rightarrow> d < d')
             then run_sleeps sf gone target h' else h)"
  by pat_completeness auto
termination
  by (relation "measure (\<lambda>(_, _, target, h). case due (innermost h) of None \<Rightarrow> 0 | Some d \<Rightarrow> Suc target - d)")
    (auto split: option.splits)

definition run_tasks :: "bool \<Rightarrow> duration \<Rightarrow> timer_world \<Rightarrow> timer_world" where
  "run_tasks sf time w =
     (let target = tt_now w + time;
          run = (\<lambda>h. run_sleeps sf (tt_gone w) target
            (fst (execute sf (tt_gone w) (tt_now w) h (mb_queue (tt_commands w) 0))));
          queue = (\<lambda>h. snd (execute sf (tt_gone w) (tt_now w) h (mb_queue (tt_commands w) 0)));
          set_queue = (\<lambda>q. (tt_commands w)\<lparr>mb_queue := (mb_queue (tt_commands w))(0 := q)\<rparr>)
      in case (tt_stream w, tt_left_running w) of
           (Some stream, _) \<Rightarrow>
             (case timer_task stream of
                None \<Rightarrow> w\<lparr>tt_now := target\<rparr>
              | Some h \<Rightarrow> w\<lparr>tt_stream := Some (stream\<lparr>timer_task := Some (run h)\<rparr>),
                  tt_commands := set_queue (queue h), tt_now := target\<rparr>)
         | (None, Some h) \<Rightarrow> w\<lparr>tt_left_running := Some (run h), tt_commands := set_queue (queue h),
             tt_now := target\<rparr>
         | (None, None) \<Rightarrow> w\<lparr>tt_commands := mb_close 0 (tt_commands w), tt_now := target\<rparr>)"

definition timer_kit :: "bool \<Rightarrow> (nat, nat, timer_world) TimerKit" where
  "timer_kit sf =
     \<lparr>tk_channel = (\<lambda>w. (Ret (0, 0), w\<lparr>tt_commands := mb_create 0 (tt_commands w)\<rparr>)),
      tk_send = fifo_send tt_commands tt_commands_update,
      tk_drop_resetter = (\<lambda>_ w. (Ret (), w\<lparr>tt_gone := True\<rparr>)),
      tk_let = (\<lambda>stream w. (Ret (), w\<lparr>tt_stream := Some stream\<rparr>)),
      tk_call = (\<lambda>f w. case tt_stream w of
          None \<Rightarrow> (Panic ''moved'', w)
        | Some stream \<Rightarrow> (case f stream of (r, stream') \<Rightarrow> (r, w\<lparr>tt_stream := Some stream'\<rparr>))),
      tk_drop_stream = (\<lambda>w. (Ret (),
        w\<lparr>tt_stream := None, tt_left_running := Option.bind (tt_stream w) drop_timer\<rparr>)),
      tk_sleep = (\<lambda>d w. (Ret (), run_tasks sf d w)),
      tk_yield_now = (\<lambda>w. (Ret (), run_tasks sf 0 w))\<rparr>"

definition timer_start :: timer_world where
  "timer_start = \<lparr>tt_stream = None, tt_left_running = None, tt_commands = no_mailboxes,
     tt_gone = False, tt_now = 0\<rparr>"

text \<open>
  \<open>armed\<close>: the task sleeps until \<open>d\<close>, once it has looked at the commands. A sleep of the test that
  ends before \<open>d\<close> sees no firing, one that ends in the period after it sees one.
\<close>

definition armed :: "bool \<Rightarrow> duration \<Rightarrow> instant \<Rightarrow> timer_world \<Rightarrow> bool" where
  "armed sf p d w \<longleftrightarrow> as_millis p \<noteq> 0 \<and> tt_now w < d \<and>
     (case tt_stream w of
        None \<Rightarrow> False
      | Some s \<Rightarrow>
          (case timer_task s of
             None \<Rightarrow> False
           | Some h \<Rightarrow> execute sf (tt_gone w) (tt_now w) h (mb_queue (tt_commands w) 0) =
               (Running (if tt_gone w then NoReceiver p d else Selecting p d), [])))"

definition rearm :: "duration \<Rightarrow> instant \<Rightarrow> nat \<Rightarrow> timer_world \<Rightarrow> timer_world" where
  "rearm p d millis w = w\<lparr>tt_stream := map_option
     (\<lambda>s. s\<lparr>timer_task := Some (Running (if tt_gone w then NoReceiver p d else Selecting p d))\<rparr>) (tt_stream w),
     tt_commands := (tt_commands w)\<lparr>mb_queue := (mb_queue (tt_commands w))(0 := [])\<rparr>,
     tt_now := tt_now w + from_millis millis\<rparr>"

abbreviation sleeping :: "bool \<Rightarrow> duration \<Rightarrow> instant \<Rightarrow> JoinHandle" where
  "sleeping gone p d \<equiv> Running (if gone then NoReceiver p d else Selecting p d)"

lemma armedE:
  assumes "armed sf p d w"
  obtains s h where "tt_stream w = Some s" "timer_task s = Some h" "as_millis p \<noteq> 0" "tt_now w < d"
    "execute sf (tt_gone w) (tt_now w) h (mb_queue (tt_commands w) 0) = (sleeping (tt_gone w) p d, [])"
  using assms unfolding armed_def by (auto split: option.splits)

lemma run_sleeps_sleeping:
  assumes "as_millis p \<noteq> 0" "target < d + p"
  shows "run_sleeps sf gone target (sleeping gone p d) =
    (if target < d then sleeping gone p d else Completed (sleeping gone p (d + p)))"
  using assms as_millis_pos [of p] by (auto simp: execute_def create_task_no_receiver_def)

lemma sleep_armed:
  assumes "armed sf p d w" "tt_now w + from_millis millis < d + p"
  shows "sleep_and_wait (timer_kit sf) millis w =
    (if tt_now w + from_millis millis < d then (Ret NotFired, rearm p d millis w)
     else (Ret Fired, rearm p (d + p) millis w))"
proof -
  obtain s h where w: "tt_stream w = Some s" "timer_task s = Some h" "as_millis p \<noteq> 0"
    "execute sf (tt_gone w) (tt_now w) h (mb_queue (tt_commands w) 0) = (sleeping (tt_gone w) p d, [])"
    using assms(1) by (rule armedE)
  have "run_tasks sf (from_millis millis) w = w\<lparr>tt_stream := Some (s\<lparr>timer_task := Some
       (if tt_now w + from_millis millis < d then sleeping (tt_gone w) p d
        else Completed (sleeping (tt_gone w) p (d + p)))\<rparr>),
     tt_commands := (tt_commands w)\<lparr>mb_queue := (mb_queue (tt_commands w))(0 := [])\<rparr>,
     tt_now := tt_now w + from_millis millis\<rparr>"
    using w run_sleeps_sleeping [OF w(3) assms(2), of sf "tt_gone w"]
    by (simp add: run_tasks_def Let_def del: run_sleeps.simps)
  with w(1) show ?thesis
    by (simp add: sleep_and_wait_def next_now_def timer_kit_def poll_next_def poll_existing_task_def
        rearm_def then_io_def bind_io_def)
qed

text \<open>The task, its period and its deadline, computed from the world.\<close>

definition task_after :: "bool \<Rightarrow> timer_world \<Rightarrow> TimerTask" where
  "task_after sf w =
     (case tt_stream w of
        None \<Rightarrow> Stuck
      | Some s \<Rightarrow>
          (case timer_task s of
             None \<Rightarrow> Stuck
           | Some h \<Rightarrow> innermost (fst (execute sf (tt_gone w) (tt_now w) h (mb_queue (tt_commands w) 0)))))"

abbreviation period_after :: "bool \<Rightarrow> timer_world \<Rightarrow> duration" where
  "period_after sf w \<equiv> the (period_of (task_after sf w))"

abbreviation due_after :: "bool \<Rightarrow> timer_world \<Rightarrow> instant" where
  "due_after sf w \<equiv> the (due (task_after sf w))"

lemma delay_not_fired:
  assumes "armed sf (period_after sf w) (due_after sf w) w" "tt_now w + from_millis millis < due_after sf w"
  shows "delay_expecting_not_fired (timer_kit sf) millis w =
    (Ret (), rearm (period_after sf w) (due_after sf w) millis w)"
  using assms by (simp add: delay_expecting_not_fired_def bind_io_def sleep_armed)

lemma delay_fired:
  assumes "armed sf (period_after sf w) (due_after sf w) w" "due_after sf w \<le> tt_now w + from_millis millis"
    "tt_now w + from_millis millis < due_after sf w + period_after sf w"
  shows "delay_expecting_fired (timer_kit sf) millis w =
    (Ret (), rearm (period_after sf w) (due_after sf w + period_after sf w) millis w)"
  using assms by (simp add: delay_expecting_fired_def bind_io_def sleep_armed)

text \<open>The first poll starts the task; before it, time passes unnoticed.\<close>

lemma delay_unstarted:
  "delay_expecting_not_fired (timer_kit sf) millis
     \<lparr>tt_stream = Some \<lparr>timer_period = p, timer_receiver = Some rx, timer_task = None\<rparr>,
      tt_left_running = l, tt_commands = m, tt_gone = g, tt_now = now\<rparr> =
   (Ret (),
    \<lparr>tt_stream = Some \<lparr>timer_period = p, timer_receiver = None, timer_task = Some (Running (Starting p))\<rparr>,
     tt_left_running = l, tt_commands = m, tt_gone = g, tt_now = now + from_millis millis\<rparr>)"
  by (simp add: delay_expecting_not_fired_def sleep_and_wait_def next_now_def timer_kit_def run_tasks_def
      poll_next_def initialise_def then_io_def bind_io_def)

lemma timer_kit_simps:
  "tk_channel (timer_kit sf) = (\<lambda>w. (Ret (0, 0), w\<lparr>tt_commands := mb_create 0 (tt_commands w)\<rparr>))"
  "tk_send (timer_kit sf) = fifo_send tt_commands tt_commands_update"
  "tk_drop_resetter (timer_kit sf) = (\<lambda>_ w. (Ret (), w\<lparr>tt_gone := True\<rparr>))"
  "tk_let (timer_kit sf) = (\<lambda>stream w. (Ret (), w\<lparr>tt_stream := Some stream\<rparr>))"
  "tk_call (timer_kit sf) f w = (case tt_stream w of
      None \<Rightarrow> (Panic ''moved'', w)
    | Some stream \<Rightarrow> (case f stream of (r, stream') \<Rightarrow> (r, w\<lparr>tt_stream := Some stream'\<rparr>)))"
  "tk_drop_stream (timer_kit sf) = (\<lambda>w. (Ret (),
      w\<lparr>tt_stream := None, tt_left_running := Option.bind (tt_stream w) drop_timer\<rparr>))"
  "tk_yield_now (timer_kit sf) = (\<lambda>w. (Ret (), run_tasks sf 0 w))"
  by (simp_all add: timer_kit_def fun_eq_iff)

lemmas timer_test_simps =
  create_stream_def create_stream_only_def next_now_def expect_ok_def resetter_reset_def
  resetter_change_period_def ResettableTimer_create_def timer_start_def execute_def fifo_send_def
  poll_next_def initialise_def drop_timer_def create_task_no_receiver_def armed_def rearm_def
  task_after_def from_millis_def as_millis_def returns_def bind_io_def then_io_def Let_def
  timer_kit_simps delay_fired delay_not_fired delay_unstarted run_tasks_def

text \<open>
  All tests pass, whatever \<open>select!\<close> chooses when a command and the end of a sleep come together.
  The first one starts its timer after it has waited, so it cannot fail.
\<close>

lemma timer_tests_pass:
  "returns (it_does_not_fire_if_not_elapsed (timer_kit sf)) timer_start"
  "returns (it_fires_if_elapsed (timer_kit sf)) timer_start"
  "returns (it_keeps_firing (timer_kit sf)) timer_start"
  "returns (it_fires_later_if_reset (timer_kit sf)) timer_start"
  "returns (it_stays_on_new_schedule_after_reset (timer_kit sf)) timer_start"
  "returns (it_changes_period_and_resets (timer_kit sf)) timer_start"
  "returns (it_ends_task_when_dropped (timer_kit sf)) timer_start"
  by (simp_all add: it_does_not_fire_if_not_elapsed_def it_fires_if_elapsed_def it_keeps_firing_def
      it_fires_later_if_reset_def it_stays_on_new_schedule_after_reset_def it_changes_period_and_resets_def
      it_ends_task_when_dropped_def timer_test_simps)

end
