(* ===== verification/Spec2Isabelle.thy ===== *)
theory Spec2Isabelle
  imports Topic Nonlocking_Tasks Heartbeat_Progress Unit_Tests Inmemory_Tests Registry_Tests Timer_Tests
begin

text \<open>
  A verification development for \<^emph>\<open>little-stomper\<close>, an asynchronous STOMP 1.2 broker library in
  Rust with a sample websocket server. The library is \<open>src/\<close> of the crate; the path of a source
  below is relative to it.

  \<^bold>\<open>The program.\<close> A \<^emph>\<open>session\<close> (\<open>asynchronous/client.rs\<close>) serves one client: it checks the CONNECT
  frame, then handles one event at a time (frames and heartbeats of the client, messages and
  confirmations from destinations, its own heartbeats) and yields frames. \<^emph>\<open>Destinations\<close>
  (\<open>asynchronous/inmemory.rs\<close>) are tasks that keep subscriptions and hand messages to subscribers;
  a handle sends them actions over a channel. The \<^emph>\<open>registry\<close> (\<open>asynchronous/destinations.rs\<close>)
  finds or creates a destination by name. A \<^emph>\<open>resettable timer\<close>
  (\<open>asynchronous/delayable_stream.rs\<close>) drives the heartbeats. Destinations reach a session through
  a proxy (\<open>AsyncStompClient\<close>) that turns each call into an event in the session's queue.

  \<^bold>\<open>Theories.\<close>
  \<^item> \<open>Prelude\<close>: effects with panics (\<open>io\<close>), \<open>Option\<close> and \<open>Result\<close>, \<open>HashMap\<close> as an association list
    with distinct keys and any iteration order. \<open>Messages\<close>: \<open>destinations.rs\<close>, \<open>macros/mod.rs\<close>,
    \<open>error/mod.rs\<close>, and the contract \<open>subscriber_contract\<close>. \<open>Channels\<close>: the contract
    \<open>unbounded_sender\<close> of \<open>tokio\<close>'s channels. \<open>Clients\<close>: \<open>client.rs\<close>.
  \<^item> \<open>Inmemory\<close>: the closures, actions and handle of \<open>asynchronous/inmemory.rs\<close>. \<open>Backend\<close>: its
    task, the invariant \<open>backend_wf\<close>, and delivery under \<open>messaging_contract\<close>. \<open>Topic\<close>: the abstract
    topic and the refinement of each action and of the whole loop. \<open>Destination_Spec\<close>: the
    properties of handle, backend and registry.
  \<^item> \<open>Registry\<close>: \<open>asynchronous/destinations.rs\<close> over the contract \<open>get_or_create_map\<close>.
    \<open>Nonlocking_Map\<close>: \<open>asynchronous/nonlockingmap.rs\<close> with an explicit heap; it keeps that contract
    when its tasks take turns, and the race that breaks it is a property. \<open>Nonlocking_Tasks\<close>: any
    number of tasks that await \<open>get\<close>, and the updater, as a step relation; agreement and
    completion.
  \<^item> \<open>Timer\<close>: \<open>asynchronous/delayable_stream.rs\<close>; the futures are the states that \<open>await\<close> suspends
    them in, \<open>poll_task\<close> is one poll. \<open>Timer_Spec\<close>: closed forms of a poll, and the properties.
  \<^item> \<open>Session\<close>: the frames, events, proxy, session state and handlers of \<open>asynchronous/client.rs\<close>.
    \<open>Session_Spec\<close>: the proxy keeps the subscriber's contract (a \<open>sublocale\<close>), and what a handler
    returns and changes. \<open>Pipeline\<close>: the streams around the handlers (\<open>process_stream\<close>,
    \<open>validate_and_connect\<close>, \<open>handle_connection_validation_result\<close>, \<open>process_response_stream\<close>).
    \<open>Pipeline_Spec\<close>, \<open>Connect_Spec\<close>: a session's life and its beginning.
  \<^item> \<open>Websocket\<close>: the bridge of \<open>bin/sample_server.rs\<close> between websocket and session, and a whole
    session on a websocket (\<open>handle_websocket\<close>); accepting connections, and the loop of \<open>main\<close>.
  \<^item> \<open>Runtime\<close>: a model of the contracts above, on which every locale is interpreted. \<open>Broker\<close>: the
    composed server as a step relation over that runtime, one step per turn of a task.
    \<open>Broker_Spec\<close>: its invariant \<open>broker_ok\<close> and a function that computes runs. \<open>Broker_Progress\<close>:
    the turns that need nothing from the outside (\<open>internal_step\<close>) decrease \<open>server_backlog\<close>, so the
    server settles, and what is queued has then arrived. \<open>Broker_Life\<close>: sessions, destinations
    and their channels live and die together (\<open>alive_ok\<close>), and which events end a session.
    \<open>Broker_Order\<close>: what a client has got, what is queued for it and what waits at the destination
    select the SENDs of the destination in their order (\<open>order_ok\<close>).
  \<^item> \<open>Heartbeat\<close>: the composed server with a clock and the timers of its sessions, whose tasks are
    polled and whose streams are read as \<open>select_all\<close> and the heartbeat listener do; time passes
    when they have nothing to do. \<open>Heartbeat_Invariant\<close>: each run of it is a run of \<open>Broker\<close>, and each
    timer is on time (\<open>timer_ok\<close>). \<open>Heartbeat_Spec\<close>: so heartbeats come in time and exactly the silent
    are disconnected.
    \<open>Heartbeat_Progress\<close>: every timer has a reader (\<open>readers_ok\<close>), the queues drain and the timers fall
    asleep again, so left alone (\<open>alone_step\<close>) the server reaches every instant.
  \<^item> \<open>Mocks\<close>: \<open>asynchronous/mocks.rs\<close>, and a runtime for tests. \<open>Inmemory_Tests\<close>, \<open>Registry_Tests\<close>,
    \<open>Timer_Tests\<close>, \<open>Unit_Tests\<close>: the unit tests of each module, translated statement by statement and
    run on the model: they pass, and the lemmas say which mocks were called and which tasks panicked
    on the way, which a passing test leaves open.
  \<^item> This theory: the properties of the composed server.

  \<^bold>\<open>Conventions.\<close> A method that acts on shared state is a function of the world \<open>'w\<close>; the operations
  of crates that are not in the repository (channels, \<open>VersionedMap\<close>, parser, serialiser, sink,
  spawning) are arguments, and lemmas about them rest on named contracts. A panic is the value
  \<open>Panic\<close>, with what was done to the world before it. UUIDs, iteration orders of hash maps, the
  clock and the choices of \<open>select!\<close> are arguments too, so properties hold for all of them.
  Lengths and periods are kept at 32 bits where the source does.

  \<^bold>\<open>Bounds.\<close> No fuel is used: loops recurse over the list of actions, events or items that their
  channel has delivered, and \<open>poll_task\<close> terminates because each round consumes a command or
  moves to a later state. The step relations of \<open>Broker\<close> and \<open>Nonlocking_Tasks\<close> are unbounded; that
  their internal turns end is proved with the measures \<open>server_backlog\<close> and \<open>nlm_work\<close>.

  \<^bold>\<open>Not modelled.\<close> The parser and serialiser of \<open>stomp_parser\<close>; sockets and logging; the
  contents of headers no handler reads; memory orderings of the atomic pointer; the integration
  tests, which drive a session through the crate \<open>stomp_test_utils\<close>. In
  \<open>Broker\<close> a session's timers fire at any time (each heartbeat event is possible at each step),
  so its properties cover every timing; the timer's own timing is the subject of \<open>Timer_Spec\<close>, and
  \<open>Heartbeat\<close> composes the two for an executor that is always prompt. There a timer that is dropped
  disappears: what its task may leave running (\<open>Timer_Spec\<close>) nobody reads.
\<close>

section \<open>Safety of the server\<close>

text \<open>
  C1: in every reachable state of the server, whatever turns its tasks have taken, each MESSAGE
  that a client has got is for a subscription id and a destination for which this very client
  has sent a SUBSCRIBE, and its body is that of a SEND to this destination.
\<close>

theorem no_spurious_message:
  assumes "reachable b" "Inl (MessageF f) \<in> set (outbox b i)"
  shows "(i, SubscriptionId (frame_subscription f), DestinationId (frame_destination f)) \<in> asked b \<and>
    (DestinationId (frame_destination f), frame_body f) \<in> spoken b"
  using reachable_ok [OF assms(1)] assms(2) by (fastforce simp: broker_ok_def list_all_iff)

theorem no_spurious_message_witness:
  "\<exists>b. reachable b \<and> outbox b 0 = [Inl (MessageF demo_message)] \<and>
     (0, SubscriptionId ''c'', DestinationId ''d'') \<in> asked b \<and> (DestinationId ''d'', [104, 105]) \<in> spoken b"
proof -
  obtain b where b: "exec_all (demo_delivery @ [TBackend 3 ''m'', TServer 0]) broker_start = Some b"
      "outbox b 0 = [Inl (MessageF demo_message)]"
    using demo_delivery_run by blast
  have r: "reachable b" using b(1) reachable.start by (rule exec_all_reachable)
  show ?thesis
    using no_spurious_message [OF r, of demo_message 0] r b(2) by auto
qed

text \<open>
  C5: in every reachable state, a destination's task that runs is the one its name leads to, its
  map has one entry per subscription, filed under its own id, and each of its subscriptions
  carries the id that its client has asked for, with this destination, in a SUBSCRIBE.
\<close>

theorem running_destinations_sound:
  assumes "reachable b" "rt_backends (net b) t = Some bk"
  shows "rt_registry (net b) (backend_id bk) = Some \<lparr>imd_id = backend_id bk, imd_sender = t\<rparr> \<and>
    distinct (map fst (subscriptions bk)) \<and>
    (\<forall>(k, s) \<in> set (subscriptions bk). subscription_id s = k \<and>
      (\<exists>c. subscriber_sub_id s = Some c \<and> (client_sender (subscriber_of s), c, backend_id bk) \<in> asked b))"
proof -
  have "backend_ok (asked b) bk"
    and "rt_registry (net b) (backend_id bk) = Some \<lparr>imd_id = backend_id bk, imd_sender = t\<rparr>"
    using reachable_ok [OF assms(1)] assms(2) unfolding broker_ok_def net_ok_def by blast+
  then show ?thesis
    by (fastforce simp: backend_ok_def backend_wf_def distinct_keys_def)
qed

theorem running_destinations_sound_witness:
  "\<exists>b bk. reachable b \<and> rt_backends (net b) 3 = Some bk \<and>
     rt_registry (net b) (backend_id bk) = Some \<lparr>imd_id = backend_id bk, imd_sender = 3\<rparr>"
proof -
  have "\<exists>b bk. exec_all demo_delivery broker_start = Some b \<and> rt_backends (net b) 3 = Some bk"
    by (simp add: run_defs)
  then obtain b bk where b: "exec_all demo_delivery broker_start = Some b" "rt_backends (net b) 3 = Some bk"
    by blast
  have r: "reachable b" using b(1) reachable.start by (rule exec_all_reachable)
  from running_destinations_sound [OF r b(2)] r b(2) show ?thesis by blast
qed


section \<open>Delivery\<close>

text \<open>The steps of a SEND through the session and the registry.\<close>

lemma session_turn_send:
  assumes s: "session_ok A j s" and h: "rt_registry (net b) d = Some h" and d: "d = DestinationId (send_destination f)"
    and f: "send_body f = Some body" and up: "mb_open (rt_actions (net b)) (imd_sender h)"
  shows "sessions (session_turn j s (EvClientFrame (Inr (Send f))) b) = (sessions b)(j \<mapsto> s)"
    "rt_events (net (session_turn j s (EvClientFrame (Inr (Send f))) b)) = rt_events (net b)"
    "rt_backends (net (session_turn j s (EvClientFrame (Inr (Send f))) b)) = rt_backends (net b)"
    "mb_queue (rt_actions (net (session_turn j s (EvClientFrame (Inr (Send f))) b))) (imd_sender h) =
      mb_queue (rt_actions (net b)) (imd_sender h) @
        [ActSend \<lparr>sender_message_id = None, in_body = body\<rparr> (SendCallback \<lparr>client_sender = j\<rparr>)]"
  using s h up
  by (simp_all add: session_turn_def handle_event_def client_frame_def handle_def f d [symmetric] then_io_def
      bind_io_def client_message_received_def resetter_reset_def rt_command_send_def fifo_send_def
      ad_send_def rt_map_def rt_destination_def in_mem_destination_def imd_send_def perform_action_def
      rt_action_send_def session_ok_def to_send_callback_def not_dead_def Let_def)

lemma backend_turn_send:
  assumes bk: "backend_ok A bk" and iter: "hash_order iter" and sub: "(k, sub) \<in> set (subscriptions bk)"
    and up: "mb_open (rt_events w) (client_sender (subscriber_of sub))"
  shows "EvServerMessage (the (subscriber_sub_id sub))
      \<lparr>out_destination = backend_id bk, out_message_id = MessageId u, out_body = in_body m\<rparr>
    \<in> set (mb_queue (rt_events (backend_turn iter t u bk (ActSend m cb) w)) (client_sender (subscriber_of sub)))"
proof -
  let ?q = "subscriber_of sub" and ?w = "w\<lparr>rt_actions := mb_take t (rt_actions w)\<rparr>"
  let ?m = "\<lparr>out_destination = backend_id bk, out_message_id = MessageId u, out_body = in_body m\<rparr>"
  have wf: "backend_wf bk" "client_ids bk"
    using bk by (auto simp: backend_ok_def client_ids_def)
  obtain w' where sent: "backend_send rt_subscriber async_sender iter u bk m cb ?w =
        (Ret (bk\<lparr>subscriptions := filter (\<lambda>(k, s). mb_open (rt_events ?w) (client_sender (subscriber_of s)))
           (subscriptions bk)\<rparr>), w')"
    and inbox: "\<And>q. List.map_filter notice_of_event (mb_queue (rt_events w') (client_sender q)) =
      List.map_filter notice_of_event (mb_queue (rt_events ?w) (client_sender q)) @
        (if mb_open (rt_events ?w) (client_sender q)
         then delivered ?m q (map snd (iter (subscriptions bk))) else [])"
    by (rule messaging_contract.backend_send_spec [OF rt_contract wf iter]) (rule that)
  have "sub \<in> set (filter (\<lambda>s. subscriber_of s = ?q) (map snd (iter (subscriptions bk))))"
    using sub by (force simp: hash_order_set [OF iter])
  then have "Notice_Message (the (subscriber_sub_id sub)) ?m
      \<in> set (List.map_filter notice_of_event (mb_queue (rt_events w') (client_sender ?q)))"
    using inbox [of ?q] up by (simp add: delivered_def)
  then have "EvServerMessage (the (subscriber_sub_id sub)) ?m \<in> set (mb_queue (rt_events w') (client_sender ?q))"
    by (auto simp: in_set_map_filter notice_of_event_message)
  then show ?thesis by (simp add: backend_turn_def bind_io_def sent)
qed

text \<open>
  C3: in every reachable state, when a session handles a SEND and the destination of that name
  runs and has nothing else to do, then two turns (the session's and the destination's) suffice
  for every subscription of a client that is still connected: an event with its id and exactly
  the sent body waits in that client's queue. The sender's session goes on.
\<close>

theorem send_reaches_subscribers:
  fixes f :: SendFrame
  assumes "reachable b" "sessions b j = Some s" "send_body f = Some body"
    and "rt_registry (net b) (DestinationId (send_destination f)) = Some h"
    and "rt_backends (net b) (imd_sender h) = Some bk" "mb_open (rt_actions (net b)) (imd_sender h)"
    and "mb_queue (rt_actions (net b)) (imd_sender h) = []" "hash_order iter"
    and "(k, sub) \<in> set (subscriptions bk)"
    and "mb_open (rt_events (net b)) (client_sender (subscriber_of sub))"
  shows "\<exists>b1 a. broker_step b b1 \<and> sessions b1 = sessions b \<and>
    broker_step b1 (b1\<lparr>net := backend_turn iter (imd_sender h) u bk a (net b1)\<rparr>) \<and>
    EvServerMessage (the (subscriber_sub_id sub))
      \<lparr>out_destination = DestinationId (send_destination f), out_message_id = MessageId u, out_body = body\<rparr>
    \<in> set (mb_queue (rt_events (backend_turn iter (imd_sender h) u bk a (net b1)))
        (client_sender (subscriber_of sub)))"
proof -
  have ok: "session_ok (asked b) j s" "backend_ok (asked b) bk" "backend_id bk = DestinationId (send_destination f)"
    using reachable_ok [OF assms(1)] assms(2) net_ok_backend [OF _ assms(4,5)] by (auto simp: broker_ok_def)
  let ?e = "EvClientFrame (Inr (Send f))"
  let ?a = "ActSend \<lparr>sender_message_id = None, in_body = body\<rparr> (SendCallback \<lparr>client_sender = j\<rparr>)"
  let ?b1 = "session_turn j s ?e b"
  note turn = session_turn_send [OF ok(1) assms(4) refl assms(3,6)]
  have s1: "broker_step b ?b1" by (rule broker_step.from_client) (use assms(2) in simp_all)
  have s2: "broker_step ?b1 (?b1\<lparr>net := backend_turn iter (imd_sender h) u bk ?a (net ?b1)\<rparr>)"
    by (rule broker_step.internal [OF internal_step.backend [where rest = "[]"]]) (use assms(5,7,8) turn in simp_all)
  have "sessions ?b1 = sessions b" using turn(1) assms(2) by (simp add: fun_upd_idem)
  with s1 s2 backend_turn_send [OF ok(2) assms(8,9), of "net ?b1" u "\<lparr>sender_message_id = None, in_body = body\<rparr>"
      "imd_sender h" "SendCallback \<lparr>client_sender = j\<rparr>"]
  show ?thesis
    using turn(2) assms(10) ok(3) by (intro exI [of _ ?b1] exI [of _ ?a]) simp
qed


lemma demo_subscribed_run:
  "\<exists>b s. exec_all [TConnect no_heartbeats, TClient 0 (subscribe_frame ''d'' ''c''), TTask, TBackend 3 ''u'',
      TServer 0] broker_start = Some b \<and> sessions b 0 = Some s \<and>
    rt_registry (net b) (DestinationId ''d'') = Some \<lparr>imd_id = DestinationId ''d'', imd_sender = 3\<rparr> \<and>
    rt_backends (net b) 3 = Some \<lparr>backend_id = DestinationId ''d'', subscriptions = [(SubscriptionId ''u'',
      \<lparr>subscription_id = SubscriptionId ''u'', subscriber_sub_id = Some (SubscriptionId ''c''),
       send_fn = SendFn \<lparr>client_sender = 0\<rparr>\<rparr>)]\<rparr> \<and>
    mb_open (rt_actions (net b)) 3 \<and> mb_queue (rt_actions (net b)) 3 = [] \<and> mb_open (rt_events (net b)) 0"
  by (simp add: run_defs)

theorem send_reaches_subscribers_witness:
  "\<exists>b b1 a bk w. reachable b \<and> broker_step b b1 \<and> w = backend_turn id 3 ''m'' bk a (net b1) \<and>
    EvServerMessage (SubscriptionId ''c'') \<lparr>out_destination = DestinationId ''d'',
      out_message_id = MessageId ''m'', out_body = [104, 105]\<rparr> \<in> set (mb_queue (rt_events w) 0)"
proof -
  let ?sub = "\<lparr>subscription_id = SubscriptionId ''u'', subscriber_sub_id = Some (SubscriptionId ''c''),
    send_fn = SendFn \<lparr>client_sender = 0\<rparr>\<rparr> :: pointer Subscription"
  let ?bk = "\<lparr>backend_id = DestinationId ''d'', subscriptions = [(SubscriptionId ''u'', ?sub)]\<rparr>"
  let ?h = "\<lparr>imd_id = DestinationId ''d'', imd_sender = 3 :: nat\<rparr>"
  let ?f = "\<lparr>send_destination = ''d'', send_body = Some [104, 105]\<rparr>"
  obtain b s where b: "exec_all [TConnect no_heartbeats, TClient 0 (subscribe_frame ''d'' ''c''), TTask,
      TBackend 3 ''u'', TServer 0] broker_start = Some b" "sessions b 0 = Some s"
      "rt_registry (net b) (DestinationId ''d'') = Some ?h" "rt_backends (net b) 3 = Some ?bk"
      "mb_open (rt_actions (net b)) 3" "mb_queue (rt_actions (net b)) 3 = []" "mb_open (rt_events (net b)) 0"
    using demo_subscribed_run by blast
  have r: "reachable b" using b(1) reachable.start by (rule exec_all_reachable)
  have "send_body ?f = Some [104, 105]" "rt_registry (net b) (DestinationId (send_destination ?f)) = Some ?h"
    "rt_backends (net b) (imd_sender ?h) = Some ?bk" "mb_open (rt_actions (net b)) (imd_sender ?h)"
    "mb_queue (rt_actions (net b)) (imd_sender ?h) = []"
    "(SubscriptionId ''u'', ?sub) \<in> set (subscriptions ?bk)"
    "mb_open (rt_events (net b)) (client_sender (subscriber_of ?sub))"
    using b by simp_all
  from send_reaches_subscribers [OF r b(2) this(1-5) hash_order_id(1) this(6,7), of "''m''"] r show ?thesis
    by auto
qed

text \<open>
  Such an event becomes one MESSAGE frame for the client: with its subscription id, the
  destination, the message id and the body unchanged; the announced length is that of the body
  as long as it fits 32 bits, and its remainder otherwise. Only when the timer of the server's
  heartbeat is gone, the session dies instead.
\<close>

theorem message_frame_for_client:
  fixes b :: broker
  assumes "sessions b i = Some s"
  shows "if mb_open (rt_commands (net b)) (resetter_sender (server_heartbeat_resetter s))
    then \<exists>f. outbox (session_turn i s (EvServerMessage c m) b) i = outbox b i @ [Inl (MessageF f)] \<and>
      sessions (session_turn i s (EvServerMessage c m) b) i = Some s \<and>
      frame_subscription f = sub_id_str c \<and> frame_destination f = dest_id_str (out_destination m) \<and>
      frame_message_id f = msg_id_str (out_message_id m) \<and> frame_body f = out_body m \<and>
      unat (frame_content_length f) = length (frame_body f) mod 2 ^ 32
    else sessions (session_turn i s (EvServerMessage c m) b) i = None \<and>
      outbox (session_turn i s (EvServerMessage c m) b) i = outbox b i"
  by (simp add: session_turn_def handle_event_def resetter_reset_def bind_io_def rt_command_send_def fifo_send_def
      server_message_def frame_result_def Let_def not_dead_def result_output_def end_session_def unat_of_nat)

theorem message_frame_for_client_witness:
  "\<exists>b s f. sessions b 0 = Some s \<and>
    outbox (session_turn 0 s (EvServerMessage (SubscriptionId ''c'') \<lparr>out_destination = DestinationId ''d'',
      out_message_id = MessageId ''m'', out_body = [104, 105]\<rparr>) b) 0 = outbox b 0 @ [Inl (MessageF f)] \<and>
    frame_body f = [104, 105]"
proof -
  obtain b :: broker and s where b: "sessions b 0 = Some s"
      "mb_open (rt_commands (net b)) (resetter_sender (server_heartbeat_resetter s))"
    by (rule that [of "broker_start\<lparr>net := demo_world, sessions := [0 \<mapsto> demo_session]\<rparr>" demo_session])
      (simp_all add: demo_session_def ClientSession_new_def demo_world_def)
  from message_frame_for_client [OF b(1), of "SubscriptionId ''c''" "\<lparr>out_destination = DestinationId ''d'',
      out_message_id = MessageId ''m'', out_body = [104, 105]\<rparr>"] b
  show ?thesis by fastforce
qed


section \<open>Where the server fails\<close>

text \<open>
  C4: in every reachable state, a turn of a destination's task ends the task exactly when it
  handles an \<open>Unsubscribe\<close> for a subscription it does not have; no other action and no state of
  the clients can bring it down.
\<close>

theorem destination_dies_iff:
  assumes "reachable b" "rt_backends (net b) t = Some bk"
    and "mb_queue (rt_actions (net b)) t = a # rest" "hash_order iter"
  shows "rt_backends (backend_turn iter t u bk a (net b)) t = None \<longleftrightarrow>
    (\<exists>i cb. a = ActUnsubscribe i cb \<and> map_of (subscriptions bk) i = None)"
proof -
  let ?w = "(net b)\<lparr>rt_actions := mb_take t (rt_actions (net b))\<rparr>"
  have net: "net_ok (asked b) (spoken b) (net b)"
    using reachable_ok [OF assms(1)] by (simp add: broker_ok_def)
  then have bk: "backend_ok (asked b) bk"
    and reg: "rt_registry (net b) (backend_id bk) = Some \<lparr>imd_id = backend_id bk, imd_sender = t\<rparr>"
    using assms(2) unfolding net_ok_def by blast+
  have a: "action_ok (asked b) (spoken b) (backend_id bk) a"
    using net reg assms(3) unfolding net_ok_def by fastforce
  have wf: "backend_wf bk" "client_ids bk"
    using bk by (auto simp: backend_ok_def client_ids_def)
  show ?thesis
  proof (cases "admissible (topic_of bk) a")
    case True
    have "a \<noteq> ActClose" using a by auto
    obtain self' w' where "handle_action rt_subscriber async_sender iter u bk a ?w =
        (Ret (if a = ActClose then Break bk else Continue self'), w')"
      by (rule messaging_contract.handle_action_refines [OF rt_contract wf assms(4) True]) (rule that)
    with True \<open>a \<noteq> ActClose\<close> show ?thesis
      by (auto simp: backend_turn_def topic_of_def simp del: handle_action.simps)
  next
    case False
    then obtain i cb where i: "a = ActUnsubscribe i cb" "map_of (subscriptions bk) i = None"
      using a by (cases "((), a)" rule: prod.exhaust; cases a)
        (auto simp: topic_of_def elim: action_ok.elims)
    then show ?thesis
      by (cases cb) (simp add: backend_turn_def remove_subscription_def Let_def then_io_def bind_io_def
          rt_subscriber_def async_subscriber_def asc_unsubscribe_callback_def unwrap_subscriber_sub_id_def)
  qed
qed


theorem destination_dies_iff_witness:
  "\<exists>b bk a rest. reachable b \<and> rt_backends (net b) 3 = Some bk \<and> mb_queue (rt_actions (net b)) 3 = a # rest \<and>
     rt_backends (backend_turn id 3 ''m'' bk a (net b)) 3 \<noteq> None"
proof -
  have "\<exists>b bk m cb. exec_all demo_delivery broker_start = Some b \<and> rt_backends (net b) 3 = Some bk \<and>
      mb_queue (rt_actions (net b)) 3 = [ActSend m cb]"
    by (simp add: run_defs)
  then obtain b bk m cb where b: "exec_all demo_delivery broker_start = Some b" "rt_backends (net b) 3 = Some bk"
      "mb_queue (rt_actions (net b)) 3 = [ActSend m cb]"
    by blast
  have r: "reachable b" using b(1) reachable.start by (rule exec_all_reachable)
  from destination_dies_iff [OF r b(2,3) hash_order_id(1), of "''m''"] r b(2,3) show ?thesis by blast
qed

text \<open>
  Two clients subscribe to the same destination; the first sends UNSUBSCRIBE twice before its
  session has heard of the end of its subscription.
\<close>

abbreviation demo_double_unsubscribe :: "turn list" where
  "demo_double_unsubscribe \<equiv>
     [TConnect no_heartbeats, TConnect no_heartbeats,
      TClient 0 (subscribe_frame ''d'' ''c''), TTask, TBackend 6 ''u'', TServer 0,
      TClient 3 (subscribe_frame ''d'' ''e''), TTask, TBackend 6 ''v'', TServer 3,
      TClient 0 (unsubscribe_frame ''c''), TClient 0 (unsubscribe_frame ''c''),
      TBackend 6 ''x'', TBackend 6 ''y'']"


text \<open>
  A client uses one subscription id for two destinations, and takes it back; when both
  destinations have confirmed everything, somebody (here the client itself) sends to the first.
\<close>

abbreviation demo_reused_id :: "turn list" where
  "demo_reused_id \<equiv>
     [TConnect no_heartbeats,
      TClient 0 (subscribe_frame ''d'' ''c''), TTask, TBackend 3 ''u'', TServer 0,
      TClient 0 (subscribe_frame ''e'' ''c''), TTask, TBackend 4 ''v'', TServer 0,
      TClient 0 (unsubscribe_frame ''c''), TBackend 4 ''x'', TServer 0]"


end
